(* ===== verification/Prelude.thy ===== *)
theory Prelude
  imports Main
    "HOL-Library.AList"
    "HOL-Library.Word"
    "HOL-Library.Multiset"
    "HOL-Library.Char_ord"
    "HOL-Library.List_Lexorder"
begin

text \<open>
  The vocabulary the component theories share: Go's fallible results as sums, Go maps as
  association lists with distinct keys, the order in which the runtime walks a map or
  schedules goroutines as an explicit permutation, the \<open>%d\<close> verb, the \<open>int32\<close>
  conversion, and the swap of two slice elements.
\<close>

named_theorems gomap_simps \<open>rewrite rules for Go maps kept as association lists\<close>
named_theorems order_simps \<open>what survives an arbitrary iteration or scheduling order\<close>
named_theorems inv_intros \<open>operations preserve the invariants of their component\<close>

section \<open>Results\<close>

text \<open>A Go function returning \<open>(T, error)\<close>: \<open>Inl\<close> carries the error message.\<close>

type_synonym 'a res = "string + 'a"
type_synonym u32 = "32 word"

text \<open>
  An RPC handler may also crash the process (a nil dereference, an exhausted stack); the
  outcome keeps that apart from every value it can return.
\<close>

datatype 'a outcome = Returns 'a | Crashes string

section \<open>Formatting\<close>

definition digit :: "nat \<Rightarrow> char" where
  "digit d = ''0123456789'' ! d"

fun fmt_nat :: "nat \<Rightarrow> string" where
  "fmt_nat n = (if n < 10 then [digit n] else fmt_nat (n div 10) @ [digit (n mod 10)])"

declare fmt_nat.simps [simp del]

text \<open>\<open>fmt.Sprintf("%d", i)\<close>.\<close>

definition fmt_d :: "int \<Rightarrow> string" where
  "fmt_d i = (if i < 0 then ''-'' @ fmt_nat (nat (- i)) else fmt_nat (nat i))"

text \<open>Go's conversion \<open>int32(i)\<close>: two's complement truncation.\<close>

definition int32_of :: "int \<Rightarrow> int" where
  "int32_of i = signed_take_bit 31 i"

text \<open>Sums kept in an \<open>int64\<close> wrap around.\<close>

definition int64_of :: "int \<Rightarrow> int" where
  "int64_of i = signed_take_bit 63 i"

lemma int64_of_id: "- (2 ^ 63) \<le> i \<Longrightarrow> i < 2 ^ 63 \<Longrightarrow> int64_of i = i"
  unfolding int64_of_def by (rule signed_take_bit_int_eq_self) auto

lemma int32_of_id: "- (2 ^ 31) \<le> i \<Longrightarrow> i < 2 ^ 31 \<Longrightarrow> int32_of i = i"
  unfolding int32_of_def by (rule signed_take_bit_int_eq_self) auto

lemma int32_of_range: "- (2 ^ 31) \<le> int32_of i \<and> int32_of i < 2 ^ 31"
  unfolding int32_of_def
  using signed_take_bit_int_greater_eq_minus_exp [of 31 i] signed_take_bit_int_less_exp [of 31 i]
  by simp

section \<open>Go maps\<close>

text \<open>
  A Go map is kept as an association list with distinct keys: \<open>map_of\<close> looks a key up,
  \<open>AList.update\<close> stores, \<open>AList.delete\<close> deletes, and the length is Go's \<open>len\<close>. The
  list order carries no meaning; wherever the code ranges over a map the walk is made
  through an arbitrary order below.
\<close>

type_synonym ('k, 'v) gomap = "('k \<times> 'v) list"

abbreviation gm_get :: "('k, 'v) gomap \<Rightarrow> 'k \<Rightarrow> 'v option" where
  "gm_get m k \<equiv> map_of m k"

abbreviation gm_put :: "'k \<Rightarrow> 'v \<Rightarrow> ('k, 'v) gomap \<Rightarrow> ('k, 'v) gomap" where
  "gm_put k v m \<equiv> AList.update k v m"

abbreviation gm_del :: "'k \<Rightarrow> ('k, 'v) gomap \<Rightarrow> ('k, 'v) gomap" where
  "gm_del k m \<equiv> AList.delete k m"

definition gm_ok :: "('k, 'v) gomap \<Rightarrow> bool" where
  "gm_ok m \<longleftrightarrow> distinct (map fst m)"

lemma gm_ok_Nil [simp, inv_intros]: "gm_ok []"
  by (simp add: gm_ok_def)

lemma gm_ok_put [simp, inv_intros]: "gm_ok m \<Longrightarrow> gm_ok (gm_put k v m)"
  by (simp add: gm_ok_def distinct_update)

lemma gm_ok_del [simp, inv_intros]: "gm_ok m \<Longrightarrow> gm_ok (gm_del k m)"
  by (simp add: gm_ok_def distinct_delete)

lemma gm_get_put [gomap_simps]: "gm_get (gm_put k v m) k' = (if k' = k then Some v else gm_get m k')"
  by (simp add: update_conv)

lemma gm_get_del [gomap_simps]: "gm_get (gm_del k m) k' = (if k' = k then None else gm_get m k')"
  by (simp add: delete_conv')

lemma gm_dom_put [gomap_simps]: "dom (gm_get (gm_put k v m)) = insert k (dom (gm_get m))"
  by (auto simp: gm_get_put split: if_splits)

lemma gm_get_mem: "gm_ok m \<Longrightarrow> (k, v) \<in> set m \<longleftrightarrow> gm_get m k = Some v"
  by (simp add: gm_ok_def)

lemma gm_put_nonempty [simp]: "gm_put k v m \<noteq> []"
  by (cases m) (auto simp: AList.update.simps)

lemma set_gm_keys: "set (map fst m) = dom (gm_get m)"
  by (simp add: dom_map_of_conv_image_fst)

section \<open>Arbitrary orders\<close>

text \<open>
  Go does not fix the order of \<open>range\<close> over a map, nor the order in which goroutines run
  and deliver. A definition that depends on such an order takes it as a function on the
  list of things to visit; the only thing known of it is that it visits each once.
\<close>

definition is_order :: "('a list \<Rightarrow> 'a list) \<Rightarrow> bool" where
  "is_order f \<longleftrightarrow> (\<forall>xs. mset (f xs) = mset xs)"

lemma is_order_mset [order_simps]: "is_order f \<Longrightarrow> mset (f xs) = mset xs"
  by (simp add: is_order_def)

lemma is_order_set [order_simps]: "is_order f \<Longrightarrow> set (f xs) = set xs"
  by (metis is_order_def set_mset_mset)

lemma is_order_length [order_simps]: "is_order f \<Longrightarrow> length (f xs) = length xs"
  by (metis is_order_def size_mset)

lemma is_order_distinct_map [order_simps]:
  "is_order f \<Longrightarrow> distinct (map g (f xs)) = distinct (map g xs)"
  by (metis is_order_mset mset_map mset_eq_imp_distinct_iff)

lemma is_order_id [simp]: "is_order id" "is_order (\<lambda>xs. xs)"
  by (simp_all add: is_order_def)

lemma is_order_rev [simp]: "is_order rev"
  by (simp add: is_order_def)

section \<open>Loops\<close>

text \<open>A loop whose body relates each state to the next by a preorder.\<close>

lemma fold_preorder:
  assumes "\<And>x s. x \<in> set xs \<Longrightarrow> R s (f x s)" "\<And>s. R s s" "\<And>a b c. R a b \<Longrightarrow> R b c \<Longrightarrow> R a c"
  shows "R s (fold f xs s)"
  using assms(1)
proof (induction xs arbitrary: s)
  case Nil
  then show ?case using assms(2) by simp
next
  case (Cons x xs)
  have "R (f x s) (fold f xs (f x s))" using Cons by simp
  moreover have "R s (f x s)" using Cons.prems by simp
  ultimately show ?case using assms(3) by simp
qed

section \<open>Slices\<close>

text \<open>\<open>xs[i], xs[j] = xs[j], xs[i]\<close> for indices in range.\<close>

definition swap :: "'a list \<Rightarrow> nat \<Rightarrow> nat \<Rightarrow> 'a list" where
  "swap xs i j = xs[i := xs ! j, j := xs ! i]"

lemma length_swap [simp]: "length (swap xs i j) = length xs"
  by (simp add: swap_def)

lemma mset_swap_slice [simp]:
  "i < length xs \<Longrightarrow> j < length xs \<Longrightarrow> mset (swap xs i j) = mset xs"
  unfolding swap_def by (rule mset_swap)

lemma set_swap_slice [simp]:
  "i < length xs \<Longrightarrow> j < length xs \<Longrightarrow> set (swap xs i j) = set xs"
  using mset_swap_slice [of i xs j] by (metis set_mset_mset)

lemma nth_swap:
  "i < length xs \<Longrightarrow> j < length xs \<Longrightarrow> k < length xs \<Longrightarrow>
   swap xs i j ! k = (if k = i then xs ! j else if k = j then xs ! i else xs ! k)"
  by (auto simp: swap_def nth_list_update)

end
