(* ===== verification/Softfloat.thy ===== *)
theory Softfloat
  imports Prelude
begin

text \<open>
  Go's \<open>float32\<close> and \<open>float64\<close> with the arithmetic the program performs on them: IEEE 754
  binary formats, every operation the exact result rounded to nearest, ties to even (no
  fused multiply-add). A value is its bit pattern, so serialisation is exact on every
  pattern, NaN payloads included. Which NaN an operation produces Go leaves open (on amd64 it
  depends on the order of the operands in registers): here it is one quiet NaN, which no
  code in the repository tells from another, and no property tells two such NaNs apart. The
  operations are written once for a format given by the widths of its fraction and exponent fields.
\<close>

section \<open>Formats and patterns\<close>

record fpfmt =
  frac_bits :: nat
  exp_bits :: nat

definition f32fmt :: fpfmt where "f32fmt = \<lparr>frac_bits = 23, exp_bits = 8\<rparr>"
definition f64fmt :: fpfmt where "f64fmt = \<lparr>frac_bits = 52, exp_bits = 11\<rparr>"

text \<open>The sign bit's weight, the magnitude of infinity, the quiet NaN, the exponent of one quantum.\<close>

definition fp_signbit :: "fpfmt \<Rightarrow> int" where
  "fp_signbit F = 2 ^ (frac_bits F + exp_bits F)"

definition fp_inf :: "fpfmt \<Rightarrow> int" where
  "fp_inf F = (2 ^ exp_bits F - 1) * 2 ^ frac_bits F"

definition fp_qnan :: "fpfmt \<Rightarrow> int" where
  "fp_qnan F = fp_inf F + 2 ^ (frac_bits F - 1)"

definition fp_emin :: "fpfmt \<Rightarrow> int" where
  "fp_emin F = 2 - 2 ^ (exp_bits F - 1) - int (frac_bits F)"

definition fp_neg :: "fpfmt \<Rightarrow> int \<Rightarrow> bool" where
  "fp_neg F b \<longleftrightarrow> fp_signbit F \<le> b"

definition fp_mag :: "fpfmt \<Rightarrow> int \<Rightarrow> int" where
  "fp_mag F b = b mod fp_signbit F"

definition fp_sgn :: "fpfmt \<Rightarrow> bool \<Rightarrow> int \<Rightarrow> int" where
  "fp_sgn F s m = (if s then fp_signbit F + m else m)"

definition fp_is_nan :: "fpfmt \<Rightarrow> int \<Rightarrow> bool" where
  "fp_is_nan F b \<longleftrightarrow> fp_inf F < fp_mag F b"

definition fp_is_inf :: "fpfmt \<Rightarrow> int \<Rightarrow> bool" where
  "fp_is_inf F b \<longleftrightarrow> fp_mag F b = fp_inf F"

definition fp_is_zero :: "fpfmt \<Rightarrow> int \<Rightarrow> bool" where
  "fp_is_zero F b \<longleftrightarrow> fp_mag F b = 0"

definition fp_finite :: "fpfmt \<Rightarrow> int \<Rightarrow> bool" where
  "fp_finite F b \<longleftrightarrow> fp_mag F b < fp_inf F"

text \<open>A finite magnitude is \<open>m * 2 ^ e\<close>: the significand (with the hidden bit) and the exponent.\<close>

definition fp_man :: "fpfmt \<Rightarrow> int \<Rightarrow> int" where
  "fp_man F b = (let m = fp_mag F b; f = m mod 2 ^ frac_bits F
                 in if m div 2 ^ frac_bits F = 0 then f else 2 ^ frac_bits F + f)"

definition fp_exp :: "fpfmt \<Rightarrow> int \<Rightarrow> int" where
  "fp_exp F b = (let e = fp_mag F b div 2 ^ frac_bits F in fp_emin F + (if e = 0 then 0 else e - 1))"

section \<open>Rounding\<close>

function bit_length :: "int \<Rightarrow> int" where
  "bit_length n = (if n \<le> 0 then 0 else 1 + bit_length (n div 2))"
  by pat_completeness auto
termination
  by (relation "measure nat") auto

declare bit_length.simps [simp del]

text \<open>\<open>N / D\<close> rounded to the nearest integer, ties to even.\<close>

definition rne :: "int \<Rightarrow> int \<Rightarrow> int" where
  "rne N D = (let q = N div D; r = N mod D
              in if 2 * r < D then q else if D < 2 * r then q + 1 else if even q then q else q + 1)"

text \<open>The exponent of the leading bit of \<open>N / D\<close>, for positive \<open>N\<close> and \<open>D\<close>.\<close>

definition lead_exp :: "int \<Rightarrow> int \<Rightarrow> int" where
  "lead_exp N D = (let b = bit_length N - bit_length D
                   in if D * 2 ^ nat b \<le> N * 2 ^ nat (- b) then b else b - 1)"

text \<open>
  The magnitude pattern nearest to \<open>N / D * 2 ^ k\<close>: the last place is that of the format or,
  near zero, one quantum; a result that carries into the next binade or past the largest
  finite value needs no special case in the pattern, except that it stops at infinity.
\<close>

definition fp_round :: "fpfmt \<Rightarrow> int \<Rightarrow> int \<Rightarrow> int \<Rightarrow> int" where
  "fp_round F N D k =
     (if N = 0 then 0
      else let lsb = max (fp_emin F) (lead_exp N D + k - int (frac_bits F));
               t = k - lsb;
               m = (if 0 \<le> t then rne (N * 2 ^ nat t) D else rne N (D * 2 ^ nat (- t)))
           in min ((lsb - fp_emin F) * 2 ^ frac_bits F + m) (fp_inf F))"

section \<open>Arithmetic\<close>

definition fp_minus :: "fpfmt \<Rightarrow> int \<Rightarrow> int" where
  "fp_minus F a = fp_sgn F (\<not> fp_neg F a) (fp_mag F a)"

definition fp_add :: "fpfmt \<Rightarrow> int \<Rightarrow> int \<Rightarrow> int" where
  "fp_add F a b =
     (if fp_is_nan F a \<or> fp_is_nan F b then fp_qnan F
      else if fp_is_inf F a \<and> fp_is_inf F b then (if fp_neg F a = fp_neg F b then a else fp_qnan F)
      else if fp_is_inf F a then a
      else if fp_is_inf F b then b
      else let e = min (fp_exp F a) (fp_exp F b);
               x = fp_man F a * 2 ^ nat (fp_exp F a - e);
               y = fp_man F b * 2 ^ nat (fp_exp F b - e);
               s = (if fp_neg F a then - x else x) + (if fp_neg F b then - y else y)
           in if s = 0 then fp_sgn F (fp_neg F a \<and> fp_neg F b) 0
              else fp_sgn F (s < 0) (fp_round F \<bar>s\<bar> 1 e))"

definition fp_sub :: "fpfmt \<Rightarrow> int \<Rightarrow> int \<Rightarrow> int" where
  "fp_sub F a b = fp_add F a (fp_minus F b)"

definition fp_mul :: "fpfmt \<Rightarrow> int \<Rightarrow> int \<Rightarrow> int" where
  "fp_mul F a b =
     (let s = (fp_neg F a \<noteq> fp_neg F b)
      in if fp_is_nan F a \<or> fp_is_nan F b then fp_qnan F
         else if fp_is_inf F a \<or> fp_is_inf F b
              then (if fp_is_zero F a \<or> fp_is_zero F b then fp_qnan F else fp_sgn F s (fp_inf F))
         else fp_sgn F s (fp_round F (fp_man F a * fp_man F b) 1 (fp_exp F a + fp_exp F b)))"

definition fp_div :: "fpfmt \<Rightarrow> int \<Rightarrow> int \<Rightarrow> int" where
  "fp_div F a b =
     (let s = (fp_neg F a \<noteq> fp_neg F b)
      in if fp_is_nan F a \<or> fp_is_nan F b then fp_qnan F
         else if fp_is_inf F a then (if fp_is_inf F b then fp_qnan F else fp_sgn F s (fp_inf F))
         else if fp_is_inf F b then fp_sgn F s 0
         else if fp_is_zero F b then (if fp_is_zero F a then fp_qnan F else fp_sgn F s (fp_inf F))
         else fp_sgn F s (fp_round F (fp_man F a) (fp_man F b) (fp_exp F a - fp_exp F b)))"

function isqrt :: "int \<Rightarrow> int" where
  "isqrt n = (if n \<le> 0 then 0
              else let r = 2 * isqrt (n div 4) in if (r + 1) * (r + 1) \<le> n then r + 1 else r)"
  by pat_completeness auto
termination
  by (relation "measure nat") auto

declare isqrt.simps [simp del]

text \<open>
  The significand is widened to at least twice the format's precision, its exponent made
  even; the floor of the root and one sticky bit then decide the rounding.
\<close>

definition fp_sqrt :: "fpfmt \<Rightarrow> int \<Rightarrow> int" where
  "fp_sqrt F a =
     (if fp_is_nan F a then fp_qnan F
      else if fp_is_zero F a then a
      else if fp_neg F a then fp_qnan F
      else if fp_is_inf F a then a
      else let sh = 2 * (int (frac_bits F) + 2) + fp_exp F a mod 2;
               m = fp_man F a * 2 ^ nat sh;
               r = isqrt m
           in fp_round F (2 * r + (if r * r = m then 0 else 1)) 2 ((fp_exp F a - sh) div 2))"

definition fp_conv :: "fpfmt \<Rightarrow> fpfmt \<Rightarrow> int \<Rightarrow> int" where
  "fp_conv F G a =
     (if fp_is_nan F a then fp_qnan G
      else if fp_is_inf F a then fp_sgn G (fp_neg F a) (fp_inf G)
      else fp_sgn G (fp_neg F a) (fp_round G (fp_man F a) 1 (fp_exp F a)))"

definition fp_of_int :: "fpfmt \<Rightarrow> int \<Rightarrow> int" where
  "fp_of_int F i = fp_sgn F (i < 0) (fp_round F \<bar>i\<bar> 1 0)"

text \<open>Comparison: the pattern read as sign and magnitude orders the values; NaN compares to nothing.\<close>

definition fp_key :: "fpfmt \<Rightarrow> int \<Rightarrow> int" where
  "fp_key F b = (if fp_neg F b then - fp_mag F b else fp_mag F b)"

definition fp_lt :: "fpfmt \<Rightarrow> int \<Rightarrow> int \<Rightarrow> bool" where
  "fp_lt F a b \<longleftrightarrow> \<not> fp_is_nan F a \<and> \<not> fp_is_nan F b \<and> fp_key F a < fp_key F b"

definition fp_eq :: "fpfmt \<Rightarrow> int \<Rightarrow> int \<Rightarrow> bool" where
  "fp_eq F a b \<longleftrightarrow> \<not> fp_is_nan F a \<and> \<not> fp_is_nan F b \<and> fp_key F a = fp_key F b"

section \<open>The two types\<close>

datatype float32 = F32 (f32_bits: "32 word")
datatype float64 = F64 (f64_bits: "64 word")

definition f32_lift :: "int \<Rightarrow> float32" where "f32_lift b = F32 (word_of_int b)"
definition f32_int :: "float32 \<Rightarrow> int" where "f32_int x = uint (f32_bits x)"
definition f64_lift :: "int \<Rightarrow> float64" where "f64_lift b = F64 (word_of_int b)"
definition f64_int :: "float64 \<Rightarrow> int" where "f64_int x = uint (f64_bits x)"

definition f32_add :: "float32 \<Rightarrow> float32 \<Rightarrow> float32" where
  "f32_add a b = f32_lift (fp_add f32fmt (f32_int a) (f32_int b))"
definition f32_sub :: "float32 \<Rightarrow> float32 \<Rightarrow> float32" where
  "f32_sub a b = f32_lift (fp_sub f32fmt (f32_int a) (f32_int b))"
definition f32_mul :: "float32 \<Rightarrow> float32 \<Rightarrow> float32" where
  "f32_mul a b = f32_lift (fp_mul f32fmt (f32_int a) (f32_int b))"
definition f32_div :: "float32 \<Rightarrow> float32 \<Rightarrow> float32" where
  "f32_div a b = f32_lift (fp_div f32fmt (f32_int a) (f32_int b))"
definition f32_minus :: "float32 \<Rightarrow> float32" where
  "f32_minus a = f32_lift (fp_minus f32fmt (f32_int a))"
definition f32_lt :: "float32 \<Rightarrow> float32 \<Rightarrow> bool" where
  "f32_lt a b \<longleftrightarrow> fp_lt f32fmt (f32_int a) (f32_int b)"
definition f32_eq :: "float32 \<Rightarrow> float32 \<Rightarrow> bool" where
  "f32_eq a b \<longleftrightarrow> fp_eq f32fmt (f32_int a) (f32_int b)"
definition f32_is_nan :: "float32 \<Rightarrow> bool" where
  "f32_is_nan a \<longleftrightarrow> fp_is_nan f32fmt (f32_int a)"
definition f32_finite :: "float32 \<Rightarrow> bool" where
  "f32_finite a \<longleftrightarrow> fp_finite f32fmt (f32_int a)"
definition f32_zero :: float32 where "f32_zero = F32 0"
definition f32_one :: float32 where "f32_one = F32 0x3F800000"
definition f32_max :: float32 where "f32_max = F32 0x7F7FFFFF"
definition f32_of_int :: "int \<Rightarrow> float32" where "f32_of_int i = f32_lift (fp_of_int f32fmt i)"

definition f64_div :: "float64 \<Rightarrow> float64 \<Rightarrow> float64" where
  "f64_div a b = f64_lift (fp_div f64fmt (f64_int a) (f64_int b))"
definition f64_mul :: "float64 \<Rightarrow> float64 \<Rightarrow> float64" where
  "f64_mul a b = f64_lift (fp_mul f64fmt (f64_int a) (f64_int b))"
definition f64_lt :: "float64 \<Rightarrow> float64 \<Rightarrow> bool" where
  "f64_lt a b \<longleftrightarrow> fp_lt f64fmt (f64_int a) (f64_int b)"
definition f64_sqrt :: "float64 \<Rightarrow> float64" where
  "f64_sqrt a = f64_lift (fp_sqrt f64fmt (f64_int a))"
definition f64_of_int :: "int \<Rightarrow> float64" where "f64_of_int i = f64_lift (fp_of_int f64fmt i)"
definition f64_of_f32 :: "float32 \<Rightarrow> float64" where
  "f64_of_f32 a = f64_lift (fp_conv f32fmt f64fmt (f32_int a))"
definition f32_of_f64 :: "float64 \<Rightarrow> float32" where
  "f32_of_f64 a = f32_lift (fp_conv f64fmt f32fmt (f64_int a))"

text \<open>\<open>float32(math.Sqrt(float64(x)))\<close>, the form in which the program takes roots.\<close>

definition f32_sqrt :: "float32 \<Rightarrow> float32" where
  "f32_sqrt x = f32_of_f64 (f64_sqrt (f64_of_f32 x))"

section \<open>Facts about the formats\<close>

definition wf_fmt :: "fpfmt \<Rightarrow> bool" where
  "wf_fmt F \<longleftrightarrow> 1 \<le> frac_bits F \<and> 2 \<le> exp_bits F"

lemma wf_f32fmt [simp]: "wf_fmt f32fmt" and wf_f64fmt [simp]: "wf_fmt f64fmt"
  by (simp_all add: wf_fmt_def f32fmt_def f64fmt_def)

lemma fp_signbit_pos [simp]: "0 < fp_signbit F"
  by (simp add: fp_signbit_def)

lemma fp_inf_pos: "wf_fmt F \<Longrightarrow> 0 < fp_inf F"
proof -
  assume "wf_fmt F"
  then have "(1::int) < 2 ^ exp_bits F" by (simp add: wf_fmt_def)
  then show ?thesis by (simp add: fp_inf_def)
qed

lemma fp_qnan_range: assumes "wf_fmt F" shows "fp_inf F < fp_qnan F" "fp_qnan F < fp_signbit F"
proof -
  show "fp_inf F < fp_qnan F" by (simp add: fp_qnan_def)
  have "(2::int) ^ (frac_bits F - 1) < 2 ^ frac_bits F"
    using assms by (simp add: wf_fmt_def)
  moreover have "fp_inf F = fp_signbit F - 2 ^ frac_bits F"
    by (simp add: fp_inf_def fp_signbit_def algebra_simps power_add)
  ultimately show "fp_qnan F < fp_signbit F" by (simp add: fp_qnan_def)
qed

lemma fp_mag_range [simp]: "0 \<le> fp_mag F b" "fp_mag F b < fp_signbit F"
  by (simp_all add: fp_mag_def)

lemma fp_mag_id: "0 \<le> m \<Longrightarrow> m < fp_signbit F \<Longrightarrow> fp_mag F m = m"
  by (simp add: fp_mag_def)

lemma fp_mag_sgn: "0 \<le> m \<Longrightarrow> m < fp_signbit F \<Longrightarrow> fp_mag F (fp_sgn F s m) = m"
  by (simp add: fp_mag_def fp_sgn_def)

lemma fp_neg_sgn: "0 \<le> m \<Longrightarrow> m < fp_signbit F \<Longrightarrow> fp_neg F (fp_sgn F s m) = s"
  by (simp add: fp_neg_def fp_sgn_def)

lemma fp_pattern: "0 \<le> b \<Longrightarrow> b < 2 * fp_signbit F \<Longrightarrow> fp_sgn F (fp_neg F b) (fp_mag F b) = b"
proof -
  assume b: "0 \<le> b" "b < 2 * fp_signbit F"
  show ?thesis
  proof (cases "fp_neg F b")
    case True
    then have "b mod fp_signbit F = (b - fp_signbit F) mod fp_signbit F" by simp
    also have "\<dots> = b - fp_signbit F"
      using True b by (intro mod_pos_pos_trivial) (auto simp: fp_neg_def)
    finally show ?thesis using True by (simp add: fp_sgn_def fp_mag_def)
  next
    case False
    with b show ?thesis by (simp add: fp_sgn_def fp_mag_def fp_neg_def)
  qed
qed

lemma fp_sgn_range: "0 \<le> m \<Longrightarrow> m < fp_signbit F \<Longrightarrow> 0 \<le> fp_sgn F s m \<and> fp_sgn F s m < 2 * fp_signbit F"
  by (auto simp: fp_sgn_def)

section \<open>Rounding is to nearest\<close>

lemma rne_cases:
  assumes "0 < D"
  obtains (down) "N - rne N D * D = N mod D" "2 * (N mod D) \<le> D" "2 * (N mod D) = D \<Longrightarrow> even (rne N D)"
  | (up) "N - rne N D * D = N mod D - D" "D \<le> 2 * (N mod D)" "2 * (N mod D) = D \<Longrightarrow> even (rne N D)"
proof -
  have q: "N - N div D * D = N mod D" "N - (N div D + 1) * D = N mod D - D"
    by (simp_all add: minus_div_mult_eq_mod distrib_right)
  consider "rne N D = N div D" "2 * (N mod D) \<le> D" "2 * (N mod D) = D \<longrightarrow> even (N div D)"
    | "rne N D = N div D + 1" "D \<le> 2 * (N mod D)" "2 * (N mod D) = D \<longrightarrow> odd (N div D)"
    by (cases "2 * (N mod D)" D rule: linorder_cases; cases "even (N div D)")
      (simp_all add: rne_def Let_def)
  then show thesis
  proof cases
    case 1
    with q(1) show ?thesis by (intro down) simp_all
  next
    case 2
    with q(2) show ?thesis by (intro up) simp_all
  qed
qed

text \<open>The rounded quotient is a nearest integer, and an even one where two are equally near.\<close>

lemma rne_dist: assumes D: "0 < D"
  shows "2 * \<bar>N - rne N D * D\<bar> \<le> D \<and> (2 * \<bar>N - rne N D * D\<bar> = D \<longrightarrow> even (rne N D))"
proof -
  have R: "0 \<le> N mod D" "N mod D < D" using D by simp_all
  have far: "E = R - D \<Longrightarrow> D \<le> 2 * R \<Longrightarrow> R < D \<Longrightarrow> 2 * \<bar>E\<bar> \<le> D \<and> (2 * \<bar>E\<bar> = D \<longrightarrow> 2 * R = D)" for E R :: int
    by linarith
  show ?thesis
  proof (cases rule: rne_cases [OF D, of N, case_names down up])
    case down
    with R show ?thesis by (simp only: abs_of_nonneg) blast
  next
    case up
    from far [OF up(1,2) R(2)] up(3) show ?thesis by blast
  qed
qed

lemmas rne_nearest = rne_dist [THEN conjunct1]
  and rne_tie_even = rne_dist [THEN conjunct2, rule_format]

lemma rne_nonneg: "0 \<le> N \<Longrightarrow> 0 < D \<Longrightarrow> 0 \<le> rne N D"
  by (auto simp: rne_def Let_def pos_imp_zdiv_nonneg_iff intro: add_nonneg_nonneg)

lemma rne_exact: "0 < D \<Longrightarrow> rne (m * D) D = m"
  by (simp add: rne_def)

lemma isqrt_floor: "0 \<le> n \<Longrightarrow> 0 \<le> isqrt n \<and> isqrt n * isqrt n \<le> n \<and> n < (isqrt n + 1) * (isqrt n + 1)"
proof (induction n rule: isqrt.induct)
  case (1 n)
  show ?case
  proof (cases "n \<le> 0")
    case True
    with 1 show ?thesis by (simp add: isqrt.simps)
  next
    case False
    define q where "q = isqrt (n div 4)"
    have IH: "0 \<le> q" "q * q \<le> n div 4" "n div 4 < (q + 1) * (q + 1)"
      using "1.IH" False by (simp_all add: q_def)
    have lo: "(2 * q) * (2 * q) \<le> n" using IH(2) by (simp add: algebra_simps)
    have hi: "n < (2 * q + 2) * (2 * q + 2)" using IH(3) by (simp add: algebra_simps)
    have "isqrt n = (if (2 * q + 1) * (2 * q + 1) \<le> n then 2 * q + 1 else 2 * q)"
      using False by (subst isqrt.simps) (simp add: q_def Let_def)
    with lo hi IH(1) show ?thesis by (auto simp: algebra_simps)
  qed
qed

lemma bit_length_bounds: "0 < n \<Longrightarrow> 0 < bit_length n \<and> 2 ^ nat (bit_length n - 1) \<le> n \<and> n < 2 ^ nat (bit_length n)"
proof (induction n rule: bit_length.induct)
  case (1 n)
  have eq: "bit_length n = 1 + bit_length (n div 2)"
    using "1.prems" by (subst bit_length.simps) simp
  show ?case
  proof (cases "n = 1")
    case True
    then show ?thesis by (simp add: eq) (simp add: bit_length.simps)
  next
    case False
    with "1.prems" have p: "0 < n div 2" by (simp add: pos_imp_zdiv_pos_iff)
    with "1.IH" "1.prems" have IH: "0 < bit_length (n div 2)"
      "2 ^ nat (bit_length (n div 2) - 1) \<le> n div 2" "n div 2 < 2 ^ nat (bit_length (n div 2))"
      by simp_all
    have s1: "nat (bit_length n - 1) = Suc (nat (bit_length (n div 2) - 1))"
      and s2: "nat (bit_length n) = Suc (nat (bit_length (n div 2)))"
      using IH(1) by (simp_all add: eq)
    have h: "n = 2 * (n div 2) + n mod 2" "0 \<le> n mod 2" "n mod 2 < 2" by simp_all
    have "2 * 2 ^ nat (bit_length (n div 2) - 1) \<le> n" using IH(2) h by linarith
    moreover have "n < 2 * 2 ^ nat (bit_length (n div 2))" using IH(3) h by linarith
    ultimately show ?thesis unfolding s1 s2 using IH(1) eq by simp
  qed
qed

lemma fp_round_range:
  assumes "wf_fmt F" "0 \<le> N" "0 < D"
  shows "0 \<le> fp_round F N D k" "fp_round F N D k \<le> fp_inf F"
proof -
  let ?lsb = "max (fp_emin F) (lead_exp N D + k - int (frac_bits F))"
  let ?t = "k - ?lsb"
  let ?m = "if 0 \<le> ?t then rne (N * 2 ^ nat ?t) D else rne N (D * 2 ^ nat (- ?t))"
  have "0 \<le> ?m" using assms by (auto intro!: rne_nonneg)
  moreover have "0 \<le> (?lsb - fp_emin F) * 2 ^ frac_bits F" by simp
  ultimately have "0 \<le> (?lsb - fp_emin F) * 2 ^ frac_bits F + ?m" by (rule add_nonneg_nonneg[rotated])
  then show "0 \<le> fp_round F N D k"
    using fp_inf_pos [OF assms(1)] unfolding fp_round_def Let_def by auto
  show "fp_round F N D k \<le> fp_inf F"
    using fp_inf_pos [OF assms(1)] unfolding fp_round_def Let_def by auto
qed

section \<open>Rounding returns representable magnitudes unchanged\<close>

lemma bit_length_unique: assumes "0 < n" "2 ^ k \<le> n" "n < 2 ^ Suc k" shows "bit_length n = int k + 1"
proof -
  from bit_length_bounds [OF assms(1)] have b: "0 < bit_length n"
    "2 ^ nat (bit_length n - 1) \<le> n" "n < 2 ^ nat (bit_length n)" by simp_all
  from b(2) assms(3) have "(2::int) ^ nat (bit_length n - 1) < 2 ^ Suc k" by (rule le_less_trans)
  then have "nat (bit_length n - 1) < Suc k" by (subst (asm) power_strict_increasing_iff) simp
  moreover from assms(2) b(3) have "(2::int) ^ k < 2 ^ nat (bit_length n)" by (rule le_less_trans)
  then have "k < nat (bit_length n)" by (subst (asm) power_strict_increasing_iff) simp
  ultimately show ?thesis using b(1) by linarith
qed

lemma lead_exp_one: assumes "0 < n" "2 ^ k \<le> n" "n < 2 ^ Suc k" shows "lead_exp n 1 = int k"
proof -
  have "bit_length n = int k + 1" by (rule bit_length_unique [OF assms])
  moreover have "bit_length 1 = 1" by (simp add: bit_length.simps)
  ultimately show ?thesis using assms(2) by (simp add: lead_exp_def)
qed

lemma fp_man_exp_cases:
  assumes "wf_fmt F"
  obtains (sub) f where "fp_mag F b = f" "0 \<le> f" "f < 2 ^ frac_bits F" "fp_man F b = f" "fp_exp F b = fp_emin F"
  | (norm) e f where "fp_mag F b = (e + 1) * 2 ^ frac_bits F + f" "0 \<le> e" "0 \<le> f" "f < 2 ^ frac_bits F"
      "fp_man F b = 2 ^ frac_bits F + f" "fp_exp F b = fp_emin F + e"
proof -
  let ?e = "fp_mag F b div 2 ^ frac_bits F" and ?f = "fp_mag F b mod 2 ^ frac_bits F"
  have m: "fp_mag F b = ?e * 2 ^ frac_bits F + ?f" by (rule div_mult_mod_eq [symmetric])
  have f: "0 \<le> ?f" "?f < 2 ^ frac_bits F" by simp_all
  have e: "0 \<le> ?e" by (simp add: pos_imp_zdiv_nonneg_iff)
  show thesis
  proof (cases "?e = 0")
    case True
    show thesis
      by (rule sub [of ?f]) (use True m f in \<open>simp_all add: fp_man_def fp_exp_def Let_def\<close>)
  next
    case False
    show thesis
      by (rule norm [of "?e - 1" ?f]) (use False m f e in \<open>simp_all add: fp_man_def fp_exp_def Let_def\<close>)
  qed
qed

lemma fp_man_nonneg: "wf_fmt F \<Longrightarrow> 0 \<le> fp_man F b"
  by (rule fp_man_exp_cases [of F b]) auto

lemma rne_one [simp]: "rne m 1 = m"
  using rne_exact [of 1 m] by simp

lemma fp_round_exact:
  assumes wf: "wf_fmt F" and fin: "fp_mag F b \<le> fp_inf F"
  shows "fp_round F (fp_man F b) 1 (fp_exp F b) = fp_mag F b"
proof (cases rule: fp_man_exp_cases [OF wf, of b, case_names sub norm])
  case (sub f)
  show ?thesis
  proof (cases "f = 0")
    case True
    with sub show ?thesis by (simp add: fp_round_def)
  next
    case False
    with sub have f0: "0 < f" by simp
    define k where "k = nat (bit_length f - 1)"
    from bit_length_bounds [OF f0] have k: "2 ^ k \<le> f" "f < 2 ^ Suc k"
      by (simp_all add: k_def flip: Suc_nat_eq_nat_zadd1) (metis Suc_nat_eq_nat_zadd1 diff_add_cancel add.commute int_one_le_iff_zero_less diff_ge_0_iff_ge power_Suc)
    from k(1) sub(3) have "(2::int) ^ k < 2 ^ frac_bits F" by (rule le_less_trans)
    then have "k < frac_bits F" by (subst (asm) power_strict_increasing_iff) simp
    with lead_exp_one [OF f0 k] have "max (fp_emin F) (lead_exp f 1 + fp_emin F - int (frac_bits F)) = fp_emin F" by simp
    with f0 sub fin show ?thesis by (simp add: fp_round_def Let_def)
  qed
next
  case (norm e f)
  have p: "0 < (2::int) ^ frac_bits F + f" using norm by (simp add: add_pos_nonneg)
  have "lead_exp (2 ^ frac_bits F + f) 1 = int (frac_bits F)"
    by (rule lead_exp_one) (use norm p in auto)
  with p norm fin show ?thesis by (simp add: fp_round_def Let_def algebra_simps)
qed

section \<open>Algebra\<close>

lemma fp_add_comm: "fp_add F a b = fp_add F b a" if "0 \<le> a" "a < 2 * fp_signbit F" "0 \<le> b" "b < 2 * fp_signbit F"
proof (cases "fp_is_inf F a \<and> fp_is_inf F b \<and> fp_neg F a = fp_neg F b")
  case True
  then have "a = b"
    using fp_pattern [OF that(1,2)] fp_pattern [OF that(3,4)] by (simp add: fp_is_inf_def)
  then show ?thesis by simp
next
  case False
  then show ?thesis
    by (auto simp: fp_add_def Let_def min.commute add.commute conj_commute)
qed

lemma fp_mul_comm: "fp_mul F a b = fp_mul F b a"
  by (cases "fp_neg F a"; cases "fp_neg F b")
    (auto simp: fp_mul_def Let_def mult.commute add.commute)

section \<open>Comparison is comparison of values\<close>

text \<open>A finite magnitude as a number of quanta, the smallest positive value of the format.\<close>

definition fp_quanta :: "fpfmt \<Rightarrow> int \<Rightarrow> int" where
  "fp_quanta F b = fp_man F b * 2 ^ nat (fp_exp F b - fp_emin F)"

lemma fp_quanta_less:
  assumes wf: "wf_fmt F" and lt: "fp_mag F a < fp_mag F b"
  shows "fp_quanta F a < fp_quanta F b"
proof (cases rule: fp_man_exp_cases [OF wf, of a, case_names sub norm])
  case a: (sub f)
  show ?thesis
  proof (cases rule: fp_man_exp_cases [OF wf, of b, case_names sub norm])
    case (sub g)
    with a lt show ?thesis by (simp add: fp_quanta_def)
  next
    case (norm e g)
    have "f < 2 ^ frac_bits F + g" using a norm by simp
    also have "\<dots> \<le> (2 ^ frac_bits F + g) * 2 ^ nat e" using norm by simp
    finally show ?thesis using a norm by (simp add: fp_quanta_def)
  qed
next
  case a: (norm e f)
  let ?M = "(2::int) ^ frac_bits F"
  show ?thesis
  proof (cases rule: fp_man_exp_cases [OF wf, of b, case_names sub norm])
    case (sub g)
    have "?M \<le> (e + 1) * ?M + f" using a by (simp add: distrib_right)
    with a sub lt show ?thesis by simp
  next
    case (norm e' g)
    have "e \<le> e'"
    proof (rule ccontr)
      assume "\<not> e \<le> e'"
      then have "(e' + 2) * ?M \<le> (e + 1) * ?M" by (intro mult_right_mono) simp_all
      with a norm lt show False by (simp add: algebra_simps)
    qed
    then consider "e = e'" | "e < e'" by linarith
    then show ?thesis
    proof cases
      case 1
      with a norm lt show ?thesis by (simp add: fp_quanta_def)
    next
      case 2
      have "(?M + f) * 2 ^ nat e < (2 * ?M) * 2 ^ nat e" using a by simp
      also have "\<dots> = ?M * 2 ^ Suc (nat e)" by simp
      also have "\<dots> \<le> ?M * 2 ^ nat e'" using 2 a by (intro mult_left_mono power_increasing) auto
      also have "\<dots> \<le> (?M + g) * 2 ^ nat e'" using norm by (intro mult_right_mono) simp_all
      finally show ?thesis using a norm by (simp add: fp_quanta_def)
    qed
  qed
qed

lemma fp_mag_cong:
  assumes "fp_mag F a = fp_mag F b"
  shows "fp_man F a = fp_man F b" "fp_exp F a = fp_exp F b" "fp_is_nan F a = fp_is_nan F b"
    "fp_is_inf F a = fp_is_inf F b" "fp_is_zero F a = fp_is_zero F b" "fp_quanta F a = fp_quanta F b"
  using assms by (simp_all add: fp_man_def fp_exp_def fp_is_nan_def fp_is_inf_def fp_is_zero_def fp_quanta_def)

definition fp_value :: "fpfmt \<Rightarrow> int \<Rightarrow> int" where
  "fp_value F b = (if fp_neg F b then - fp_quanta F b else fp_quanta F b)"

lemma fp_quanta_less_iff: "wf_fmt F \<Longrightarrow> fp_quanta F a < fp_quanta F b \<longleftrightarrow> fp_mag F a < fp_mag F b"
  by (metis fp_mag_cong(6) fp_quanta_less linorder_less_linear order_less_asym)

lemma fp_quanta_nonneg: "wf_fmt F \<Longrightarrow> 0 \<le> fp_quanta F a"
  by (simp add: fp_quanta_def fp_man_nonneg)

lemma fp_quanta_zero_iff: assumes "wf_fmt F" shows "fp_quanta F a = 0 \<longleftrightarrow> fp_mag F a = 0"
proof -
  have z: "fp_mag F 0 = 0" "fp_quanta F 0 = 0" by (simp_all add: fp_mag_def fp_quanta_def fp_man_def)
  have "0 < fp_quanta F a \<longleftrightarrow> 0 < fp_mag F a"
    using fp_quanta_less_iff [OF assms, of 0 a] z by simp
  then show ?thesis
    using fp_quanta_nonneg [OF assms, of a] fp_mag_range(1) [of F a] by linarith
qed

lemma signed_less_transfer:
  fixes m n p q :: int
  assumes "p < q \<longleftrightarrow> m < n" "q < p \<longleftrightarrow> n < m" "p = 0 \<longleftrightarrow> m = 0" "q = 0 \<longleftrightarrow> n = 0"
    and "0 \<le> m" "0 \<le> n" "0 \<le> p" "0 \<le> q"
  shows "(if s then - m else m) < (if t then - n else n) \<longleftrightarrow> (if s then - p else p) < (if t then - q else q)"
  using assms by (cases s; cases t; simp; linarith)

lemma fp_lt_value:
  assumes wf: "wf_fmt F" and "fp_finite F a" "fp_finite F b"
  shows "fp_lt F a b \<longleftrightarrow> fp_value F a < fp_value F b"
proof -
  have nn: "\<not> fp_is_nan F a" "\<not> fp_is_nan F b"
    using assms by (simp_all add: fp_finite_def fp_is_nan_def)
  show ?thesis
    unfolding fp_lt_def fp_key_def fp_value_def using nn
    by (simp only: not_False_eq_True simp_thms, intro signed_less_transfer)
      (simp_all add: fp_quanta_less_iff [OF wf] fp_quanta_zero_iff [OF wf] fp_quanta_nonneg [OF wf])
qed

text \<open>On values that are not NaN the comparison is a strict weak order.\<close>

lemma fp_lt_irrefl: "\<not> fp_lt F a a"
  by (simp add: fp_lt_def)

lemma fp_lt_trans: "fp_lt F a b \<Longrightarrow> fp_lt F b c \<Longrightarrow> fp_lt F a c"
  by (auto simp: fp_lt_def)

lemma fp_lt_weak: "fp_lt F a c \<Longrightarrow> \<not> fp_is_nan F b \<Longrightarrow> fp_lt F a b \<or> fp_lt F b c"
  by (auto simp: fp_lt_def)

section \<open>Differences\<close>

lemma fp_minus_mag [simp]: "fp_mag F (fp_minus F a) = fp_mag F a"
  by (simp add: fp_minus_def fp_mag_sgn)

lemma fp_minus_neg [simp]: "fp_neg F (fp_minus F a) = (\<not> fp_neg F a)"
  by (simp add: fp_minus_def fp_neg_sgn)

lemmas fp_minus_class [simp] = fp_mag_cong [OF fp_minus_mag]

lemma fp_minus_minus: "0 \<le> a \<Longrightarrow> a < 2 * fp_signbit F \<Longrightarrow> fp_minus F (fp_minus F a) = a"
  by (subst fp_minus_def) (simp add: fp_pattern)

text \<open>The two differences of two values have the same magnitude.\<close>

lemma fp_sub_mag: "wf_fmt F \<Longrightarrow> fp_mag F (fp_sub F a b) = fp_mag F (fp_sub F b a)"
proof -
  assume wf: "wf_fmt F"
  define e where "e = min (fp_exp F a) (fp_exp F b)"
  define x0 where "x0 = fp_man F a * 2 ^ nat (fp_exp F a - e)"
  define y0 where "y0 = fp_man F b * 2 ^ nat (fp_exp F b - e)"
  define d where "d = (if fp_neg F a then - x0 else x0) - (if fp_neg F b then - y0 else y0)"
  have r: "fp_mag F (fp_sgn F s (fp_round F \<bar>d\<bar> 1 e)) = fp_round F \<bar>d\<bar> 1 e" for s d
    using fp_round_range [OF wf, of "\<bar>d\<bar>" 1 e] fp_qnan_range [OF wf] by (intro fp_mag_sgn) auto
  have z: "fp_mag F (fp_sgn F s 0) = 0" for s by (simp add: fp_mag_sgn)
  consider "fp_is_nan F a \<or> fp_is_nan F b" | "fp_is_inf F a" "\<not> fp_is_nan F b" | "\<not> fp_is_nan F a" "fp_is_inf F b"
    | "\<not> fp_is_nan F a" "\<not> fp_is_nan F b" "\<not> fp_is_inf F a" "\<not> fp_is_inf F b"
    by blast
  then show ?thesis
  proof cases
    case 4
    have "fp_mag F (fp_sub F a b) = (if d = 0 then 0 else fp_round F \<bar>d\<bar> 1 e)"
      using 4 by (cases "fp_neg F a"; cases "fp_neg F b")
        (simp_all add: fp_sub_def fp_add_def Let_def d_def r z flip: e_def x0_def y0_def)
    moreover define d' where "d' = (if fp_neg F b then - y0 else y0) - (if fp_neg F a then - x0 else x0)"
    have "fp_mag F (fp_sub F b a) = (if d' = 0 then 0 else fp_round F \<bar>d'\<bar> 1 e)"
      using 4 by (cases "fp_neg F a"; cases "fp_neg F b")
        (simp_all add: fp_sub_def fp_add_def Let_def d'_def r z min.commute [of "fp_exp F b"]
          flip: e_def x0_def y0_def)
    moreover have "d' = - d" by (simp add: d_def d'_def)
    ultimately show ?thesis by simp
  qed (auto simp: fp_sub_def fp_add_def fp_is_inf_def fp_is_nan_def)
qed

lemma fp_sub_self: "fp_finite F a \<Longrightarrow> fp_sub F a a = 0"
  by (auto simp: fp_sub_def fp_add_def Let_def fp_finite_def fp_is_nan_def fp_is_inf_def fp_sgn_def)

lemma fp_square_cong: "fp_mag F a = fp_mag F b \<Longrightarrow> fp_mul F a a = fp_mul F b b"
  using fp_mag_cong [of F a b] by (simp add: fp_mul_def)

section \<open>Single precision\<close>

lemma f32_int_range [simp]: "0 \<le> f32_int x" "f32_int x < 2 * fp_signbit f32fmt"
  using uint_lt2p [of "f32_bits x"] by (simp_all add: f32_int_def fp_signbit_def f32fmt_def)

lemma f32_int_lift: "0 \<le> b \<Longrightarrow> b < 2 * fp_signbit f32fmt \<Longrightarrow> f32_int (f32_lift b) = b"
  by (simp add: f32_int_def f32_lift_def fp_signbit_def f32fmt_def uint_word_of_int)

lemma f32_add_comm: "f32_add a b = f32_add b a"
  by (simp add: f32_add_def fp_add_comm)

lemma f32_mul_comm: "f32_mul a b = f32_mul b a"
  by (simp add: f32_mul_def fp_mul_comm)

lemma fp_sub_range: "wf_fmt F \<Longrightarrow> 0 \<le> a \<Longrightarrow> a < 2 * fp_signbit F \<Longrightarrow>
  0 \<le> fp_sub F a b \<and> fp_sub F a b < 2 * fp_signbit F"
proof -
  assume wf: "wf_fmt F" and a: "0 \<le> a" "a < 2 * fp_signbit F"
  have q: "0 \<le> fp_qnan F" "fp_qnan F < 2 * fp_signbit F"
    using fp_qnan_range [OF wf] fp_inf_pos [OF wf] by auto
  have r: "0 \<le> fp_sgn F s (fp_round F \<bar>d\<bar> 1 e) \<and> fp_sgn F s (fp_round F \<bar>d\<bar> 1 e) < 2 * fp_signbit F" for s d e
    using fp_round_range [OF wf, of "\<bar>d\<bar>" 1 e] fp_qnan_range [OF wf] by (intro fp_sgn_range) auto
  have z: "0 \<le> fp_sgn F s 0 \<and> fp_sgn F s 0 < 2 * fp_signbit F" for s by (intro fp_sgn_range) simp_all
  have m: "0 \<le> fp_minus F b \<and> fp_minus F b < 2 * fp_signbit F"
    unfolding fp_minus_def by (intro fp_sgn_range) simp_all
  show ?thesis
    using a q r z m by (simp add: fp_sub_def fp_add_def Let_def)
qed

lemma f32_square_diff: "f32_mul (f32_sub a b) (f32_sub a b) = f32_mul (f32_sub b a) (f32_sub b a)"
proof -
  have i: "f32_int (f32_sub x y) = fp_sub f32fmt (f32_int x) (f32_int y)" for x y
    unfolding f32_sub_def
    using fp_sub_range [OF wf_f32fmt, of "f32_int x" "f32_int y"] by (intro f32_int_lift) simp_all
  show ?thesis
    unfolding f32_mul_def i by (rule arg_cong [OF fp_square_cong]) (simp add: fp_sub_mag)
qed

lemma f32_sub_self: "f32_finite a \<Longrightarrow> f32_sub a a = f32_zero"
  by (simp add: f32_finite_def f32_sub_def fp_sub_self f32_zero_def f32_lift_def)

lemma f32_zero_facts [simp]:
  "f32_mul f32_zero f32_zero = f32_zero" "f32_add f32_zero f32_zero = f32_zero"
  "f32_sqrt f32_zero = f32_zero" "\<not> f32_is_nan f32_zero" "f32_finite f32_zero"
  by code_simp+

lemma f32_lt_irrefl: "\<not> f32_lt a a"
  by (simp add: f32_lt_def fp_lt_irrefl)

lemma f32_lt_trans: "f32_lt a b \<Longrightarrow> f32_lt b c \<Longrightarrow> f32_lt a c"
  unfolding f32_lt_def by (rule fp_lt_trans)

lemma f32_lt_weak: "f32_lt a c \<Longrightarrow> \<not> f32_is_nan b \<Longrightarrow> f32_lt a b \<or> f32_lt b c"
  unfolding f32_lt_def f32_is_nan_def by (rule fp_lt_weak)

end
