(* ===== verification/Json.thy ===== *)
theory Json
  imports Softfloat
begin

text \<open>
  What the storage layer uses of \<open>encoding/json\<close>. A document is kept as its syntax tree, so
  the text level (white space, escapes, the digits of a number) is abstracted: a number
  written from a \<open>float32\<close> is that value, one written from an integer that integer, a
  \<open>time.Time\<close> its instant. Kept are the behaviours the program depends on: a NaN or an
  infinity is an error, bytes that are not UTF-8 become U+FFFD, map keys are written
  in order, and field names are matched without regard to (ASCII) case.
\<close>

datatype json =
    JNull
  | JString string
  | JInt int
  | JFloat float32
  | JTime int
  | JArr "json list"
  | JObj "(string \<times> json) list"

section \<open>UTF-8\<close>

definition cont_byte :: "nat \<Rightarrow> bool" where
  "cont_byte b \<longleftrightarrow> 0x80 \<le> b \<and> b \<le> 0xBF"

definition nth_byte :: "string \<Rightarrow> nat \<Rightarrow> nat" where
  "nth_byte s i = (if i < length s then of_char (s ! i) else 0)"

text \<open>
  The length of the encoded code point at the head of a string, 0 when there is none: the
  table of \<open>utf8.DecodeRuneInString\<close>, overlong forms and surrogates excluded.
\<close>

definition rune_size :: "string \<Rightarrow> nat" where
  "rune_size s =
     (let b0 = nth_byte s 0; b1 = nth_byte s 1; b2 = nth_byte s 2; b3 = nth_byte s 3
      in if s = [] then 0
         else if b0 < 0x80 then 1
         else if 0xC2 \<le> b0 \<and> b0 \<le> 0xDF then (if cont_byte b1 then 2 else 0)
         else if 0xE0 \<le> b0 \<and> b0 \<le> 0xEF
              then (if (if b0 = 0xE0 then 0xA0 else 0x80) \<le> b1 \<and> b1 \<le> (if b0 = 0xED then 0x9F else 0xBF)
                       \<and> cont_byte b2 then 3 else 0)
         else if 0xF0 \<le> b0 \<and> b0 \<le> 0xF4
              then (if (if b0 = 0xF0 then 0x90 else 0x80) \<le> b1 \<and> b1 \<le> (if b0 = 0xF4 then 0x8F else 0xBF)
                       \<and> cont_byte b2 \<and> cont_byte b3 then 4 else 0)
         else 0)"

definition replacement :: string where
  "replacement = [char_of (0xEF::nat), char_of (0xBF::nat), char_of (0xBD::nat)]"

text \<open>Every byte that starts no code point is replaced by U+FFFD.\<close>

fun utf8_coerce :: "string \<Rightarrow> string" where
  "utf8_coerce [] = []"
| "utf8_coerce (c # cs) =
     (let n = rune_size (c # cs)
      in if n = 0 then replacement @ utf8_coerce cs
         else take n (c # cs) @ utf8_coerce (drop (n - 1) cs))"

fun valid_utf8 :: "string \<Rightarrow> bool" where
  "valid_utf8 [] = True"
| "valid_utf8 (c # cs) =
     (let n = rune_size (c # cs) in n \<noteq> 0 \<and> valid_utf8 (drop (n - 1) cs))"

lemma utf8_coerce_valid: "valid_utf8 s \<Longrightarrow> utf8_coerce s = s"
proof (induction s rule: valid_utf8.induct)
  case (2 c cs)
  define n where "n = rune_size (c # cs)"
  with 2 have n: "n \<noteq> 0" and IH: "utf8_coerce (drop (n - 1) cs) = drop (n - 1) cs"
    by (auto simp: Let_def)
  have "utf8_coerce (c # cs) = take n (c # cs) @ drop (n - 1) cs"
    using n IH by (simp add: Let_def flip: n_def)
  also have "drop (n - 1) cs = drop n (c # cs)"
    using n by (cases n) auto
  finally show ?case by simp
qed simp

lemma valid_utf8_ascii: "\<forall>c \<in> set s. of_char c < (128::nat) \<Longrightarrow> valid_utf8 s"
  by (induction s) (auto simp: rune_size_def nth_byte_def)

section \<open>Numbers and field names\<close>

definition non_finite_name :: "float32 \<Rightarrow> string" where
  "non_finite_name x = (if f32_is_nan x then ''NaN'' else if f32_lt x f32_zero then ''-Inf'' else ''+Inf'')"

text \<open>Encoding a slice of floats stops at the first value JSON cannot write.\<close>

fun json_floats :: "float32 list \<Rightarrow> json list res" where
  "json_floats [] = Inr []"
| "json_floats (x # xs) =
     (if \<not> f32_finite x then Inl (''json: unsupported value: '' @ non_finite_name x)
      else case json_floats xs of Inl e \<Rightarrow> Inl e | Inr js \<Rightarrow> Inr (JFloat x # js))"

definition ascii_lower :: "char \<Rightarrow> char" where
  "ascii_lower c = (let n = of_char c :: nat in if 65 \<le> n \<and> n \<le> 90 then char_of (n + 32) else c)"

definition field_matches :: "string \<Rightarrow> string \<Rightarrow> bool" where
  "field_matches name key \<longleftrightarrow> map ascii_lower name = map ascii_lower key"

text \<open>Decoding into a \<open>float32\<close>, an \<open>int64\<close>, a \<open>string\<close>; \<open>null\<close> leaves the zero value.\<close>

definition type_error :: "string \<Rightarrow> string" where
  "type_error t = ''json: cannot unmarshal value into Go value of type '' @ t"

definition json_float :: "json \<Rightarrow> float32 res" where
  "json_float j = (case j of
     JFloat x \<Rightarrow> Inr x
   | JInt i \<Rightarrow> (if f32_finite (f32_of_int i) then Inr (f32_of_int i) else Inl (type_error ''float32''))
   | JNull \<Rightarrow> Inr f32_zero
   | _ \<Rightarrow> Inl (type_error ''float32''))"

definition json_int64 :: "json \<Rightarrow> int \<Rightarrow> int res" where
  "json_int64 j old = (case j of
     JInt i \<Rightarrow> (if - (2 ^ 63) \<le> i \<and> i < 2 ^ 63 then Inr i else Inl (type_error ''int64''))
   | JNull \<Rightarrow> Inr old
   | _ \<Rightarrow> Inl (type_error ''int64''))"

definition json_string :: "json \<Rightarrow> string \<Rightarrow> string res" where
  "json_string j old = (case j of
     JString s \<Rightarrow> Inr s | JNull \<Rightarrow> Inr old | _ \<Rightarrow> Inl (type_error ''string''))"

fun res_list :: "('a \<Rightarrow> 'b res) \<Rightarrow> 'a list \<Rightarrow> 'b list res" where
  "res_list f [] = Inr []"
| "res_list f (x # xs) = (case f x of
     Inl e \<Rightarrow> Inl e
   | Inr y \<Rightarrow> (case res_list f xs of Inl e \<Rightarrow> Inl e | Inr ys \<Rightarrow> Inr (y # ys)))"

fun res_fold :: "('a \<Rightarrow> 's \<Rightarrow> 's res) \<Rightarrow> 'a list \<Rightarrow> 's \<Rightarrow> 's res" where
  "res_fold f [] s = Inr s"
| "res_fold f (x # xs) s = (case f x s of Inl e \<Rightarrow> Inl e | Inr s' \<Rightarrow> res_fold f xs s')"

lemma json_floats_finite: "(\<forall>x \<in> set xs. f32_finite x) \<Longrightarrow> json_floats xs = Inr (map JFloat xs)"
  by (induction xs) auto

lemma json_floats_error: "x \<in> set xs \<Longrightarrow> \<not> f32_finite x \<Longrightarrow> \<exists>e. json_floats xs = Inl e"
  by (induction xs) (auto split: sum.splits)

lemma json_floats_Inr: "json_floats xs = Inr js \<Longrightarrow> js = map JFloat xs \<and> (\<forall>x \<in> set xs. f32_finite x)"
  by (induction xs arbitrary: js) (auto split: if_splits sum.splits)

lemma res_list_floats [simp]: "res_list json_float (map JFloat xs) = Inr xs"
  by (induction xs) (auto simp: json_float_def)

lemma res_fold_append: "res_fold f (xs @ ys) s =
    (case res_fold f xs s of Inl e \<Rightarrow> Inl e | Inr s' \<Rightarrow> res_fold f ys s')"
  by (induction xs arbitrary: s) (auto split: sum.splits)

end
