(* ===== verification/Vectors.thy ===== *)
theory Vectors
  imports Json
begin

text \<open>
  \<open>internal/storage/vector.go\<close>: the stored vector, its JSON and binary encodings, the
  three distances and the table that picks one, and the index descriptor with its
  validation.
\<close>

section \<open>Data\<close>

text \<open>\<open>StoredVector\<close> embeds \<open>VectorMetadata\<close>, as the record extension does.\<close>

record vector_metadata =
  vID :: string
  vMetadata :: "(string, string) gomap"
  vTimestamp :: int

record stored_vector = vector_metadata +
  vValues :: "float32 list"

record search_result =
  rID :: string
  rScore :: float32
  rDistance :: float32
  rVector :: "stored_vector option"

record vector_index =
  xName :: string
  xDimension :: int
  xMetric :: string
  xShardCount :: int
  xReplicaCount :: int
  xCreatedAt :: int
  xOptions :: "(string, string) gomap"

section \<open>JSON form\<close>

definition json_metadata :: "(string, string) gomap \<Rightarrow> json" where
  "json_metadata md = JObj (map (\<lambda>(k, v). (utf8_coerce k, JString (utf8_coerce v))) (sort_key fst md))"

definition ToBytes :: "stored_vector \<Rightarrow> json res" where
  "ToBytes v = (case json_floats (vValues v) of
     Inl e \<Rightarrow> Inl e
   | Inr js \<Rightarrow> Inr (JObj
       ([(''id'', JString (utf8_coerce (vID v)))]
        @ (if vMetadata v = [] then [] else [(''metadata'', json_metadata (vMetadata v))])
        @ [(''timestamp'', JInt (vTimestamp v)), (''values'', JArr js)])))"

definition zero_vector :: stored_vector where
  "zero_vector = \<lparr>vID = [], vMetadata = [], vTimestamp = 0, vValues = []\<rparr>"

definition put_metadata :: "string \<times> json \<Rightarrow> (string, string) gomap \<Rightarrow> (string, string) gomap res" where
  "put_metadata e md = (case json_string (snd e) [] of Inl e \<Rightarrow> Inl e | Inr s \<Rightarrow> Inr (gm_put (fst e) s md))"

definition set_vector_field :: "string \<times> json \<Rightarrow> stored_vector \<Rightarrow> stored_vector res" where
  "set_vector_field e v = (let k = fst e; j = snd e in
     if field_matches ''id'' k then map_sum id (\<lambda>s. v\<lparr>vID := s\<rparr>) (json_string j (vID v))
     else if field_matches ''metadata'' k then
       (case j of
          JObj es \<Rightarrow> map_sum id (\<lambda>m. v\<lparr>vMetadata := m\<rparr>) (res_fold put_metadata es (vMetadata v))
        | JNull \<Rightarrow> Inr (v\<lparr>vMetadata := []\<rparr>)
        | _ \<Rightarrow> Inl (type_error ''map[string]string''))
     else if field_matches ''timestamp'' k then map_sum id (\<lambda>t. v\<lparr>vTimestamp := t\<rparr>) (json_int64 j (vTimestamp v))
     else if field_matches ''values'' k then
       (case j of
          JArr js \<Rightarrow> map_sum id (\<lambda>xs. v\<lparr>vValues := xs\<rparr>) (res_list json_float js)
        | JNull \<Rightarrow> Inr (v\<lparr>vValues := []\<rparr>)
        | _ \<Rightarrow> Inl (type_error ''[]float32''))
     else Inr v)"

definition VectorFromBytes :: "json \<Rightarrow> stored_vector res" where
  "VectorFromBytes d = (case d of
     JObj es \<Rightarrow> res_fold set_vector_field es zero_vector
   | JNull \<Rightarrow> Inr zero_vector
   | _ \<Rightarrow> Inl (type_error ''storage.StoredVector''))"

section \<open>Binary form\<close>

definition PutUint32 :: "u32 \<Rightarrow> 8 word list" where
  "PutUint32 w = [ucast w, ucast (drop_bit 8 w), ucast (drop_bit 16 w), ucast (drop_bit 24 w)]"

definition Uint32 :: "8 word list \<Rightarrow> u32" where
  "Uint32 bs = or (ucast (bs ! 0)) (or (push_bit 8 (ucast (bs ! 1)))
     (or (push_bit 16 (ucast (bs ! 2))) (push_bit 24 (ucast (bs ! 3)))))"

primrec SerializeVector :: "float32 list \<Rightarrow> 8 word list" where
  "SerializeVector [] = []"
| "SerializeVector (v # vs) = PutUint32 (f32_bits v) @ SerializeVector vs"

definition DeserializeVector :: "8 word list \<Rightarrow> float32 list" where
  "DeserializeVector data =
     map (\<lambda>i. F32 (Uint32 (take 4 (drop (4 * i) data)))) [0..<length data div 4]"

section \<open>Distances\<close>

definition DotProduct :: "float32 list \<Rightarrow> float32 list \<Rightarrow> float32" where
  "DotProduct a b =
     (if length a \<noteq> length b then f32_zero
      else foldl (\<lambda>product (x, y). f32_add product (f32_mul x y)) f32_zero (zip a b))"

definition EuclideanDistance :: "float32 list \<Rightarrow> float32 list \<Rightarrow> float32" where
  "EuclideanDistance a b =
     (if length a \<noteq> length b then f32_max
      else f32_sqrt (foldl (\<lambda>sum (x, y). let diff = f32_sub x y in f32_add sum (f32_mul diff diff))
             f32_zero (zip a b)))"

definition cosine_sums :: "(float32 \<times> float32) list \<Rightarrow> float32 \<times> float32 \<times> float32" where
  "cosine_sums ps = foldl (\<lambda>(dotProduct, normA, normB) (x, y).
      (f32_add dotProduct (f32_mul x y), f32_add normA (f32_mul x x), f32_add normB (f32_mul y y)))
    (f32_zero, f32_zero, f32_zero) ps"

definition CosineSimilarity :: "float32 list \<Rightarrow> float32 list \<Rightarrow> float32" where
  "CosineSimilarity a b =
     (if length a \<noteq> length b then f32_zero
      else case cosine_sums (zip a b) of (dotProduct, normA, normB) \<Rightarrow>
        if f32_eq normA f32_zero \<or> f32_eq normB f32_zero then f32_zero
        else f32_div dotProduct (f32_mul (f32_sqrt normA) (f32_sqrt normB)))"

definition GetDistanceFunc :: "string \<Rightarrow> float32 list \<Rightarrow> float32 list \<Rightarrow> float32" where
  "GetDistanceFunc metric =
     (if metric = ''cosine'' then (\<lambda>a b. f32_sub f32_one (CosineSimilarity a b))
      else if metric = ''euclidean'' then EuclideanDistance
      else if metric = ''dot_product'' then (\<lambda>a b. f32_minus (DotProduct a b))
      else EuclideanDistance)"

section \<open>Index descriptors\<close>

definition NewVectorIndex :: "int \<Rightarrow> string \<Rightarrow> int \<Rightarrow> string \<Rightarrow> int \<Rightarrow> int \<Rightarrow> vector_index" where
  "NewVectorIndex now name dimension metric shardCount replicaCount =
     \<lparr>xName = name, xDimension = dimension, xMetric = metric, xShardCount = shardCount,
      xReplicaCount = replicaCount, xCreatedAt = now, xOptions = []\<rparr>"

definition Validate :: "vector_index \<Rightarrow> string option" where
  "Validate idx =
     (if xDimension idx \<le> 0 then Some ''dimension must be positive''
      else if xShardCount idx \<le> 0 then Some ''shard count must be positive''
      else if xReplicaCount idx < 0 then Some ''replica count cannot be negative''
      else if xMetric idx \<noteq> ''cosine'' \<and> xMetric idx \<noteq> ''euclidean'' \<and> xMetric idx \<noteq> ''dot_product''
           then Some (''invalid metric: '' @ xMetric idx)
      else None)"

text \<open>An index the service accepts.\<close>

definition index_ok :: "vector_index \<Rightarrow> bool" where
  "index_ok idx \<longleftrightarrow> 0 < xDimension idx \<and> 0 < xShardCount idx \<and> 0 \<le> xReplicaCount idx
     \<and> xMetric idx \<in> {''cosine'', ''euclidean'', ''dot_product''}"

lemma Validate_iff: "Validate idx = None \<longleftrightarrow> index_ok idx"
  by (auto simp: Validate_def index_ok_def)

text \<open>\<open>json.Marshal\<close> of an index descriptor cannot fail: it holds no float.\<close>

definition json_index :: "vector_index \<Rightarrow> json" where
  "json_index idx = JObj
     [(''Name'', JString (utf8_coerce (xName idx))), (''Dimension'', JInt (xDimension idx)),
      (''Metric'', JString (utf8_coerce (xMetric idx))), (''ShardCount'', JInt (xShardCount idx)),
      (''ReplicaCount'', JInt (xReplicaCount idx)), (''CreatedAt'', JTime (xCreatedAt idx)),
      (''Options'', json_metadata (xOptions idx))]"

text \<open>And decoding one, field by field.\<close>

definition zero_index :: vector_index where
  "zero_index = \<lparr>xName = [], xDimension = 0, xMetric = [], xShardCount = 0, xReplicaCount = 0,
     xCreatedAt = 0, xOptions = []\<rparr>"

definition set_index_field :: "string \<times> json \<Rightarrow> vector_index \<Rightarrow> vector_index res" where
  "set_index_field e x = (let k = fst e; j = snd e in
     if field_matches ''Name'' k then map_sum id (\<lambda>s. x\<lparr>xName := s\<rparr>) (json_string j (xName x))
     else if field_matches ''Dimension'' k then map_sum id (\<lambda>i. x\<lparr>xDimension := i\<rparr>) (json_int64 j (xDimension x))
     else if field_matches ''Metric'' k then map_sum id (\<lambda>s. x\<lparr>xMetric := s\<rparr>) (json_string j (xMetric x))
     else if field_matches ''ShardCount'' k then map_sum id (\<lambda>i. x\<lparr>xShardCount := i\<rparr>) (json_int64 j (xShardCount x))
     else if field_matches ''ReplicaCount'' k then map_sum id (\<lambda>i. x\<lparr>xReplicaCount := i\<rparr>) (json_int64 j (xReplicaCount x))
     else if field_matches ''CreatedAt'' k then
       (case j of JTime t \<Rightarrow> Inr (x\<lparr>xCreatedAt := t\<rparr>) | JNull \<Rightarrow> Inr x | _ \<Rightarrow> Inl ''Time.UnmarshalJSON: input is not a JSON string'')
     else if field_matches ''Options'' k then
       (case j of
          JObj es \<Rightarrow> map_sum id (\<lambda>m. x\<lparr>xOptions := m\<rparr>) (res_fold put_metadata es (xOptions x))
        | JNull \<Rightarrow> Inr (x\<lparr>xOptions := []\<rparr>)
        | _ \<Rightarrow> Inl (type_error ''map[string]string''))
     else Inr x)"

definition IndexFromBytes :: "json \<Rightarrow> vector_index res" where
  "IndexFromBytes d = (case d of
     JObj es \<Rightarrow> res_fold set_index_field es zero_index
   | JNull \<Rightarrow> Inr zero_index
   | _ \<Rightarrow> Inl (type_error ''storage.VectorIndex''))"

section \<open>Round trips\<close>

lemma Uint32_PutUint32 [simp]: "Uint32 (PutUint32 w) = w"
proof (rule bit_word_eqI)
  fix n assume "n < LENGTH(32)"
  then consider "n < 8" | "8 \<le> n" "n < 16" | "16 \<le> n" "n < 24" | "24 \<le> n" "n < 32" by fastforce
  then show "bit (Uint32 (PutUint32 w)) n = bit w n"
    by cases (auto simp: Uint32_def PutUint32_def bit_or_iff bit_push_bit_iff bit_ucast_iff bit_drop_bit_eq
        dest: bit_imp_le_length)
qed

lemma length_PutUint32 [simp]: "length (PutUint32 w) = 4"
  by (simp add: PutUint32_def)

lemma DeserializeVector_block:
  assumes "length bs = 4"
  shows "DeserializeVector (bs @ rest) = F32 (Uint32 bs) # DeserializeVector rest"
proof -
  have len: "length (bs @ rest) div 4 = Suc (length rest div 4)" using assms by simp
  have idx: "[0..<Suc n] = 0 # map Suc [0..<n]" for n
    by (simp add: upt_conv_Cons map_Suc_upt del: upt_Suc)
  show ?thesis
    unfolding DeserializeVector_def len idx using assms by simp
qed

lemma length_SerializeVector: "length (SerializeVector vs) = 4 * length vs"
  by (induction vs) simp_all

lemma DeserializeVector_SerializeVector: "DeserializeVector (SerializeVector vs) = vs"
proof (induction vs)
  case Nil
  show ?case by (simp add: DeserializeVector_def)
next
  case (Cons v vs)
  then show ?case by (simp add: DeserializeVector_block)
qed

definition text_ok :: "(string, string) gomap \<Rightarrow> bool" where
  "text_ok md \<longleftrightarrow> gm_ok md \<and> (\<forall>(k, v) \<in> set md. valid_utf8 k \<and> valid_utf8 v)"

text \<open>What JSON can carry: valid text, an \<open>int64\<close> timestamp, finite values.\<close>

definition vector_ok :: "stored_vector \<Rightarrow> bool" where
  "vector_ok v \<longleftrightarrow> valid_utf8 (vID v) \<and> text_ok (vMetadata v)
     \<and> - (2 ^ 63) \<le> vTimestamp v \<and> vTimestamp v < 2 ^ 63 \<and> (\<forall>x \<in> set (vValues v). f32_finite x)"

lemma put_metadata_all:
  "distinct (map fst (m @ xs)) \<Longrightarrow> \<forall>(k, v) \<in> set xs. valid_utf8 k \<and> valid_utf8 v \<Longrightarrow>
   res_fold put_metadata (map (\<lambda>(k, v). (utf8_coerce k, JString (utf8_coerce v))) xs) m = Inr (m @ xs)"
proof (induction xs arbitrary: m)
  case (Cons p xs)
  obtain k v where p: "p = (k, v)" by (cases p)
  with Cons.prems have "k \<notin> fst ` set m" by auto
  then have "gm_put k v m = m @ [(k, v)]" by (induction m) auto
  with Cons p show ?case by (simp add: put_metadata_def json_string_def utf8_coerce_valid)
qed simp

lemma sort_key_distinct: "distinct (map fst xs) \<Longrightarrow> distinct (map fst (sort_key fst xs))"
  by (metis mset_eq_imp_distinct_iff mset_map mset_sort)

lemma field_names [simp]:
  "field_matches ''id'' ''id''" "\<not> field_matches ''id'' ''metadata''" "\<not> field_matches ''id'' ''timestamp''"
  "\<not> field_matches ''id'' ''values''" "field_matches ''metadata'' ''metadata''"
  "\<not> field_matches ''metadata'' ''timestamp''" "\<not> field_matches ''metadata'' ''values''"
  "field_matches ''timestamp'' ''timestamp''" "\<not> field_matches ''timestamp'' ''values''"
  "field_matches ''values'' ''values''"
  by (simp_all add: field_matches_def ascii_lower_def)

text \<open>Decoding what was encoded gives the vector back, its metadata in key order.\<close>

lemma ToBytes_Inr_iff: "(\<exists>d. ToBytes v = Inr d) \<longleftrightarrow> (\<forall>x \<in> set (vValues v). f32_finite x)"
proof
  assume "\<exists>d. ToBytes v = Inr d"
  then show "\<forall>x \<in> set (vValues v). f32_finite x"
    by (auto simp: ToBytes_def split: sum.splits dest: json_floats_Inr)
qed (simp add: ToBytes_def json_floats_finite)

lemma VectorFromBytes_ToBytes:
  assumes ok: "vector_ok v" and d: "ToBytes v = Inr d"
  shows "VectorFromBytes d = Inr (v\<lparr>vMetadata := sort_key fst (vMetadata v)\<rparr>)"
proof -
  have js: "json_floats (vValues v) = Inr (map JFloat (vValues v))"
    using ok by (simp add: vector_ok_def json_floats_finite)
  have md: "res_fold put_metadata
      (map (\<lambda>(k, v). (utf8_coerce k, JString (utf8_coerce v))) (sort_key fst (vMetadata v))) [] = Inr (sort_key fst (vMetadata v))"
    using ok put_metadata_all [of "[]" "sort_key fst (vMetadata v)"]
    by (auto simp: vector_ok_def text_ok_def gm_ok_def sort_key_distinct)
  have t: "json_int64 (JInt (vTimestamp v)) old = Inr (vTimestamp v)" for old
    using ok by (simp add: vector_ok_def json_int64_def)
  have i: "utf8_coerce (vID v) = vID v"
    using ok by (simp add: vector_ok_def utf8_coerce_valid)
  show ?thesis
    using d by (auto simp: ToBytes_def js VectorFromBytes_def set_vector_field_def json_metadata_def
        md t i json_string_def zero_vector_def)
qed

lemma map_of_sort_key: "gm_ok m \<Longrightarrow> map_of (sort_key fst m) k = map_of m k"
  by (metis gm_ok_def map_of_inject_set mset_sort set_mset_mset sort_key_distinct)

section \<open>Round trip of an index descriptor\<close>

lemma index_fields [simp]:
  "field_matches ''Name'' ''Name''"
  "\<not> field_matches ''Name'' ''Dimension''" "field_matches ''Dimension'' ''Dimension''"
  "\<not> field_matches ''Name'' ''Metric''" "\<not> field_matches ''Dimension'' ''Metric''" "field_matches ''Metric'' ''Metric''"
  "\<not> field_matches ''Name'' ''ShardCount''" "\<not> field_matches ''Dimension'' ''ShardCount''"
  "\<not> field_matches ''Metric'' ''ShardCount''" "field_matches ''ShardCount'' ''ShardCount''"
  "\<not> field_matches ''Name'' ''ReplicaCount''" "\<not> field_matches ''Dimension'' ''ReplicaCount''"
  "\<not> field_matches ''Metric'' ''ReplicaCount''" "\<not> field_matches ''ShardCount'' ''ReplicaCount''"
  "field_matches ''ReplicaCount'' ''ReplicaCount''"
  "\<not> field_matches ''Name'' ''CreatedAt''" "\<not> field_matches ''Dimension'' ''CreatedAt''"
  "\<not> field_matches ''Metric'' ''CreatedAt''" "\<not> field_matches ''ShardCount'' ''CreatedAt''"
  "\<not> field_matches ''ReplicaCount'' ''CreatedAt''" "field_matches ''CreatedAt'' ''CreatedAt''"
  "\<not> field_matches ''Name'' ''Options''" "\<not> field_matches ''Dimension'' ''Options''"
  "\<not> field_matches ''Metric'' ''Options''" "\<not> field_matches ''ShardCount'' ''Options''"
  "\<not> field_matches ''ReplicaCount'' ''Options''" "\<not> field_matches ''CreatedAt'' ''Options''"
  "field_matches ''Options'' ''Options''"
  by (simp_all add: field_matches_def) code_simp

definition int64_range :: "int \<Rightarrow> bool" where
  "int64_range i \<longleftrightarrow> - (2 ^ 63) \<le> i \<and> i < 2 ^ 63"

definition index_encodable :: "vector_index \<Rightarrow> bool" where
  "index_encodable x \<longleftrightarrow> valid_utf8 (xName x) \<and> valid_utf8 (xMetric x) \<and> text_ok (xOptions x)
     \<and> int64_range (xDimension x) \<and> int64_range (xShardCount x) \<and> int64_range (xReplicaCount x)"

lemma json_int64_range: "int64_range i \<Longrightarrow> json_int64 (JInt i) old = Inr i"
  by (simp add: json_int64_def int64_range_def)

lemma IndexFromBytes_json:
  assumes "index_encodable x"
  shows "IndexFromBytes (json_index x) = Inr (x\<lparr>xOptions := sort_key fst (xOptions x)\<rparr>)"
proof -
  have md: "res_fold put_metadata
      (map (\<lambda>(k, v). (utf8_coerce k, JString (utf8_coerce v))) (sort_key fst (xOptions x))) [] = Inr (sort_key fst (xOptions x))"
    using assms put_metadata_all [of "[]" "sort_key fst (xOptions x)"]
    by (auto simp: index_encodable_def text_ok_def gm_ok_def sort_key_distinct)
  show ?thesis using assms
    by (simp add: index_encodable_def IndexFromBytes_def json_index_def set_index_field_def zero_index_def md
        json_metadata_def json_int64_range json_string_def utf8_coerce_valid)
qed

section \<open>Laws of the distances\<close>

lemma foldl_zip_swap:
  "(\<And>s x y. f s (x, y) = g s (y, x)) \<Longrightarrow> foldl f s (zip a b) = foldl g s (zip b a)"
proof (induction a arbitrary: b s)
  case (Cons x a)
  then show ?case by (cases b) auto
qed simp

lemma DotProduct_sym: "DotProduct a b = DotProduct b a"
  unfolding DotProduct_def
  by (subst foldl_zip_swap [where g = "\<lambda>s (x, y). f32_add s (f32_mul x y)"]) (auto simp: f32_mul_comm)

lemma EuclideanDistance_sym: "EuclideanDistance a b = EuclideanDistance b a"
  unfolding EuclideanDistance_def
  by (subst foldl_zip_swap [where g = "\<lambda>s (x, y). let d = f32_sub x y in f32_add s (f32_mul d d)"])
     (auto simp: Let_def f32_square_diff)

lemma cosine_sums_swap:
  "cosine_sums (zip b a) = (case cosine_sums (zip a b) of (d, na, nb) \<Rightarrow> (d, nb, na))"
proof -
  have "foldl (\<lambda>(d, na, nb) (x, y). (f32_add d (f32_mul x y), f32_add na (f32_mul x x), f32_add nb (f32_mul y y))) s (zip b a)
    = (case foldl (\<lambda>(d, na, nb) (x, y). (f32_add d (f32_mul x y), f32_add na (f32_mul x x), f32_add nb (f32_mul y y)))
         (case s of (d, na, nb) \<Rightarrow> (d, nb, na)) (zip a b) of (d, na, nb) \<Rightarrow> (d, nb, na))" for s
  proof (induction a arbitrary: b s)
    case Nil
    then show ?case by (cases s) simp
  next
    case (Cons x a)
    then show ?case by (cases b; cases s) (auto simp: f32_mul_comm)
  qed
  then show ?thesis unfolding cosine_sums_def by simp
qed

lemma CosineSimilarity_sym: "CosineSimilarity a b = CosineSimilarity b a"
  by (auto simp: CosineSimilarity_def cosine_sums_swap [of b a] f32_mul_comm split: prod.splits)

lemma GetDistanceFunc_sym: "GetDistanceFunc metric a b = GetDistanceFunc metric b a"
  by (simp add: GetDistanceFunc_def CosineSimilarity_sym [of a] EuclideanDistance_sym [of a] DotProduct_sym [of a])

lemma EuclideanDistance_self: "\<forall>x \<in> set a. f32_finite x \<Longrightarrow> EuclideanDistance a a = f32_zero"
proof -
  assume "\<forall>x \<in> set a. f32_finite x"
  then have "foldl (\<lambda>sum (x, y). let diff = f32_sub x y in f32_add sum (f32_mul diff diff)) f32_zero (zip a a) = f32_zero"
    by (induction a) (auto simp: Let_def f32_sub_self)
  then show ?thesis by (simp add: EuclideanDistance_def)
qed

end
