(* ===== verification/Redis.thy ===== *)
theory Redis
  imports Vectors
begin

text \<open>
  The Redis servers behind the adapters, reached through the go-redis client: neither is
  part of the repository, so what they do is a parameter of every definition that talks to
  them. The parameter runs a pipeline of commands on a connection in a world of type
  \<open>'w\<close> and answers with the replies or with the error of \<open>Exec\<close>; contexts, time-outs and
  lost connections are reasons for the error. The locale \<open>redis_service\<close> states what the
  program relies on, the documented effect of the commands; an in-memory service satisfies
  it.
\<close>

section \<open>Commands and replies\<close>

record conn =
  cAddr :: string
  cPassword :: string
  cDB :: int

datatype redis_cmd =
    PING
  | SET string json
  | GET string
  | DEL string
  | ZADD string float64 string
  | ZREM string string
  | ZREVRANGE string
  | ZCARD string

datatype redis_reply =
    OkReply
  | DocReply json
  | NilReply
  | IntReply int
  | MembersReply "string list"
  | ErrReply string

type_synonym 'w redis = "conn \<Rightarrow> redis_cmd list \<Rightarrow> 'w \<Rightarrow> redis_reply list res \<times> 'w"

section \<open>Documented effect\<close>

text \<open>One logical database: the string values and the sorted sets (member, score), by key.\<close>

record db =
  dbDocs :: "string \<Rightarrow> json option"
  dbSets :: "string \<Rightarrow> string \<Rightarrow> float64 option"

fun cmd_effect :: "redis_cmd \<Rightarrow> db \<Rightarrow> db" where
  "cmd_effect (SET k d) s = s\<lparr>dbDocs := (dbDocs s)(k := Some d), dbSets := (dbSets s)(k := Map.empty)\<rparr>"
| "cmd_effect (DEL k) s = s\<lparr>dbDocs := (dbDocs s)(k := None), dbSets := (dbSets s)(k := Map.empty)\<rparr>"
| "cmd_effect (ZADD k x m) s = s\<lparr>dbSets := (dbSets s)(k := (dbSets s k)(m := Some x))\<rparr>"
| "cmd_effect (ZREM k m) s = s\<lparr>dbSets := (dbSets s)(k := (dbSets s k)(m := None))\<rparr>"
| "cmd_effect _ s = s"

definition int_reply :: "redis_reply \<Rightarrow> bool" where
  "int_reply r \<longleftrightarrow> (\<exists>n. r = IntReply n)"

fun reply_ok :: "redis_cmd \<Rightarrow> db \<Rightarrow> redis_reply \<Rightarrow> bool" where
  "reply_ok (GET k) s r \<longleftrightarrow> r = (case dbDocs s k of None \<Rightarrow> NilReply | Some d \<Rightarrow> DocReply d)"
| "reply_ok (ZCARD k) s r \<longleftrightarrow> r = IntReply (int (card (dom (dbSets s k))))"
| "reply_ok (ZREVRANGE k) s r \<longleftrightarrow> (\<exists>ms. r = MembersReply ms \<and> distinct ms \<and> set ms = dom (dbSets s k))"
| "reply_ok (DEL k) s r \<longleftrightarrow> int_reply r"
| "reply_ok (ZADD k x m) s r \<longleftrightarrow> int_reply r"
| "reply_ok (ZREM k m) s r \<longleftrightarrow> int_reply r"
| "reply_ok _ s r \<longleftrightarrow> r = OkReply"

fun replies_ok :: "redis_cmd list \<Rightarrow> db \<Rightarrow> redis_reply list \<Rightarrow> bool" where
  "replies_ok [] s rs = (rs = [])"
| "replies_ok (c # cs) s rs =
     (case rs of [] \<Rightarrow> False | r # rs' \<Rightarrow> reply_ok c s r \<and> replies_ok cs (cmd_effect c s) rs')"

lemma replies_ok_length: "replies_ok cs s rs \<Longrightarrow> length rs = length cs"
  by (induction cs arbitrary: s rs) (auto split: list.splits)

lemma reply_ok_no_error: "reply_ok c s r \<Longrightarrow> r \<noteq> ErrReply e"
  by (cases c) (auto simp: int_reply_def split: option.splits)

lemma replies_ok_no_error: "replies_ok cs s rs \<Longrightarrow> r \<in> set rs \<Longrightarrow> r \<noteq> ErrReply e"
  by (induction cs arbitrary: s rs) (auto split: list.splits dest: reply_ok_no_error)

text \<open>The values some commands can leave in the document under a key.\<close>

definition doc_written :: "redis_cmd list \<Rightarrow> string \<Rightarrow> json option \<Rightarrow> bool" where
  "doc_written cmds k x \<longleftrightarrow> (case x of None \<Rightarrow> DEL k \<in> set cmds | Some d \<Rightarrow> SET k d \<in> set cmds)"

lemma doc_written_mono: "set run \<subseteq> set cmds \<Longrightarrow> doc_written run k x \<Longrightarrow> doc_written cmds k x"
  by (auto simp: doc_written_def split: option.splits)

lemma cmd_effect_docs: "dbDocs (cmd_effect c s) k = dbDocs s k \<or> doc_written [c] k (dbDocs (cmd_effect c s) k)"
  by (cases c) (auto simp: doc_written_def)

lemma fold_effect_docs:
  "dbDocs (fold cmd_effect run s) k = dbDocs s k \<or> doc_written run k (dbDocs (fold cmd_effect run s) k)"
proof (induction run arbitrary: s)
  case (Cons c run)
  show ?case
    using Cons.IH [of "cmd_effect c s"] cmd_effect_docs [of c s k]
      doc_written_mono [of "[c]" "c # run" k] doc_written_mono [of run "c # run" k]
    by auto
qed simp

section \<open>Interface: the service\<close>

text \<open>
  A pipeline that reports no error has run all its commands, in order, on the database of
  its connection; one that reports an error has run some of them, perhaps more than once (the
  client retries); no pipeline touches another database; an empty one does nothing.
\<close>

locale redis_service =
  fixes exec :: "'w redis" and store :: "'w \<Rightarrow> string \<Rightarrow> int \<Rightarrow> db"
  assumes exec_done: "exec c cmds w = (Inr rs, w') \<Longrightarrow>
      store w' (cAddr c) (cDB c) = fold cmd_effect cmds (store w (cAddr c) (cDB c))
      \<and> replies_ok cmds (store w (cAddr c) (cDB c)) rs"
    and exec_failed: "exec c cmds w = (Inl e, w') \<Longrightarrow>
      \<exists>run. set run \<subseteq> set cmds \<and> store w' (cAddr c) (cDB c) = fold cmd_effect run (store w (cAddr c) (cDB c))"
    and exec_frame: "exec c cmds w = (r, w') \<Longrightarrow> (a, d) \<noteq> (cAddr c, cDB c) \<Longrightarrow> store w' a d = store w a d"
    and exec_empty: "exec c [] w = (Inr [], w)"
begin

text \<open>The database a connection sees.\<close>

abbreviation dbase :: "'w \<Rightarrow> conn \<Rightarrow> db" where
  "dbase w c \<equiv> store w (cAddr c) (cDB c)"

lemma exec_effect: "exec c cmds w = (Inr rs, w') \<Longrightarrow> dbase w' c = fold cmd_effect cmds (dbase w c)"
  using exec_done by blast

lemma exec_replies: "exec c cmds w = (Inr rs, w') \<Longrightarrow> replies_ok cmds (dbase w c) rs"
  using exec_done by blast

lemma exec_other: "exec c cmds w = (r, w') \<Longrightarrow> (cAddr c', cDB c') \<noteq> (cAddr c, cDB c) \<Longrightarrow> dbase w' c' = dbase w c'"
  using exec_frame by blast

text \<open>Whatever a pipeline reports, a document changes only by a command that writes it.\<close>

lemma exec_docs:
  assumes "exec c cmds w = (r, w')"
  shows "dbDocs (store w' a d) k = dbDocs (store w a d) k
    \<or> (a, d) = (cAddr c, cDB c) \<and> doc_written cmds k (dbDocs (store w' a d) k)"
proof (cases "(a, d) = (cAddr c, cDB c)")
  case True
  have "\<exists>run. set run \<subseteq> set cmds \<and> store w' (cAddr c) (cDB c) = fold cmd_effect run (store w (cAddr c) (cDB c))"
  proof (cases r)
    case (Inl e)
    with assms show ?thesis using exec_failed by blast
  next
    case (Inr rs)
    with assms have "store w' (cAddr c) (cDB c) = fold cmd_effect cmds (store w (cAddr c) (cDB c))"
      using exec_done by blast
    then show ?thesis by blast
  qed
  then obtain run where run: "set run \<subseteq> set cmds"
    "store w' (cAddr c) (cDB c) = fold cmd_effect run (store w (cAddr c) (cDB c))" by blast
  have ad: "a = cAddr c" "d = cDB c" using True by simp_all
  have "dbDocs (store w' a d) k = dbDocs (store w a d) k \<or> doc_written run k (dbDocs (store w' a d) k)"
    unfolding ad run(2) by (rule fold_effect_docs)
  then show ?thesis
  proof
    assume "doc_written run k (dbDocs (store w' a d) k)"
    then have "doc_written cmds k (dbDocs (store w' a d) k)" by (rule doc_written_mono [OF run(1)])
    with True show ?thesis by (intro disjI2 conjI)
  qed (rule disjI1)
next
  case False
  have "store w' a d = store w a d" by (rule exec_frame [OF assms False])
  then show ?thesis by simp
qed

text \<open>The answers to the commands sent alone.\<close>

lemma get_reply: "exec c [GET k] w = (Inr rs, w') \<Longrightarrow>
    rs = [case dbDocs (dbase w c) k of None \<Rightarrow> NilReply | Some d \<Rightarrow> DocReply d] \<and> dbase w' c = dbase w c"
  by (drule exec_done) (auto split: list.splits)

lemma zcard_reply: "exec c [ZCARD k] w = (Inr rs, w') \<Longrightarrow>
    rs = [IntReply (int (card (dom (dbSets (dbase w c) k))))] \<and> dbase w' c = dbase w c"
  by (drule exec_done) (auto split: list.splits)

lemma zrevrange_reply: "exec c [ZREVRANGE k] w = (Inr rs, w') \<Longrightarrow>
    (\<exists>ms. rs = [MembersReply ms] \<and> distinct ms \<and> set ms = dom (dbSets (dbase w c) k)) \<and> dbase w' c = dbase w c"
  by (drule exec_done) (auto split: list.splits)

end

section \<open>An in-memory service\<close>

text \<open>Databases by address and number, and the addresses that cannot be reached.\<close>

record mem_db =
  mdDocs :: "(string, json) gomap"
  mdSets :: "(string, (string, float64) gomap) gomap"

record mem_world =
  mwDBs :: "string \<Rightarrow> int \<Rightarrow> mem_db"
  mwDown :: "string list"

definition md_set :: "mem_db \<Rightarrow> string \<Rightarrow> (string, float64) gomap" where
  "md_set s k = (case gm_get (mdSets s) k of None \<Rightarrow> [] | Some z \<Rightarrow> z)"

fun mem_effect :: "redis_cmd \<Rightarrow> mem_db \<Rightarrow> mem_db" where
  "mem_effect (SET k d) s = s\<lparr>mdDocs := gm_put k d (mdDocs s), mdSets := gm_del k (mdSets s)\<rparr>"
| "mem_effect (DEL k) s = s\<lparr>mdDocs := gm_del k (mdDocs s), mdSets := gm_del k (mdSets s)\<rparr>"
| "mem_effect (ZADD k x m) s = s\<lparr>mdSets := gm_put k (gm_put m x (md_set s k)) (mdSets s)\<rparr>"
| "mem_effect (ZREM k m) s = s\<lparr>mdSets := gm_put k (gm_del m (md_set s k)) (mdSets s)\<rparr>"
| "mem_effect _ s = s"

fun mem_reply :: "redis_cmd \<Rightarrow> mem_db \<Rightarrow> redis_reply" where
  "mem_reply (GET k) s = (case gm_get (mdDocs s) k of None \<Rightarrow> NilReply | Some d \<Rightarrow> DocReply d)"
| "mem_reply (ZCARD k) s = IntReply (int (length (remdups (map fst (md_set s k)))))"
| "mem_reply (ZREVRANGE k) s = MembersReply (remdups (map fst (md_set s k)))"
| "mem_reply (DEL k) s = IntReply (if gm_get (mdDocs s) k = None \<and> md_set s k = [] then 0 else 1)"
| "mem_reply (ZADD k x m) s = IntReply (if gm_get (md_set s k) m = None then 1 else 0)"
| "mem_reply (ZREM k m) s = IntReply (if gm_get (md_set s k) m = None then 0 else 1)"
| "mem_reply _ s = OkReply"

fun mem_run :: "redis_cmd list \<Rightarrow> mem_db \<Rightarrow> redis_reply list \<times> mem_db" where
  "mem_run [] s = ([], s)"
| "mem_run (c # cs) s = (case mem_run cs (mem_effect c s) of (rs, s') \<Rightarrow> (mem_reply c s # rs, s'))"

definition mem_exec :: "mem_world redis" where
  "mem_exec c cmds w =
     (if cmds = [] then (Inr [], w)
      else if cAddr c \<in> set (mwDown w) then (Inl ''dial tcp: connection refused'', w)
      else case mem_run cmds (mwDBs w (cAddr c) (cDB c)) of
        (rs, s') \<Rightarrow> (Inr rs, w\<lparr>mwDBs := (mwDBs w)(cAddr c := (mwDBs w (cAddr c))(cDB c := s'))\<rparr>))"

definition mem_empty :: "string list \<Rightarrow> mem_world" where
  "mem_empty down = \<lparr>mwDBs = (\<lambda>_ _. \<lparr>mdDocs = [], mdSets = []\<rparr>), mwDown = down\<rparr>"

text \<open>The database an in-memory one stands for.\<close>

definition mem_abs :: "mem_db \<Rightarrow> db" where
  "mem_abs s = \<lparr>dbDocs = gm_get (mdDocs s), dbSets = (\<lambda>k. gm_get (md_set s k))\<rparr>"

definition mem_store :: "mem_world \<Rightarrow> string \<Rightarrow> int \<Rightarrow> db" where
  "mem_store w a d = mem_abs (mwDBs w a d)"

lemma mem_effect_abs: "mem_abs (mem_effect c s) = cmd_effect c (mem_abs s)"
  by (cases c) (auto simp: mem_abs_def md_set_def gomap_simps fun_eq_iff split: option.splits)

lemma mem_reply_ok: "reply_ok c (mem_abs s) (mem_reply c s)"
proof (cases c)
  case (ZCARD k)
  have "card (set (map fst (md_set s k))) = length (remdups (map fst (md_set s k)))"
    by (simp only: length_remdups_card_conv)
  with ZCARD show ?thesis by (simp add: mem_abs_def dom_map_of_conv_image_fst)
qed (auto simp: mem_abs_def dom_map_of_conv_image_fst int_reply_def)

lemma mem_run_ok: "mem_run cs s = (rs, s') \<Longrightarrow>
  mem_abs s' = fold cmd_effect cs (mem_abs s) \<and> replies_ok cs (mem_abs s) rs"
proof (induction cs arbitrary: s rs s')
  case (Cons c cs)
  then show ?case
    by (fastforce simp: mem_reply_ok mem_effect_abs split: prod.splits)
qed simp

interpretation mem: redis_service mem_exec mem_store
proof
  fix c cmds w rs w'
  assume "mem_exec c cmds w = (Inr rs, w')"
  then show "mem_store w' (cAddr c) (cDB c) = fold cmd_effect cmds (mem_store w (cAddr c) (cDB c))
    \<and> replies_ok cmds (mem_store w (cAddr c) (cDB c)) rs"
    by (auto simp: mem_exec_def mem_store_def split: if_splits prod.splits dest: mem_run_ok)
next
  fix c cmds w e w'
  assume "mem_exec c cmds w = (Inl e, w')"
  then have "w' = w" by (auto simp: mem_exec_def split: if_splits prod.splits)
  then show "\<exists>run. set run \<subseteq> set cmds \<and>
      mem_store w' (cAddr c) (cDB c) = fold cmd_effect run (mem_store w (cAddr c) (cDB c))"
    by (intro exI [of _ "[]"]) simp
next
  fix c cmds w r w' a d
  assume "mem_exec c cmds w = (r, w')" "(a, d) \<noteq> (cAddr c, cDB c)"
  then show "mem_store w' a d = mem_store w a d"
    by (auto simp: mem_exec_def mem_store_def split: if_splits prod.splits)
qed (simp add: mem_exec_def)

end
