(* ===== verification/Ranking.thy ===== *)
theory Ranking
  imports Vectors
begin

text \<open>
  \<open>internal/storage/helpers.go\<close>: the in-place selection and sort of search results. Slices
  of pointers are lists, an exchange of two pointers is \<open>swap\<close>; the index variables, which
  never leave the slice, are natural numbers. What both routines need of the comparison is
  the locale \<open>score_order\<close>; \<open>float32\<close> comparison provides it on scores that are not NaN.
\<close>

section \<open>The code\<close>

text \<open>\<open>partitionResults\<close>: the loop over \<open>j\<close>, then the pivot moved to its place.\<close>

function partition_loop :: "search_result list \<Rightarrow> float32 \<Rightarrow> nat \<Rightarrow> nat \<Rightarrow> nat \<Rightarrow> search_result list \<times> nat" where
  "partition_loop results pivot i j right =
     (if j < right
      then if f32_lt pivot (rScore (results ! j))
           then partition_loop (swap results i j) pivot (Suc i) (Suc j) right
           else partition_loop results pivot i (Suc j) right
      else (results, i))"
  by pat_completeness auto
termination
  by (relation "measure (\<lambda>(_, _, _, j, right). right - j)") auto

declare partition_loop.simps [simp del]

definition partitionResults :: "search_result list \<Rightarrow> nat \<Rightarrow> nat \<Rightarrow> search_result list \<times> nat" where
  "partitionResults results left right =
     (case partition_loop results (rScore (results ! right)) left left right of
        (results', i) \<Rightarrow> (swap results' i right, i))"

lemma partition_loop_index: "i \<le> j \<Longrightarrow> j \<le> right \<Longrightarrow>
  i \<le> snd (partition_loop results pivot i j right) \<and> snd (partition_loop results pivot i j right) \<le> right"
proof (induction results pivot i j right rule: partition_loop.induct)
  case (1 results pivot i j right)
  then show ?case
    by (subst (1 2) partition_loop.simps) (use 1 in \<open>auto dest: Suc_leD\<close>)
qed

lemma partitionResults_index: "left \<le> right \<Longrightarrow>
  left \<le> snd (partitionResults results left right) \<and> snd (partitionResults results left right) \<le> right"
  using partition_loop_index [of left left right results "rScore (results ! right)"]
  by (auto simp: partitionResults_def split: prod.split)

text \<open>\<open>QuickSelectResults\<close>: narrow \<open>left\<close> and \<open>right\<close> around \<open>k\<close>.\<close>

function quickselect_loop :: "search_result list \<Rightarrow> nat \<Rightarrow> nat \<Rightarrow> nat \<Rightarrow> search_result list" where
  "quickselect_loop results k left right =
     (if left < right
      then let p = partitionResults results left right
           in if snd p = k then fst p
              else if snd p < k then quickselect_loop (fst p) k (Suc (snd p)) right
              else quickselect_loop (fst p) k left (snd p - 1)
      else results)"
  by pat_completeness auto
termination
proof (relation "measure (\<lambda>(_, _, left, right). right - left)", goal_cases)
  case (2 results k left right p)
  then show ?case using partitionResults_index [of left right results] by auto
next
  case (3 results k left right p)
  then show ?case using partitionResults_index [of left right results] by auto
qed simp

declare quickselect_loop.simps [simp del]

definition QuickSelectResults :: "search_result list \<Rightarrow> nat \<Rightarrow> search_result list" where
  "QuickSelectResults results k =
     (if length results \<le> k then results else quickselect_loop results k 0 (length results - 1))"

text \<open>\<open>SortResultsByScore\<close>: the inner and the outer loop.\<close>

function sort_inner :: "search_result list \<Rightarrow> nat \<Rightarrow> nat \<Rightarrow> search_result list" where
  "sort_inner results i j =
     (if j < length results
      then sort_inner (if f32_lt (rScore (results ! i)) (rScore (results ! j)) then swap results i j else results)
             i (Suc j)
      else results)"
  by pat_completeness auto
termination
  by (relation "measure (\<lambda>(results, _, j). length results - j)") auto

declare sort_inner.simps [simp del]

lemma length_sort_inner [simp]: "length (sort_inner results i j) = length results"
proof (induction results i j rule: sort_inner.induct)
  case (1 results i j)
  then show ?case by (subst sort_inner.simps) auto
qed

function sort_outer :: "search_result list \<Rightarrow> nat \<Rightarrow> search_result list" where
  "sort_outer results i =
     (if Suc i < length results then sort_outer (sort_inner results i (Suc i)) (Suc i) else results)"
  by pat_completeness auto
termination
  by (relation "measure (\<lambda>(results, i). length results - i)") auto

declare sort_outer.simps [simp del]

definition SortResultsByScore :: "search_result list \<Rightarrow> search_result list" where
  "SortResultsByScore results = sort_outer results 0"

section \<open>Interface: a comparison of scores\<close>

text \<open>
  \<open>is_topk lt sc k X R\<close>: \<open>R\<close> holds \<open>k\<close> of the elements of \<open>X\<close> (all, if there are fewer),
  and none left out has a greater score than one taken.
\<close>

definition is_topk :: "('s \<Rightarrow> 's \<Rightarrow> bool) \<Rightarrow> ('a \<Rightarrow> 's) \<Rightarrow> nat \<Rightarrow> 'a multiset \<Rightarrow> 'a multiset \<Rightarrow> bool" where
  "is_topk lt sc k X R \<longleftrightarrow> R \<subseteq># X \<and> size R = min k (size X)
     \<and> (\<forall>x \<in># R. \<forall>y \<in># X - R. \<not> lt (sc x) (sc y))"

definition descending :: "('s \<Rightarrow> 's \<Rightarrow> bool) \<Rightarrow> ('a \<Rightarrow> 's) \<Rightarrow> 'a list \<Rightarrow> bool" where
  "descending lt sc xs \<longleftrightarrow> sorted_wrt (\<lambda>x y. \<not> lt (sc x) (sc y)) xs"

locale score_order =
  fixes lt :: "'s \<Rightarrow> 's \<Rightarrow> bool" and valid :: "'s \<Rightarrow> bool"
  assumes irrefl: "\<not> lt a a"
    and trans: "lt a b \<Longrightarrow> lt b c \<Longrightarrow> lt a c"
    and weak: "lt a c \<Longrightarrow> valid b \<Longrightarrow> lt a b \<or> lt b c"
begin

lemma asym: "lt a b \<Longrightarrow> \<not> lt b a"
  using irrefl trans by blast

lemma not_less_trans: "\<not> lt a b \<Longrightarrow> \<not> lt b c \<Longrightarrow> valid b \<Longrightarrow> \<not> lt a c"
  using weak by blast

lemma above_pivot: "lt p a \<Longrightarrow> \<not> lt p b \<Longrightarrow> \<not> lt a b"
  using trans by blast

lemma topk_all: "size X \<le> k \<Longrightarrow> is_topk lt sc k X X"
  by (simp add: is_topk_def)

lemma topk_parts: "list_all2 (is_topk lt sc k) Xs Rs \<Longrightarrow> sum_list Rs \<subseteq># sum_list Xs"
  by (induction rule: list_all2_induct) (auto simp: is_topk_def subset_mset.add_mono)

lemma topk_parts_size: "list_all2 (is_topk lt sc k) Xs Rs \<Longrightarrow>
  size (sum_list Rs) = size (sum_list Xs) \<or> k \<le> size (sum_list Rs)"
  by (induction rule: list_all2_induct) (auto simp: is_topk_def)

text \<open>What one part left out is beaten by \<open>k\<close> elements that part kept.\<close>

lemma topk_left_out:
  assumes "list_all2 (is_topk lt sc k) Xs Rs" and "y \<in># sum_list Xs - sum_list Rs"
  shows "\<exists>T. T \<subseteq># sum_list Rs \<and> size T = k \<and> (\<forall>x \<in># T. \<not> lt (sc x) (sc y))"
  using assms
proof (induction rule: list_all2_induct)
  case (Cons X Xs T Ts)
  have TX: "T \<subseteq># X" and TsXs: "sum_list Ts \<subseteq># sum_list Xs"
    using Cons(1) topk_parts [OF Cons(2)] by (auto simp: is_topk_def)
  have "count (X + sum_list Xs) y > count (T + sum_list Ts) y"
    using Cons.prems by (simp add: in_diff_count)
  then consider "y \<in># X - T" | "y \<in># sum_list Xs - sum_list Ts"
    by (fastforce simp: in_diff_count)
  then show ?case
  proof cases
    case 1
    then have "X \<noteq> T" by auto
    then have "size T < size X" using TX by (simp add: mset_subset_size subset_mset.less_le)
    then have "size T = k" using Cons(1) by (auto simp: is_topk_def)
    with 1 Cons(1) show ?thesis by (intro exI [of _ T]) (auto simp: is_topk_def)
  next
    case 2
    from Cons.IH [OF 2] obtain T' where T': "T' \<subseteq># sum_list Ts" "size T' = k" "\<forall>x \<in># T'. \<not> lt (sc x) (sc y)"
      by blast
    have "T' \<subseteq># sum_list (T # Ts)" using T'(1) by (simp add: subset_mset.add_increasing)
    with T' show ?thesis by blast
  qed
qed simp

text \<open>The best of the bests is the best of all: merging per-part selections loses nothing.\<close>

lemma topk_merge:
  assumes part: "list_all2 (is_topk lt sc k) Xs Rs"
    and top: "is_topk lt sc k (sum_list Rs) R"
    and valid: "\<forall>x \<in># sum_list Rs. valid (sc x)"
  shows "is_topk lt sc k (sum_list Xs) R"
proof -
  note sub = topk_parts [OF part] and size_or = topk_parts_size [OF part]
  have RX: "R \<subseteq># sum_list Xs" using top sub by (auto simp: is_topk_def)
  moreover have "size R = min k (size (sum_list Xs))"
    using top size_or size_mset_mono [OF sub] by (auto simp: is_topk_def)
  moreover have "\<not> lt (sc x) (sc y)" if x: "x \<in># R" and y: "y \<in># sum_list Xs - R" for x y
  proof (cases "y \<in># sum_list Rs - R")
    case True
    with x top show ?thesis by (auto simp: is_topk_def)
  next
    case False
    have "count (sum_list Rs - R) y = 0" using False by (simp add: not_in_iff)
    then have "y \<in># sum_list Xs - sum_list Rs"
      using y by (simp add: in_diff_count)
    then obtain T where T: "T \<subseteq># sum_list Rs" "size T = k" "\<forall>x \<in># T. \<not> lt (sc x) (sc y)"
      using topk_left_out [OF part] by blast
    show ?thesis
    proof (cases "T \<subseteq># R")
      case True
      moreover have "size R \<le> k" using top by (simp add: is_topk_def)
      ultimately have "T = R" using T(2)
        by (metis antisym size_mset_mono subset_mset.le_imp_less_or_eq mset_subset_size not_less)
      with T(3) x show ?thesis by blast
    next
      case False
      then obtain z where z: "count R z < count T z" by (auto simp: subseteq_mset_def not_le)
      then have zT: "z \<in># T" by (metis count_inI not_less_zero)
      have "z \<in># sum_list Rs - R"
        using z mset_subset_eq_count [OF T(1), of z] by (simp add: in_diff_count)
      then have "\<not> lt (sc x) (sc z)" using x top by (auto simp: is_topk_def)
      moreover have "\<not> lt (sc z) (sc y)" using T(3) zT by blast
      moreover have "valid (sc z)" using valid zT T(1) by (meson mset_subset_eqD)
      ultimately show ?thesis by (rule not_less_trans)
    qed
  qed
  ultimately show ?thesis by (simp add: is_topk_def)
qed

end

interpretation f32: score_order f32_lt "\<lambda>s. \<not> f32_is_nan s"
  by unfold_locales (rule f32_lt_irrefl, erule (1) f32_lt_trans, erule (1) f32_lt_weak)

section \<open>Selection\<close>

abbreviation (input) beats :: "search_result \<Rightarrow> search_result \<Rightarrow> bool" where
  "beats x y \<equiv> f32_lt (rScore y) (rScore x)"

text \<open>No element at or after position \<open>n\<close> beats one before it.\<close>

definition split_at :: "search_result list \<Rightarrow> nat \<Rightarrow> bool" where
  "split_at xs n \<longleftrightarrow> (\<forall>x \<in> set (take n xs). \<forall>y \<in> set (drop n xs). \<not> beats y x)"

lemma split_at_nth: "split_at xs n \<longleftrightarrow> (\<forall>a b. a < n \<longrightarrow> n \<le> b \<longrightarrow> b < length xs \<longrightarrow> \<not> beats (xs ! b) (xs ! a))"
proof
  assume s: "split_at xs n"
  show "\<forall>a b. a < n \<longrightarrow> n \<le> b \<longrightarrow> b < length xs \<longrightarrow> \<not> beats (xs ! b) (xs ! a)"
  proof (intro allI impI)
    fix a b assume ab: "a < n" "n \<le> b" "b < length xs"
    then have "xs ! a \<in> set (take n xs)" by (auto simp: in_set_conv_nth intro!: exI [of _ a])
    moreover have "xs ! b \<in> set (drop n xs)" using ab by (auto simp: in_set_conv_nth intro!: exI [of _ "b - n"])
    ultimately show "\<not> beats (xs ! b) (xs ! a)" using s by (auto simp: split_at_def)
  qed
next
  assume *: "\<forall>a b. a < n \<longrightarrow> n \<le> b \<longrightarrow> b < length xs \<longrightarrow> \<not> beats (xs ! b) (xs ! a)"
  show "split_at xs n"
    unfolding split_at_def
  proof (intro ballI)
    fix x y assume "x \<in> set (take n xs)" "y \<in> set (drop n xs)"
    then obtain a b where "a < n" "a < length xs" "x = xs ! a" "b < length xs - n" "y = xs ! (n + b)"
      by (auto simp: in_set_conv_nth)
    then show "\<not> beats y x" using *[rule_format, of a "n + b"] by auto
  qed
qed

text \<open>
  \<open>same_outside xs ys l r\<close>: \<open>ys\<close> permutes the elements of \<open>xs\<close> at positions \<open>l\<close> to \<open>r\<close>
  and keeps every other position.
\<close>

definition same_outside :: "'a list \<Rightarrow> 'a list \<Rightarrow> nat \<Rightarrow> nat \<Rightarrow> bool" where
  "same_outside xs ys l r \<longleftrightarrow> mset ys = mset xs \<and> (\<forall>t < length xs. t < l \<or> r < t \<longrightarrow> ys ! t = xs ! t)"

lemma same_outside_length: "same_outside xs ys l r \<Longrightarrow> length ys = length xs"
  unfolding same_outside_def by (metis size_mset)

lemma same_outside_take: "same_outside xs ys l r \<Longrightarrow> n \<le> l \<Longrightarrow> take n ys = take n xs"
  using same_outside_length [of xs ys l r]
  by (intro nth_equalityI) (auto simp: same_outside_def)

lemma same_outside_drop: "same_outside xs ys l r \<Longrightarrow> r < n \<Longrightarrow> drop n ys = drop n xs"
  using same_outside_length [of xs ys l r]
  by (intro nth_equalityI) (auto simp: same_outside_def)

lemma mset_take_drop: "mset xs = mset (take n xs) + mset (drop n xs)"
  by (metis append_take_drop_id mset_append)

lemma same_outside_split:
  assumes "same_outside xs ys l r" and "n \<le> l \<or> r < n" and "split_at xs n"
  shows "split_at ys n"
proof -
  have m: "mset ys = mset xs" using assms(1) by (simp add: same_outside_def)
  have "mset (take n ys) = mset (take n xs) \<and> mset (drop n ys) = mset (drop n xs)"
    using assms(2) same_outside_take [OF assms(1), of n] same_outside_drop [OF assms(1), of n] m
      mset_take_drop [of xs n] mset_take_drop [of ys n] by auto
  then have "set (take n ys) = set (take n xs)" "set (drop n ys) = set (drop n xs)"
    by (metis set_mset_mset)+
  with assms(3) show ?thesis by (simp add: split_at_def)
qed

lemma partition_loop_spec:
  assumes "i \<le> j" "j \<le> right" "right < length xs" "\<forall>t \<in> {i..<j}. \<not> f32_lt pivot (rScore (xs ! t))"
    and "partition_loop xs pivot i j right = (ys, m)"
  shows "mset ys = mset xs \<and> (\<forall>t < length xs. t < i \<or> right \<le> t \<longrightarrow> ys ! t = xs ! t)
    \<and> (\<forall>t \<in> {i..<m}. f32_lt pivot (rScore (ys ! t))) \<and> (\<forall>t \<in> {m..<right}. \<not> f32_lt pivot (rScore (ys ! t)))"
  using assms
proof (induction xs pivot i j right rule: partition_loop.induct)
  case (1 xs pivot i j right)
  show ?case
  proof (cases "j < right")
    case False
    then have "ys = xs" "m = i"
      using "1.prems"(5) by (simp_all add: partition_loop.simps [of xs pivot i j right])
    with False 1 show ?thesis by auto
  next
    case jr: True
    show ?thesis
    proof (cases "f32_lt pivot (rScore (xs ! j))")
      case True
      have eq: "partition_loop (swap xs i j) pivot (Suc i) (Suc j) right = (ys, m)"
        using "1.prems"(5) jr True by (simp add: partition_loop.simps [of xs pivot i j right])
      have unsel: "\<forall>t \<in> {Suc i..<Suc j}. \<not> f32_lt pivot (rScore (swap xs i j ! t))"
        using "1.prems" jr by (auto simp: nth_swap)
      have im: "Suc i \<le> m" using partition_loop_index [of "Suc i" "Suc j" right "swap xs i j" pivot] eq "1.prems" jr by simp
      from "1.IH"(1) [OF jr True _ _ _ unsel eq] "1.prems"(1-3) jr
      have IH: "mset ys = mset (swap xs i j)"
        "\<forall>t < length xs. t < Suc i \<or> right \<le> t \<longrightarrow> ys ! t = swap xs i j ! t"
        "\<forall>t \<in> {Suc i..<m}. f32_lt pivot (rScore (ys ! t))" "\<forall>t \<in> {m..<right}. \<not> f32_lt pivot (rScore (ys ! t))"
        by simp_all
      have "ys ! i = xs ! j" using IH(2) "1.prems" jr by (auto simp: nth_swap)
      then have "\<forall>t \<in> {i..<m}. f32_lt pivot (rScore (ys ! t))"
        using IH(3) True by (metis atLeastLessThan_iff le_neq_implies_less Suc_leI)
      moreover have "\<forall>t < length xs. t < i \<or> right \<le> t \<longrightarrow> ys ! t = xs ! t"
        using IH(2) "1.prems" jr by (auto simp: nth_swap)
      ultimately show ?thesis using IH(1,4) "1.prems" jr by simp
    next
      case False
      have eq: "partition_loop xs pivot i (Suc j) right = (ys, m)"
        using "1.prems"(5) jr False by (simp add: partition_loop.simps [of xs pivot i j right])
      have "\<forall>t \<in> {i..<Suc j}. \<not> f32_lt pivot (rScore (xs ! t))"
        using "1.prems"(4) False by (auto simp: less_Suc_eq)
      from "1.IH"(2) [OF jr False _ _ _ this eq] "1.prems"(1-3) jr show ?thesis by simp
    qed
  qed
qed

lemma partitionResults_spec:
  assumes "left \<le> right" "right < length xs" and p: "partitionResults xs left right = (ys, m)"
  shows "same_outside xs ys left right" "left \<le> m" "m \<le> right"
    "\<forall>t \<in> {left..<m}. beats (ys ! t) (ys ! m)" "\<forall>t \<in> {m<..right}. \<not> beats (ys ! t) (ys ! m)"
proof -
  obtain zs where zs: "partition_loop xs (rScore (xs ! right)) left left right = (zs, m)" "ys = swap zs m right"
    using p by (auto simp: partitionResults_def split: prod.splits)
  from partition_loop_spec [OF _ assms(1,2) _ zs(1)] have spec: "mset zs = mset xs"
    "\<forall>t < length xs. t < left \<or> right \<le> t \<longrightarrow> zs ! t = xs ! t"
    "\<forall>t \<in> {left..<m}. f32_lt (rScore (xs ! right)) (rScore (zs ! t))"
    "\<forall>t \<in> {m..<right}. \<not> f32_lt (rScore (xs ! right)) (rScore (zs ! t))" by simp_all
  have len: "length zs = length xs" using spec(1) by (metis size_mset)
  show m: "left \<le> m" "m \<le> right"
    using partitionResults_index [OF assms(1), of xs] p by simp_all
  have piv: "ys ! m = xs ! right" using zs(2) spec(2) m assms len by (simp add: nth_swap)
  show "same_outside xs ys left right"
    using spec(1,2) zs(2) m assms len by (auto simp: same_outside_def nth_swap)
  show "\<forall>t \<in> {left..<m}. beats (ys ! t) (ys ! m)"
    using spec(3) zs(2) m assms len piv by (auto simp: nth_swap)
  show "\<forall>t \<in> {m<..right}. \<not> beats (ys ! t) (ys ! m)"
    unfolding piv
  proof
    fix t assume t: "t \<in> {m<..right}"
    show "\<not> beats (ys ! t) (xs ! right)"
    proof (cases "t = right")
      case True
      then have "ys ! t = zs ! m" using zs(2) t m assms len by (simp add: nth_swap)
      then show ?thesis using spec(4) t True by simp
    next
      case False
      then have "ys ! t = zs ! t" using zs(2) t m assms len by (simp add: nth_swap)
      then show ?thesis using spec(4) t False by simp
    qed
  qed
qed

lemma partition_splits:
  assumes "left \<le> right" "right < length xs" and p: "partitionResults xs left right = (ys, m)"
    and inv: "split_at xs left" "split_at xs (Suc right)"
  shows "split_at ys left" "split_at ys (Suc right)" "split_at ys m" "split_at ys (Suc m)"
proof -
  note spec = partitionResults_spec [OF assms(1-3)]
  have len: "length ys = length xs" by (rule same_outside_length [OF spec(1)])
  show l: "split_at ys left" and r: "split_at ys (Suc right)"
    using same_outside_split [OF spec(1)] inv by auto
  note l' = l [unfolded split_at_nth, rule_format] and r' = r [unfolded split_at_nth, rule_format]
  have mid: "\<not> beats (ys ! b) (ys ! a)" if "left \<le> a" "a \<le> m" "m \<le> b" "b \<le> right" "a < b" for a b
  proof (cases "a = m")
    case True
    with that spec(5) show ?thesis by auto
  next
    case False
    then have a: "beats (ys ! a) (ys ! m)" using that spec(4) by auto
    show ?thesis
    proof (cases "b = m")
      case True
      with a show ?thesis using f32.asym by blast
    next
      case False
      then have "\<not> beats (ys ! b) (ys ! m)" using that spec(5) by auto
      with a show ?thesis by (rule f32.above_pivot)
    qed
  qed
  show "split_at ys m" "split_at ys (Suc m)"
    unfolding split_at_nth using mid l' r' spec(2,3)
    by (metis (no_types, opaque_lifting) Suc_leI le_trans less_imp_le_nat not_less_eq_eq less_Suc_eq_le order_less_le_trans)+
qed


lemma quickselect_loop_spec:
  assumes "left \<le> k" "k \<le> right" "right < length xs" "split_at xs left" "split_at xs (Suc right)"
  shows "mset (quickselect_loop xs k left right) = mset xs \<and> split_at (quickselect_loop xs k left right) k"
  using assms
proof (induction xs k left right rule: quickselect_loop.induct)
  case (1 xs k left right)
  show ?case
  proof (cases "left < right")
    case False
    then have "quickselect_loop xs k left right = xs" by (simp add: quickselect_loop.simps [of xs k left right])
    moreover have "left = k" using False "1.prems"(1,2) by simp
    ultimately show ?thesis using "1.prems"(4) by simp
  next
    case lr: True
    obtain ys m where p: "partitionResults xs left right = (ys, m)" by fastforce
    have le: "left \<le> right" using lr by simp
    note spec = partitionResults_spec [OF le "1.prems"(3) p]
      and splits = partition_splits [OF le "1.prems"(3) p "1.prems"(4,5)]
    have len: "length ys = length xs" by (rule same_outside_length [OF spec(1)])
    have ms: "mset ys = mset xs" using spec(1) by (simp add: same_outside_def)
    note unf = quickselect_loop.simps [of xs k left right]
    consider "m = k" | "m < k" | "k < m" by linarith
    then show ?thesis
    proof cases
      case 1
      with splits ms lr p unf show ?thesis by simp
    next
      case 2
      with "1.IH"(1) [OF lr refl] "1.prems" p len splits have
        "mset (quickselect_loop ys k (Suc m) right) = mset ys \<and> split_at (quickselect_loop ys k (Suc m) right) k"
        by simp
      with 2 ms lr p unf show ?thesis by simp
    next
      case 3
      with "1.IH"(2) [OF lr refl] "1.prems" p len splits spec have
        "mset (quickselect_loop ys k left (m - 1)) = mset ys \<and> split_at (quickselect_loop ys k left (m - 1)) k"
        by simp
      with 3 ms lr p unf show ?thesis by simp
    qed
  qed
qed

text \<open>Selection permutes, and leaves \<open>k\<close> best elements in front.\<close>

lemma mset_QuickSelectResults [simp]: "mset (QuickSelectResults xs k) = mset xs"
proof (cases "length xs \<le> k")
  case False
  then show ?thesis
    using quickselect_loop_spec [of 0 k "length xs - 1" xs] by (simp add: QuickSelectResults_def split_at_def)
qed (simp add: QuickSelectResults_def)

lemma QuickSelectResults_split: "k < length xs \<Longrightarrow> split_at (QuickSelectResults xs k) k"
  using quickselect_loop_spec [of 0 k "length xs - 1" xs]
  by (simp add: QuickSelectResults_def split_at_def)

lemma QuickSelectResults_topk:
  "is_topk f32_lt rScore k (mset xs) (mset (take k (QuickSelectResults xs k)))"
proof (cases "k < length xs")
  case True
  let ?ys = "QuickSelectResults xs k"
  have len: "length ?ys = length xs" by (metis mset_QuickSelectResults size_mset)
  have rest: "mset xs - mset (take k ?ys) = mset (drop k ?ys)"
    using mset_take_drop [of ?ys k] by simp
  show ?thesis
    unfolding is_topk_def rest
    using QuickSelectResults_split [OF True] True len mset_take_drop [of ?ys k]
    by (auto simp: split_at_def)
next
  case False
  then show ?thesis by (simp add: QuickSelectResults_def f32.topk_all)
qed

section \<open>Sorting\<close>

lemma mset_sort_inner: "i < length xs \<Longrightarrow> mset (sort_inner xs i j) = mset xs"
proof (induction xs i j rule: sort_inner.induct)
  case (1 xs i j)
  then show ?case by (subst sort_inner.simps) auto
qed

lemma sort_inner_spec:
  assumes "i < j" "j \<le> length xs" "\<forall>t \<in> {i<..<j}. \<not> beats (xs ! t) (xs ! i)"
  shows "(\<forall>t < i. sort_inner xs i j ! t = xs ! t)
    \<and> (\<forall>t \<in> {i<..<length xs}. \<not> beats (sort_inner xs i j ! t) (sort_inner xs i j ! i))"
  using assms
proof (induction xs i j rule: sort_inner.induct)
  case (1 xs i j)
  show ?case
  proof (cases "j < length xs")
    case False
    then have "sort_inner xs i j = xs" by (simp add: sort_inner.simps [of xs i j])
    with False "1.prems"(2,3) show ?thesis by simp
  next
    case True
    let ?xs = "if f32_lt (rScore (xs ! i)) (rScore (xs ! j)) then swap xs i j else xs"
    have len: "length ?xs = length xs" by simp
    have "\<forall>t \<in> {i<..<Suc j}. \<not> beats (?xs ! t) (?xs ! i)"
    proof (cases "beats (xs ! j) (xs ! i)")
      case b: True
      then show ?thesis
        using "1.prems" True f32.above_pivot [OF b] f32.asym [OF b]
        by (auto simp: nth_swap less_Suc_eq)
    next
      case False
      with "1.prems" show ?thesis by (auto simp: less_Suc_eq)
    qed
    with "1.IH" [OF True] "1.prems" True len
    have "(\<forall>t < i. sort_inner ?xs i (Suc j) ! t = ?xs ! t)
      \<and> (\<forall>t \<in> {i<..<length xs}. \<not> beats (sort_inner ?xs i (Suc j) ! t) (sort_inner ?xs i (Suc j) ! i))"
      by simp
    moreover have "sort_inner xs i j = sort_inner ?xs i (Suc j)"
      using True by (simp add: sort_inner.simps [of xs i j])
    moreover have "\<forall>t < i. ?xs ! t = xs ! t" using "1.prems" True by (simp add: nth_swap)
    ultimately show ?thesis by simp
  qed
qed

text \<open>After \<open>i\<close> passes each of the first \<open>i\<close> positions holds a score nothing behind it beats.\<close>

lemma sort_outer_spec:
  assumes "\<forall>t < i. split_at xs (Suc t) "
  shows "mset (sort_outer xs i) = mset xs \<and> (\<forall>t. Suc t < length xs \<longrightarrow> split_at (sort_outer xs i) (Suc t))"
  using assms
proof (induction xs i rule: sort_outer.induct)
  case (1 xs i)
  show ?case
  proof (cases "Suc i < length xs")
    case False
    with 1 show ?thesis by (simp add: sort_outer.simps [of xs i])
  next
    case True
    let ?ys = "sort_inner xs i (Suc i)"
    have m: "mset ?ys = mset xs" using True by (simp add: mset_sort_inner)
    have "\<forall>t \<in> {i<..<Suc i}. \<not> beats (xs ! t) (xs ! i)" by auto
    with sort_inner_spec [of i "Suc i" xs] True
    have keep: "\<forall>t < i. ?ys ! t = xs ! t" and top: "\<forall>t \<in> {i<..<length xs}. \<not> beats (?ys ! t) (?ys ! i)"
      by auto
    have out: "same_outside xs ?ys i (length xs)" using m keep by (simp add: same_outside_def)
    have old: "split_at ?ys (Suc t)" if "t < i" for t
      using that "1.prems" same_outside_split [OF out, of "Suc t"] by simp
    have "split_at ?ys (Suc i)"
      unfolding split_at_nth
    proof (intro allI impI)
      fix a b assume ab: "a < Suc i" "Suc i \<le> b" "b < length ?ys"
      show "\<not> beats (?ys ! b) (?ys ! a)"
      proof (cases "a = i")
        case True
        with top ab show ?thesis by simp
      next
        case False
        with ab old [of a] show ?thesis by (simp add: split_at_nth)
      qed
    qed
    with old have "\<forall>t < Suc i. split_at ?ys (Suc t)" by (simp add: less_Suc_eq)
    with "1.IH" [OF True] m True show ?thesis by (simp add: sort_outer.simps [of xs i])
  qed
qed

lemma mset_SortResultsByScore [simp]: "mset (SortResultsByScore xs) = mset xs"
  using sort_outer_spec [of 0 xs] by (simp add: SortResultsByScore_def)

lemma SortResultsByScore_descending: "descending f32_lt rScore (SortResultsByScore xs)"
  unfolding descending_def sorted_wrt_iff_nth_less
proof (intro allI impI)
  fix a b assume ab: "a < b" "b < length (SortResultsByScore xs)"
  have "length (SortResultsByScore xs) = length xs" by (metis mset_SortResultsByScore size_mset)
  then have "split_at (SortResultsByScore xs) (Suc a)"
    using sort_outer_spec [of 0 xs] ab by (simp add: SortResultsByScore_def)
  then show "\<not> f32_lt (rScore (SortResultsByScore xs ! a)) (rScore (SortResultsByScore xs ! b))"
    using ab by (simp add: split_at_nth)
qed

text \<open>
  The pair of calls made by every search: select when there are more than \<open>k\<close>, cut, sort.
\<close>

definition best_results :: "search_result list \<Rightarrow> nat \<Rightarrow> search_result list" where
  "best_results results k =
     SortResultsByScore (if k < length results then take k (QuickSelectResults results k) else results)"

lemma best_results_topk: "is_topk f32_lt rScore k (mset xs) (mset (best_results xs k))"
  using QuickSelectResults_topk [of k xs] by (auto simp: best_results_def f32.topk_all)

lemma best_results_descending: "descending f32_lt rScore (best_results xs k)"
  by (simp add: best_results_def SortResultsByScore_descending)

lemma length_best_results: "length (best_results xs k) = min k (length xs)"
  using best_results_topk [of k xs] by (simp add: is_topk_def)

lemma set_best_results: "set (best_results xs k) \<subseteq> set xs"
  using best_results_topk [of k xs] unfolding is_topk_def by (metis set_mset_mono set_mset_mset)

section \<open>Ranking against a reference\<close>

text \<open>
  The selection and the exchange sort, against sorting everything and taking a prefix. The rank
  of a result is its score's place in the order of \<open>float32\<close> values.
\<close>

definition rank :: "search_result \<Rightarrow> int" where
  "rank r = fp_key f32fmt (f32_int (rScore r))"

lemma rank_less: "\<not> f32_is_nan (rScore x) \<Longrightarrow> \<not> f32_is_nan (rScore y) \<Longrightarrow>
  f32_lt (rScore x) (rScore y) \<longleftrightarrow> rank x < rank y"
  by (simp add: f32_lt_def fp_lt_def f32_is_nan_def rank_def)

lemma sorted_rev_append:
  fixes xs ys :: "int list"
  assumes "sorted_wrt (\<ge>) xs" "\<forall>x \<in> set xs. \<forall>y \<in> set ys. y \<le> x"
  shows "rev (sort (xs @ ys)) = xs @ rev (sort ys)"
proof -
  have "sorted (rev xs)" using assms(1) by (simp add: sorted_wrt_rev)
  then have "sorted (sort ys @ rev xs)" using assms(2) by (auto simp: sorted_append)
  then have "sort (xs @ ys) = sort ys @ rev xs"
    by (intro properties_for_sort) simp_all
  then show ?thesis by simp
qed

lemma ranks_of_topk:
  assumes top: "is_topk f32_lt rScore k (mset xs) (mset rs)" and desc: "descending f32_lt rScore rs"
    and nan: "\<forall>x \<in> set xs. \<not> f32_is_nan (rScore x)"
  shows "map rank rs = take k (rev (sort (map rank xs)))"
proof -
  obtain zs where zs: "mset zs = mset xs - mset rs" using ex_mset by blast
  have sub: "mset rs \<subseteq># mset xs" and size: "length rs = min k (length xs)"
    and best: "\<And>x y. x \<in> set rs \<Longrightarrow> y \<in> set zs \<Longrightarrow> \<not> f32_lt (rScore x) (rScore y)"
    using top zs set_mset_mset [of zs] by (auto simp: is_topk_def simp flip: size_mset)
  have all: "mset (rs @ zs) = mset xs" using sub zs by simp
  then have mem: "set rs \<union> set zs = set xs" by (metis set_append set_mset_mset)
  have "sorted_wrt (\<ge>) (map rank rs)"
    unfolding sorted_wrt_map
    by (rule sorted_wrt_mono_rel [OF _ desc [unfolded descending_def]])
      (use nan mem rank_less in \<open>metis Un_iff not_le\<close>)
  moreover have "rank y \<le> rank x" if "x \<in> set rs" "y \<in> set zs" for x y
    using best [OF that] rank_less [of x y] nan mem that by (metis UnCI not_less)
  then have "\<forall>x \<in> set (map rank rs). \<forall>y \<in> set (map rank zs). y \<le> x" by simp
  ultimately have "rev (sort (map rank rs @ map rank zs)) = map rank rs @ rev (sort (map rank zs))"
    by (rule sorted_rev_append)
  moreover have "sort (map rank rs @ map rank zs) = sort (map rank xs)"
  proof (rule properties_for_sort)
    show "mset (sort (map rank xs)) = mset (map rank rs @ map rank zs)"
      using arg_cong [OF all, of "image_mset rank"] by simp
  qed simp
  ultimately have eq: "rev (sort (map rank xs)) = map rank rs @ rev (sort (map rank zs))" by simp
  have "length zs = length xs - length rs" using all by (metis add_diff_cancel_left' length_append size_mset)
  then show ?thesis using size by (cases "k \<le> length xs") (simp_all add: eq)
qed

end
