(* ===== verification/Redis_Adapter.thy ===== *)
theory Redis_Adapter
  imports Redis Ranking
begin

text \<open>
  \<open>internal/storage/redis_adapter.go\<close>: keys, pipelines and the connection pool. An adapter
  made by \<open>NewRedisAdapter\<close> holds a client and no shard manager; its operations are the
  definitions over a connection. The other kind, an adapter over a shard manager, follows at
  the end with the dispatch between the two. An \<open>error\<close> result is an optional message.
\<close>

section \<open>Keys\<close>

definition vector_key :: "string \<Rightarrow> string \<Rightarrow> string" where
  "vector_key indexName vid = ''vector:'' @ indexName @ '':'' @ vid"

definition metadata_key :: "string \<Rightarrow> string \<Rightarrow> string" where
  "metadata_key indexName vid = ''metadata:'' @ indexName @ '':'' @ vid"

definition ids_key :: "string \<Rightarrow> string" where
  "ids_key indexName = ''index:'' @ indexName @ '':ids''"

definition meta_key :: "string \<Rightarrow> string" where
  "meta_key indexName = ''index:'' @ indexName @ '':meta''"

definition shard_key :: "string \<Rightarrow> string \<Rightarrow> string" where
  "shard_key indexName vid = indexName @ '':'' @ vid"

section \<open>Connections\<close>

type_synonym pool = "(string, conn) gomap"

text \<open>
  \<open>GetClient\<close>: \<open>pool\<close> is the pool as seen under the read lock, \<open>pool'\<close> as found again under
  the write lock (another goroutine may have connected in between).
\<close>

definition GetClient :: "'w redis \<Rightarrow> pool \<Rightarrow> pool \<Rightarrow> string \<Rightarrow> string \<Rightarrow> int \<Rightarrow> 'w \<Rightarrow> conn res \<times> pool \<times> 'w" where
  "GetClient exec pool pool' addr password dbnum w =
     (case gm_get pool addr of
        Some client \<Rightarrow> (Inr client, pool, w)
      | None \<Rightarrow>
        (case gm_get pool' addr of
           Some client \<Rightarrow> (Inr client, pool', w)
         | None \<Rightarrow>
           let client = \<lparr>cAddr = addr, cPassword = password, cDB = dbnum\<rparr>
           in case exec client [PING] w of
                (Inl e, w') \<Rightarrow> (Inl (''failed to connect to Redis at '' @ addr @ '': '' @ e), pool', w')
              | (Inr _, w') \<Rightarrow> (Inr client, gm_put addr client pool', w')))"

definition NewRedisAdapter :: "'w redis \<Rightarrow> string \<Rightarrow> string \<Rightarrow> int \<Rightarrow> 'w \<Rightarrow> conn res \<times> 'w" where
  "NewRedisAdapter exec addr password dbnum w =
     (case GetClient exec [] [] addr password dbnum w of (r, _, w') \<Rightarrow> (r, w'))"

section \<open>Vectors\<close>

text \<open>The error of \<open>pipe.Exec\<close>, its replies dropped.\<close>

definition exec_error :: "redis_reply list res \<times> 'w \<Rightarrow> string option \<times> 'w" where
  "exec_error p = (case p of (Inl e, w) \<Rightarrow> (Some e, w) | (Inr _, w) \<Rightarrow> (None, w))"

text \<open>The commands both store paths queue for a serialised vector.\<close>

definition store_commands :: "string \<Rightarrow> stored_vector \<Rightarrow> json \<Rightarrow> redis_cmd list" where
  "store_commands indexName v data =
     [SET (vector_key indexName (vID v)) data,
      ZADD (ids_key indexName) (f64_of_int (vTimestamp v)) (vID v)]
     @ (if vMetadata v = [] then [] else [SET (metadata_key indexName (vID v)) (json_metadata (vMetadata v))])"

definition StoreVector :: "'w redis \<Rightarrow> conn \<Rightarrow> string \<Rightarrow> stored_vector \<Rightarrow> 'w \<Rightarrow> string option \<times> 'w" where
  "StoreVector exec c indexName v w =
     (case ToBytes v of
        Inl e \<Rightarrow> (Some (''failed to serialize vector: '' @ e), w)
      | Inr data \<Rightarrow> exec_error (exec c (store_commands indexName v data) w))"

text \<open>A vector that cannot be serialised is logged and left out of the pipeline.\<close>

definition batch_commands :: "string \<Rightarrow> stored_vector list \<Rightarrow> redis_cmd list" where
  "batch_commands indexName vs =
     concat (map (\<lambda>v. case ToBytes v of Inl _ \<Rightarrow> [] | Inr data \<Rightarrow> store_commands indexName v data) vs)"

definition BatchStoreVectors :: "'w redis \<Rightarrow> conn \<Rightarrow> string \<Rightarrow> stored_vector list \<Rightarrow> 'w \<Rightarrow> string option \<times> 'w" where
  "BatchStoreVectors exec c indexName vs w = exec_error (exec c (batch_commands indexName vs) w)"

definition GetVector :: "'w redis \<Rightarrow> conn \<Rightarrow> string \<Rightarrow> string \<Rightarrow> 'w \<Rightarrow> stored_vector res \<times> 'w" where
  "GetVector exec c indexName vectorID w =
     (case exec c [GET (vector_key indexName vectorID)] w of
        (Inl e, w') \<Rightarrow> (Inl (''failed to get vector: '' @ e), w')
      | (Inr [DocReply data], w') \<Rightarrow> (VectorFromBytes data, w')
      | (Inr [NilReply], w') \<Rightarrow> (Inl (''vector not found: '' @ vectorID), w')
      | (Inr _, w') \<Rightarrow> (Inl ''failed to get vector: unexpected reply'', w'))"

definition DeleteVector :: "'w redis \<Rightarrow> conn \<Rightarrow> string \<Rightarrow> string \<Rightarrow> 'w \<Rightarrow> string option \<times> 'w" where
  "DeleteVector exec c indexName vectorID w =
     exec_error (exec c [DEL (vector_key indexName vectorID), DEL (metadata_key indexName vectorID),
                         ZREM (ids_key indexName) vectorID] w)"

definition is_error :: "redis_reply \<Rightarrow> bool" where
  "is_error r = (case r of ErrReply _ \<Rightarrow> True | _ \<Rightarrow> False)"

definition BatchDeleteVectors :: "'w redis \<Rightarrow> conn \<Rightarrow> string \<Rightarrow> string list \<Rightarrow> 'w \<Rightarrow> nat res \<times> 'w" where
  "BatchDeleteVectors exec c indexName vectorIDs w =
     (case exec c (map (\<lambda>id. DEL (vector_key indexName id)) vectorIDs) w of
        (Inl e, w') \<Rightarrow> (Inl e, w')
      | (Inr results, w') \<Rightarrow> (Inr (length (filter (\<lambda>r. \<not> is_error r) results)), w'))"

definition GetAllVectorIDs :: "'w redis \<Rightarrow> conn \<Rightarrow> string \<Rightarrow> 'w \<Rightarrow> string list res \<times> 'w" where
  "GetAllVectorIDs exec c indexName w =
     (case exec c [ZREVRANGE (ids_key indexName)] w of
        (Inl e, w') \<Rightarrow> (Inl e, w')
      | (Inr [MembersReply ids], w') \<Rightarrow> (Inr ids, w')
      | (Inr _, w') \<Rightarrow> (Inl ''unexpected reply'', w'))"

definition GetVectorCount :: "'w redis \<Rightarrow> conn \<Rightarrow> string \<Rightarrow> 'w \<Rightarrow> int res \<times> 'w" where
  "GetVectorCount exec c indexName w =
     (case exec c [ZCARD (ids_key indexName)] w of
        (Inl e, w') \<Rightarrow> (Inl e, w')
      | (Inr [IntReply n], w') \<Rightarrow> (Inr n, w')
      | (Inr _, w') \<Rightarrow> (Inl ''unexpected reply'', w'))"

section \<open>Index descriptors\<close>

definition adapter_CreateIndex :: "'w redis \<Rightarrow> conn \<Rightarrow> vector_index \<Rightarrow> 'w \<Rightarrow> string option \<times> 'w" where
  "adapter_CreateIndex exec c index w = exec_error (exec c [SET (meta_key (xName index)) (json_index index)] w)"

definition adapter_DropIndex :: "'w redis \<Rightarrow> conn \<Rightarrow> string \<Rightarrow> 'w \<Rightarrow> string option \<times> 'w" where
  "adapter_DropIndex exec c indexName w = exec_error (exec c [DEL (meta_key indexName), DEL (ids_key indexName)] w)"

definition GetIndex :: "'w redis \<Rightarrow> conn \<Rightarrow> string \<Rightarrow> 'w \<Rightarrow> vector_index res \<times> 'w" where
  "GetIndex exec c indexName w =
     (case exec c [GET (meta_key indexName)] w of
        (Inl e, w') \<Rightarrow> (Inl e, w')
      | (Inr [DocReply data], w') \<Rightarrow> (IndexFromBytes data, w')
      | (Inr [NilReply], w') \<Rightarrow> (Inl (''index not found: '' @ indexName), w')
      | (Inr _, w') \<Rightarrow> (Inl ''unexpected reply'', w'))"

section \<open>Search\<close>

text \<open>An empty filter passes everything; a missing key reads as the empty string.\<close>

definition matches_filter :: "(string, string) gomap \<Rightarrow> stored_vector \<Rightarrow> bool" where
  "matches_filter flt v \<longleftrightarrow>
     (\<forall>(k, x) \<in> set flt. (case gm_get (vMetadata v) k of None \<Rightarrow> [] | Some y \<Rightarrow> y) = x)"

definition scored :: "float32 list \<Rightarrow> stored_vector \<Rightarrow> search_result" where
  "scored queryVector v =
     \<lparr>rID = vID v, rScore = GetDistanceFunc ''cosine'' queryVector (vValues v),
      rDistance = f32_zero, rVector = Some v\<rparr>"

text \<open>The scan: an id whose vector cannot be read is skipped.\<close>

fun search_scan :: "'w redis \<Rightarrow> conn \<Rightarrow> string \<Rightarrow> float32 list \<Rightarrow> (string, string) gomap
    \<Rightarrow> string list \<Rightarrow> 'w \<Rightarrow> search_result list \<times> 'w" where
  "search_scan exec c indexName q flt [] w = ([], w)"
| "search_scan exec c indexName q flt (vid # ids) w =
     (case GetVector exec c indexName vid w of
        (Inl _, w') \<Rightarrow> search_scan exec c indexName q flt ids w'
      | (Inr v, w') \<Rightarrow>
          if matches_filter flt v
          then (case search_scan exec c indexName q flt ids w' of (rs, w'') \<Rightarrow> (scored q v # rs, w''))
          else search_scan exec c indexName q flt ids w')"

text \<open>The callers pass a positive \<open>topK\<close>.\<close>

definition SearchVectors :: "'w redis \<Rightarrow> conn \<Rightarrow> string \<Rightarrow> float32 list \<Rightarrow> nat \<Rightarrow> (string, string) gomap
    \<Rightarrow> 'w \<Rightarrow> search_result list res \<times> 'w" where
  "SearchVectors exec c indexName queryVector topK flt w =
     (case GetAllVectorIDs exec c indexName w of
        (Inl e, w') \<Rightarrow> (Inl e, w')
      | (Inr ids, w') \<Rightarrow>
          (case search_scan exec c indexName queryVector flt ids w' of
             (results, w'') \<Rightarrow> (Inr (best_results results topK), w'')))"

section \<open>Adapters over a shard manager\<close>

text \<open>
  \<open>ShardManagerInterface\<close> is the pair of functions it names; what it hands out is again an
  adapter.
\<close>

datatype redis_adapter =
    Direct conn
  | Sharded "string \<Rightarrow> int res" "int \<Rightarrow> redis_adapter res"

definition NewShardedRedisAdapter :: "(string \<Rightarrow> int res) \<Rightarrow> (int \<Rightarrow> redis_adapter res) \<Rightarrow> redis_adapter" where
  "NewShardedRedisAdapter shardForKey adapters = Sharded shardForKey adapters"

text \<open>The sharded operations, over what the operation is on the adapters handed out.\<close>

definition storeVectorSharded :: "(string \<Rightarrow> int res)
    \<Rightarrow> (int \<Rightarrow> ('w redis \<Rightarrow> string \<Rightarrow> stored_vector \<Rightarrow> 'w \<Rightarrow> string option \<times> 'w) res)
    \<Rightarrow> 'w redis \<Rightarrow> string \<Rightarrow> stored_vector \<Rightarrow> 'w \<Rightarrow> string option \<times> 'w" where [simp]:
  "storeVectorSharded shardForKey adapters exec indexName v w =
     (case shardForKey (shard_key indexName (vID v)) of
        Inl e \<Rightarrow> (Some e, w)
      | Inr shardID \<Rightarrow>
          (case adapters shardID of
             Inl e \<Rightarrow> (Some e, w)
           | Inr store \<Rightarrow> store exec indexName v w))"

primrec any_StoreVector :: "redis_adapter \<Rightarrow> 'w redis \<Rightarrow> string \<Rightarrow> stored_vector \<Rightarrow> 'w \<Rightarrow> string option \<times> 'w" where
  "any_StoreVector (Direct c) = (\<lambda>exec indexName v w. StoreVector exec c indexName v w)"
| "any_StoreVector (Sharded shardForKey adapters) =
     storeVectorSharded shardForKey (\<lambda>shardID. map_sum id any_StoreVector (adapters shardID))"

definition getVectorSharded :: "(string \<Rightarrow> int res)
    \<Rightarrow> (int \<Rightarrow> ('w redis \<Rightarrow> string \<Rightarrow> string \<Rightarrow> 'w \<Rightarrow> stored_vector res \<times> 'w) res)
    \<Rightarrow> 'w redis \<Rightarrow> string \<Rightarrow> string \<Rightarrow> 'w \<Rightarrow> stored_vector res \<times> 'w" where [simp]:
  "getVectorSharded shardForKey adapters exec indexName vectorID w =
     (case shardForKey (shard_key indexName vectorID) of
        Inl e \<Rightarrow> (Inl e, w)
      | Inr shardID \<Rightarrow>
          (case adapters shardID of
             Inl e \<Rightarrow> (Inl e, w)
           | Inr get \<Rightarrow> get exec indexName vectorID w))"

primrec any_GetVector :: "redis_adapter \<Rightarrow> 'w redis \<Rightarrow> string \<Rightarrow> string \<Rightarrow> 'w \<Rightarrow> stored_vector res \<times> 'w" where
  "any_GetVector (Direct c) = (\<lambda>exec indexName vectorID w. GetVector exec c indexName vectorID w)"
| "any_GetVector (Sharded shardForKey adapters) =
     getVectorSharded shardForKey (\<lambda>shardID. map_sum id any_GetVector (adapters shardID))"

text \<open>Vectors by shard, in the order they came; those whose shard is not found are left out.\<close>

definition group_of :: "('k, 'a list) gomap \<Rightarrow> 'k \<Rightarrow> 'a list" where
  "group_of groups k = (case gm_get groups k of None \<Rightarrow> [] | Some xs \<Rightarrow> xs)"

definition append_group :: "'k \<Rightarrow> 'a \<Rightarrow> ('k, 'a list) gomap \<Rightarrow> ('k, 'a list) gomap" where
  "append_group k x groups = gm_put k (group_of groups k @ [x]) groups"

lemma group_of_append [simp]:
  "group_of (append_group k x groups) k' = (if k' = k then group_of groups k @ [x] else group_of groups k')"
  by (simp add: group_of_def append_group_def gomap_simps)

lemma append_group_ok [simp]: "gm_ok groups \<Longrightarrow> gm_ok (append_group k x groups)"
  by (simp add: append_group_def)

definition shardToVectors :: "(string \<Rightarrow> int res) \<Rightarrow> string \<Rightarrow> stored_vector list \<Rightarrow> (int, stored_vector list) gomap" where
  "shardToVectors shardForKey indexName vs =
     fold (\<lambda>v groups. case shardForKey (shard_key indexName (vID v)) of
        Inl _ \<Rightarrow> groups | Inr shardID \<Rightarrow> append_group shardID v groups) vs []"

definition batchStoreVectorsSharded :: "(string \<Rightarrow> int res)
    \<Rightarrow> (int \<Rightarrow> ('w redis \<Rightarrow> ((int \<times> stored_vector list) list \<Rightarrow> (int \<times> stored_vector list) list)
         \<Rightarrow> string \<Rightarrow> stored_vector list \<Rightarrow> 'w \<Rightarrow> string option \<times> 'w) res)
    \<Rightarrow> 'w redis \<Rightarrow> ((int \<times> stored_vector list) list \<Rightarrow> (int \<times> stored_vector list) list)
    \<Rightarrow> string \<Rightarrow> stored_vector list \<Rightarrow> 'w \<Rightarrow> string option \<times> 'w" where [simp]:
  "batchStoreVectorsSharded shardForKey adapters exec order indexName vs w =
     (None, fold (\<lambda>(shardID, svs) w.
          case adapters shardID of
            Inl _ \<Rightarrow> w
          | Inr batch \<Rightarrow> snd (batch exec order indexName svs w))
        (order (shardToVectors shardForKey indexName vs)) w)"

primrec any_BatchStoreVectors :: "redis_adapter \<Rightarrow> 'w redis
    \<Rightarrow> ((int \<times> stored_vector list) list \<Rightarrow> (int \<times> stored_vector list) list)
    \<Rightarrow> string \<Rightarrow> stored_vector list \<Rightarrow> 'w \<Rightarrow> string option \<times> 'w" where
  "any_BatchStoreVectors (Direct c) = (\<lambda>exec order indexName vs w. BatchStoreVectors exec c indexName vs w)"
| "any_BatchStoreVectors (Sharded shardForKey adapters) =
     batchStoreVectorsSharded shardForKey (\<lambda>shardID. map_sum id any_BatchStoreVectors (adapters shardID))"

text \<open>
  \<open>searchVectorsSharded\<close> calls \<open>SearchVectors\<close> on the same adapter again: \<open>None\<close> is a call
  that does not return.
\<close>

partial_function (option) any_SearchVectors :: "redis_adapter \<Rightarrow> 'w redis \<Rightarrow> string \<Rightarrow> float32 list \<Rightarrow> nat
    \<Rightarrow> (string, string) gomap \<Rightarrow> 'w \<Rightarrow> (search_result list res \<times> 'w) option" where
  "any_SearchVectors a exec indexName queryVector topK flt w =
     (case a of
        Direct c \<Rightarrow> Some (SearchVectors exec c indexName queryVector topK flt w)
      | Sharded _ _ \<Rightarrow> any_SearchVectors a exec indexName queryVector topK flt w)"

text \<open>
  The operations that use \<open>r.client\<close> without asking for a shard manager dereference nil on
  an adapter that has none.
\<close>

definition with_client :: "redis_adapter \<Rightarrow> (conn \<Rightarrow> 'a) \<Rightarrow> 'a outcome" where
  "with_client a f = (case a of Direct c \<Rightarrow> Returns (f c) | Sharded _ _ \<Rightarrow> Crashes ''nil redis client'')"

text \<open>\<open>Close\<close>: the connections it closes.\<close>

definition adapter_Close :: "redis_adapter \<Rightarrow> conn list" where
  "adapter_Close a = (case a of Direct c \<Rightarrow> [c] | Sharded _ _ \<Rightarrow> [])"

section \<open>Keys of different kinds differ\<close>

lemma keys_differ [simp]:
  "vector_key i a \<noteq> metadata_key j b" "metadata_key j b \<noteq> vector_key i a"
  "vector_key i a \<noteq> ids_key j" "ids_key j \<noteq> vector_key i a"
  "vector_key i a \<noteq> meta_key j" "meta_key j \<noteq> vector_key i a"
  "metadata_key i a \<noteq> ids_key j" "ids_key j \<noteq> metadata_key i a"
  "metadata_key i a \<noteq> meta_key j" "meta_key j \<noteq> metadata_key i a"
  by (simp_all add: vector_key_def metadata_key_def ids_key_def meta_key_def)

lemma ids_key_neq_meta_key [simp]: "ids_key i \<noteq> meta_key j" "meta_key j \<noteq> ids_key i"
proof -
  have "rev (ids_key i) \<noteq> rev (meta_key j)" by (simp add: ids_key_def meta_key_def)
  then show "ids_key i \<noteq> meta_key j" by auto
  then show "meta_key j \<noteq> ids_key i" by auto
qed

lemma ids_key_inj [simp]: "ids_key i = ids_key j \<longleftrightarrow> i = j"
  by (simp add: ids_key_def)

lemma meta_key_inj [simp]: "meta_key i = meta_key j \<longleftrightarrow> i = j"
  by (simp add: meta_key_def)

text \<open>
  Within one index the keys of different vectors differ; across indexes they need not, since
  nothing keeps a colon out of a name.
\<close>

lemma vector_key_inj [simp]: "vector_key i a = vector_key i b \<longleftrightarrow> a = b"
  by (simp add: vector_key_def)

lemma metadata_key_inj [simp]: "metadata_key i a = metadata_key i b \<longleftrightarrow> a = b"
  by (simp add: metadata_key_def)

lemma split_at_colon:
  "CHR '':'' \<notin> set i \<Longrightarrow> CHR '':'' \<notin> set j \<Longrightarrow> i @ CHR '':'' # a = j @ CHR '':'' # b \<longleftrightarrow> i = j \<and> a = b"
proof (induction i arbitrary: j)
  case Nil
  then show ?case by (cases j) auto
next
  case (Cons x i)
  then show ?case by (cases j) auto
qed

lemma vector_key_inj_plain:
  "CHR '':'' \<notin> set i \<Longrightarrow> CHR '':'' \<notin> set j \<Longrightarrow> vector_key i a = vector_key j b \<longleftrightarrow> i = j \<and> a = b"
  by (simp add: vector_key_def split_at_colon)

section \<open>Interface: a vector store\<close>

text \<open>
  What a store of vectors promises: \<open>put\<close> leaves the vector's document where \<open>get\<close> reads it
  and disturbs only a document under the same key; \<open>del\<close> removes it. \<open>doc\<close> is the document
  a store keeps for an index and an id.
\<close>

locale vector_store =
  fixes put :: "string \<Rightarrow> stored_vector \<Rightarrow> 'w \<Rightarrow> string option \<times> 'w"
    and get :: "string \<Rightarrow> string \<Rightarrow> 'w \<Rightarrow> stored_vector res \<times> 'w"
    and del :: "string \<Rightarrow> string \<Rightarrow> 'w \<Rightarrow> string option \<times> 'w"
    and doc :: "'w \<Rightarrow> string \<Rightarrow> string \<Rightarrow> json option"
  assumes put_doc: "put i v w = (None, w') \<Longrightarrow>
      \<exists>d. ToBytes v = Inr d \<and> doc w' i (vID v) = Some d"
    and put_frame: "put i v w = (None, w') \<Longrightarrow> vector_key j a \<noteq> vector_key i (vID v) \<Longrightarrow>
      doc w' j a = doc w j a"
    and get_doc: "get i a w = (Inr v, w') \<Longrightarrow> \<exists>d. doc w i a = Some d \<and> VectorFromBytes d = Inr v"
    and get_frame: "get i a w = (Inr v, w') \<Longrightarrow> doc w' = doc w"
    and del_doc: "del i a w = (None, w') \<Longrightarrow> doc w' i a = None"
    and del_frame: "del i a w = (None, w') \<Longrightarrow> vector_key j b \<noteq> vector_key i a \<Longrightarrow>
      doc w' j b = doc w j b"
begin

text \<open>A read that succeeds after a write that succeeded returns what was written.\<close>

lemma put_get:
  assumes "put i v w = (None, w1)" "vector_ok v" "get i (vID v) w1 = (Inr v', w2)"
  shows "v' = v\<lparr>vMetadata := sort_key fst (vMetadata v)\<rparr>"
  using put_doc [OF assms(1)] get_doc [OF assms(3)] VectorFromBytes_ToBytes [OF assms(2)] by auto

text \<open>After a delete there is nothing to read.\<close>

lemma del_get: "del i a w = (None, w1) \<Longrightarrow> get i a w1 = (r, w2) \<Longrightarrow> \<exists>e. r = Inl e"
  using del_doc get_doc by (metis option.distinct(1) sum.exhaust)

text \<open>Writing elsewhere, in the same index or in another, keeps a vector readable.\<close>

lemma put_keeps:
  assumes "put i v w = (None, w1)" "vector_key j a \<noteq> vector_key i (vID v)"
    "get j a w1 = (Inr x, w2)" "get j a w = (Inr y, w3)"
  shows "x = y"
  using put_frame [OF assms(1,2)] get_doc [OF assms(3)] get_doc [OF assms(4)] by auto

end

section \<open>The adapter provides it\<close>

lemma exec_error_None: "exec_error p = (None, w') \<longleftrightarrow> (\<exists>rs. p = (Inr rs, w'))"
  by (auto simp: exec_error_def split: prod.splits sum.splits)

lemma exec_error_Some: "exec_error p = (Some e, w') \<longleftrightarrow> p = (Inl e, w')"
  by (auto simp: exec_error_def split: prod.splits sum.splits)

lemma GetVector_Inr: "GetVector exec c i a w = (Inr v, w') \<longleftrightarrow>
  (\<exists>d. exec c [GET (vector_key i a)] w = (Inr [DocReply d], w') \<and> VectorFromBytes d = Inr v)"
  by (auto simp: GetVector_def split: prod.splits sum.splits list.splits redis_reply.splits)

lemma StoreVector_None: "StoreVector exec c i v w = (None, w') \<longleftrightarrow>
  (\<exists>d rs. ToBytes v = Inr d \<and> exec c (store_commands i v d) w = (Inr rs, w'))"
  by (auto simp: StoreVector_def exec_error_None split: sum.splits)

lemma store_commands_docs:
  "dbDocs (fold cmd_effect (store_commands i v d) s) =
     (let m = (dbDocs s)(vector_key i (vID v) := Some d)
      in if vMetadata v = [] then m else m(metadata_key i (vID v) := Some (json_metadata (vMetadata v))))"
  by (simp add: store_commands_def Let_def)

lemma store_commands_ids:
  "dbSets (fold cmd_effect (store_commands i v d) s) (ids_key j) =
     (if j = i then (dbSets s (ids_key i))(vID v := Some (f64_of_int (vTimestamp v))) else dbSets s (ids_key j))"
  by (simp add: store_commands_def)

sublocale redis_service \<subseteq> adapter: vector_store "StoreVector exec c" "GetVector exec c" "DeleteVector exec c"
  "\<lambda>w i a. dbDocs (dbase w c) (vector_key i a)" for c
proof
  fix i v w w'
  assume "StoreVector exec c i v w = (None, w')"
  then show "\<exists>d. ToBytes v = Inr d \<and> dbDocs (dbase w' c) (vector_key i (vID v)) = Some d"
    by (auto simp: StoreVector_None store_commands_docs Let_def dest!: exec_effect)
next
  fix i v w w' j a
  assume "StoreVector exec c i v w = (None, w')" "vector_key j a \<noteq> vector_key i (vID v)"
  then show "dbDocs (dbase w' c) (vector_key j a) = dbDocs (dbase w c) (vector_key j a)"
    by (auto simp: StoreVector_None store_commands_docs Let_def dest!: exec_effect)
next
  fix i a w v w'
  assume "GetVector exec c i a w = (Inr v, w')"
  then show "\<exists>d. dbDocs (dbase w c) (vector_key i a) = Some d \<and> VectorFromBytes d = Inr v"
    and "(\<lambda>i a. dbDocs (dbase w' c) (vector_key i a)) = (\<lambda>i a. dbDocs (dbase w c) (vector_key i a))"
    by (auto simp: GetVector_Inr dest!: get_reply split: option.splits)
next
  fix i a w w'
  assume "DeleteVector exec c i a w = (None, w')"
  then show "dbDocs (dbase w' c) (vector_key i a) = None"
    by (auto simp: DeleteVector_def exec_error_None dest!: exec_effect)
next
  fix i a w w' j b
  assume "DeleteVector exec c i a w = (None, w')" "vector_key j b \<noteq> vector_key i a"
  then show "dbDocs (dbase w' c) (vector_key j b) = dbDocs (dbase w c) (vector_key j b)"
    by (auto simp: DeleteVector_def exec_error_None dest!: exec_effect)
qed

interpretation mem_adapter: vector_store "StoreVector mem_exec c" "GetVector mem_exec c" "DeleteVector mem_exec c"
  "\<lambda>w i a. dbDocs (mem.dbase w c) (vector_key i a)" for c
  by (rule mem.adapter.vector_store_axioms)


section \<open>A reachable service\<close>

text \<open>\<open>up w c\<close>: pipelines on \<open>c\<close> are answered in world \<open>w\<close> and in every world after it.\<close>

locale redis_up = redis_service +
  fixes up :: "'a \<Rightarrow> conn \<Rightarrow> bool"
  assumes up_exec: "up w c \<Longrightarrow> \<exists>rs w'. exec c cmds w = (Inr rs, w')"
    and up_keep: "exec c cmds w = (r, w') \<Longrightarrow> up w c' \<Longrightarrow> up w' c'"

definition mem_up :: "mem_world \<Rightarrow> conn \<Rightarrow> bool" where
  "mem_up w c \<longleftrightarrow> cAddr c \<notin> set (mwDown w)"

interpretation mem: redis_up mem_exec mem_store mem_up
  by unfold_locales (auto simp: mem_up_def mem_exec_def split: prod.splits if_splits)

text \<open>The documents of an index that a scan turns into results.\<close>

definition candidate :: "db \<Rightarrow> string \<Rightarrow> float32 list \<Rightarrow> (string, string) gomap \<Rightarrow> string \<Rightarrow> search_result option" where
  "candidate s i q flt vid =
     (case dbDocs s (vector_key i vid) of
        None \<Rightarrow> None
      | Some d \<Rightarrow> (case VectorFromBytes d of
            Inl _ \<Rightarrow> None
          | Inr v \<Rightarrow> if matches_filter flt v then Some (scored q v) else None))"

definition candidates :: "db \<Rightarrow> string \<Rightarrow> float32 list \<Rightarrow> (string, string) gomap \<Rightarrow> string list \<Rightarrow> search_result list" where
  "candidates s i q flt ids = List.map_filter (candidate s i q flt) ids"

text \<open>All of them: one for each member of the index's id set that has one.\<close>

definition all_candidates :: "db \<Rightarrow> string \<Rightarrow> float32 list \<Rightarrow> (string, string) gomap \<Rightarrow> search_result multiset" where
  "all_candidates s i q flt =
     image_mset (the \<circ> candidate s i q flt)
       (filter_mset (\<lambda>vid. candidate s i q flt vid \<noteq> None) (mset_set (dom (dbSets s (ids_key i)))))"

lemma mset_candidates:
  assumes "distinct ids" "set ids = dom (dbSets s (ids_key i))"
  shows "mset (candidates s i q flt ids) = all_candidates s i q flt"
proof -
  have "mset ids = mset_set (dom (dbSets s (ids_key i)))"
    using mset_set_set [OF assms(1)] assms(2) by simp
  moreover have "mset (candidates s i q flt ids) =
      image_mset (the \<circ> candidate s i q flt) (filter_mset (\<lambda>vid. candidate s i q flt vid \<noteq> None) (mset ids))"
    by (simp add: candidates_def List.map_filter_def comp_def)
  ultimately show ?thesis by (simp add: all_candidates_def)
qed

context redis_up
begin

lemma search_scan_candidates: "up w c \<Longrightarrow>
  \<exists>w'. search_scan exec c i q flt ids w = (candidates (dbase w c) i q flt ids, w') \<and> dbase w' c = dbase w c
    \<and> (\<forall>c'. up w c' \<longrightarrow> up w' c') \<and> (\<forall>c'. (cAddr c', cDB c') \<noteq> (cAddr c, cDB c) \<longrightarrow> dbase w' c' = dbase w c')"
proof (induction ids arbitrary: w)
  case Nil
  then show ?case by (simp add: candidates_def)
next
  case (Cons vid ids)
  obtain rs w1 where e: "exec c [GET (vector_key i vid)] w = (Inr rs, w1)"
    using up_exec [OF Cons.prems] by blast
  have r: "rs = [case dbDocs (dbase w c) (vector_key i vid) of None \<Rightarrow> NilReply | Some d \<Rightarrow> DocReply d]"
    and same: "dbase w1 c = dbase w c" using get_reply [OF e] by simp_all
  have up1: "\<forall>c'. up w c' \<longrightarrow> up w1 c'" using up_keep [OF e] by blast
  have other: "\<forall>c'. (cAddr c', cDB c') \<noteq> (cAddr c, cDB c) \<longrightarrow> dbase w1 c' = dbase w c'"
    using exec_other [OF e] by blast
  obtain w2 where w2: "search_scan exec c i q flt ids w1 = (candidates (dbase w c) i q flt ids, w2)"
      "dbase w2 c = dbase w c" "\<forall>c'. up w1 c' \<longrightarrow> up w2 c'"
      "\<forall>c'. (cAddr c', cDB c') \<noteq> (cAddr c, cDB c) \<longrightarrow> dbase w2 c' = dbase w1 c'"
    using Cons.IH [of w1] up1 Cons.prems same by auto
  have "search_scan exec c i q flt (vid # ids) w = (candidates (dbase w c) i q flt (vid # ids), w2)"
  proof (cases "dbDocs (dbase w c) (vector_key i vid)")
    case None
    with e r w2 show ?thesis by (simp add: GetVector_def candidates_def candidate_def List.map_filter_simps)
  next
    case (Some d)
    with e r have g: "GetVector exec c i vid w = (VectorFromBytes d, w1)" by (simp add: GetVector_def)
    show ?thesis
      using Some g w2(1)
      by (cases "VectorFromBytes d") (simp_all add: candidates_def candidate_def List.map_filter_simps)
  qed
  with w2 up1 other show ?case by auto
qed

lemma SearchVectors_topk:
  assumes "up w c"
  shows "\<exists>rs w'. SearchVectors exec c i q k flt w = (Inr rs, w') \<and> dbase w' c = dbase w c
    \<and> (\<forall>c'. up w c' \<longrightarrow> up w' c') \<and> (\<forall>c'. (cAddr c', cDB c') \<noteq> (cAddr c, cDB c) \<longrightarrow> dbase w' c' = dbase w c')
    \<and> is_topk f32_lt rScore k (all_candidates (dbase w c) i q flt) (mset rs)
    \<and> descending f32_lt rScore rs"
proof -
  obtain rs w1 where e: "exec c [ZREVRANGE (ids_key i)] w = (Inr rs, w1)"
    using up_exec [OF assms] by blast
  obtain ids where ids: "rs = [MembersReply ids]" "distinct ids" "set ids = dom (dbSets (dbase w c) (ids_key i))"
    and same: "dbase w1 c = dbase w c" using zrevrange_reply [OF e] by blast
  have up1: "\<forall>c'. up w c' \<longrightarrow> up w1 c'" using up_keep [OF e] by blast
  obtain w2 where w2: "search_scan exec c i q flt ids w1 = (candidates (dbase w c) i q flt ids, w2)"
      "dbase w2 c = dbase w c" "\<forall>c'. up w1 c' \<longrightarrow> up w2 c'"
      "\<forall>c'. (cAddr c', cDB c') \<noteq> (cAddr c, cDB c) \<longrightarrow> dbase w2 c' = dbase w1 c'"
    using search_scan_candidates [of w1 c i q flt ids] up1 assms same by auto
  have "SearchVectors exec c i q k flt w = (Inr (best_results (candidates (dbase w c) i q flt ids) k), w2)"
    using e ids(1) w2(1) by (simp add: SearchVectors_def GetAllVectorIDs_def)
  moreover have "is_topk f32_lt rScore k (all_candidates (dbase w c) i q flt)
      (mset (best_results (candidates (dbase w c) i q flt ids) k))"
    using best_results_topk [of k "candidates (dbase w c) i q flt ids"] mset_candidates [OF ids(2,3)] by simp
  ultimately show ?thesis
    using w2 up1 exec_other [OF e] best_results_descending by auto
qed

end

section \<open>The sharded adapter's search does not return\<close>

lemma any_SearchVectors_Direct:
  "any_SearchVectors (Direct c) exec i q k flt w = Some (SearchVectors exec c i q k flt w)"
  by (simp add: any_SearchVectors.simps)

lemma any_SearchVectors_returns:
  assumes "any_SearchVectors a exec i q k flt w = Some r"
  shows "\<exists>c. a = Direct c"
proof (rule any_SearchVectors.raw_induct [where P = "\<lambda>a _ _ _ _ _ _ _. \<exists>c. a = Direct c", OF _ assms])
  fix f :: "redis_adapter \<Rightarrow> 'a redis \<Rightarrow> string \<Rightarrow> float32 list \<Rightarrow> nat \<Rightarrow> (string, string) gomap \<Rightarrow> 'a
      \<Rightarrow> (search_result list res \<times> 'a) option" and a exec i q k flt w r
  assume IH: "\<And>a exec i q k flt w r. f a exec i q k flt w = Some r \<Longrightarrow> \<exists>c. a = Direct c"
    and eq: "(case a of Direct c \<Rightarrow> Some (SearchVectors exec c i q k flt w)
       | Sharded _ _ \<Rightarrow> f a exec i q k flt w) = Some r"
  show "\<exists>c. a = Direct c"
  proof (cases a)
    case (Sharded shardForKey adapters)
    with eq have "f a exec i q k flt w = Some r" by simp
    then show ?thesis by (rule IH)
  qed simp
qed

end
