(* ===== verification/Adapter_Laws.thy ===== *)
theory Adapter_Laws
  imports Redis_Adapter
begin

text \<open>
  What the adapter's operations do to the database of their connection, on any Redis service:
  batches against single writes, deletions and drops, and the members and the size of an
  index's id set. The routing of a batch over a shard manager closes the theory.
\<close>

section \<open>Batches against single writes\<close>

text \<open>The reference for a batch: one \<open>StoreVector\<close> after the other, up to the first error.\<close>

fun store_each :: "'w redis \<Rightarrow> conn \<Rightarrow> string \<Rightarrow> stored_vector list \<Rightarrow> 'w \<Rightarrow> string option \<times> 'w" where
  "store_each exec c i [] w = (None, w)"
| "store_each exec c i (v # vs) w =
     (case StoreVector exec c i v w of
        (Some e, w') \<Rightarrow> (Some e, w')
      | (None, w') \<Rightarrow> store_each exec c i vs w')"

lemma batch_commands_Cons: "ToBytes v = Inr d \<Longrightarrow> batch_commands i (v # vs) = store_commands i v d @ batch_commands i vs"
  by (simp add: batch_commands_def)

lemma batch_commands_skip: "ToBytes v = Inl e \<Longrightarrow> batch_commands i (xs @ v # ys) = batch_commands i (xs @ ys)"
  by (simp add: batch_commands_def)

lemma GetVectorCount_Inr: "GetVectorCount exec c i w = (Inr n, w') \<longleftrightarrow> exec c [ZCARD (ids_key i)] w = (Inr [IntReply n], w')"
  by (auto simp: GetVectorCount_def split: prod.splits sum.splits list.splits redis_reply.splits)

lemma GetIndex_Inr: "GetIndex exec c i w = (Inr x, w') \<longleftrightarrow>
  (\<exists>d. exec c [GET (meta_key i)] w = (Inr [DocReply d], w') \<and> IndexFromBytes d = Inr x)"
  by (auto simp: GetIndex_def split: prod.splits sum.splits list.splits redis_reply.splits)

lemma fold_del_docs: "dbDocs (fold cmd_effect (map (\<lambda>a. DEL (f a)) as) s) k = (if k \<in> f ` set as then None else dbDocs s k)"
  by (induction as arbitrary: s) auto

lemma fold_del_sets: "k \<notin> f ` set as \<Longrightarrow> dbSets (fold cmd_effect (map (\<lambda>a. DEL (f a)) as) s) k = dbSets s k"
  by (induction as arbitrary: s) auto

context redis_service
begin

lemma store_each_effect:
  "store_each exec c i vs w = (None, w') \<Longrightarrow> dbase w' c = fold cmd_effect (batch_commands i vs) (dbase w c)"
proof (induction vs arbitrary: w)
  case Nil
  then show ?case by (simp add: batch_commands_def)
next
  case (Cons v vs)
  then obtain d rs w1 where v: "ToBytes v = Inr d" "exec c (store_commands i v d) w = (Inr rs, w1)"
    and vs: "store_each exec c i vs w1 = (None, w')"
    by (auto simp: StoreVector_None split: prod.splits option.splits)
  show ?case using Cons.IH [OF vs] exec_effect [OF v(2)] by (simp add: batch_commands_Cons [OF v(1)])
qed

lemma batch_effect:
  "BatchStoreVectors exec c i vs w = (None, w') \<Longrightarrow> dbase w' c = fold cmd_effect (batch_commands i vs) (dbase w c)"
  by (auto simp: BatchStoreVectors_def exec_error_None dest: exec_effect)

lemma store_get:
  "StoreVector exec c i v w = (None, w1) \<Longrightarrow> vector_ok v \<Longrightarrow> GetVector exec c i (vID v) w1 = (Inr v', w2) \<Longrightarrow>
   v' = v\<lparr>vMetadata := sort_key fst (vMetadata v)\<rparr>"
  by (rule adapter.put_get)

lemma get_document:
  "GetVector exec c i a w = (Inr v, w') \<Longrightarrow> \<exists>d. dbDocs (dbase w c) (vector_key i a) = Some d \<and> VectorFromBytes d = Inr v"
  by (rule adapter.get_doc)

text \<open>A read of a key that spells the same returns the same vector.\<close>

lemma store_get_key:
  assumes "StoreVector exec c i v w = (None, w1)" "vector_ok v" "vector_key j a = vector_key i (vID v)"
    "GetVector exec c j a w1 = (Inr v', w2)"
  shows "v' = v\<lparr>vMetadata := sort_key fst (vMetadata v)\<rparr>"
  using assms store_get [OF assms(1,2)] by (simp add: GetVector_Inr)

lemma delete_get: "DeleteVector exec c i a w = (None, w1) \<Longrightarrow> GetVector exec c i a w1 = (r, w2) \<Longrightarrow> \<exists>e. r = Inl e"
  by (rule adapter.del_get)

lemma count_card: "GetVectorCount exec c i w = (Inr n, w') \<Longrightarrow> n = int (card (dom (dbSets (dbase w c) (ids_key i))))"
  by (auto simp: GetVectorCount_Inr dest: zcard_reply)

lemma create_get_index:
  assumes "adapter_CreateIndex exec c x w = (None, w1)" "index_encodable x" "GetIndex exec c (xName x) w1 = (Inr y, w2)"
  shows "y = x\<lparr>xOptions := sort_key fst (xOptions x)\<rparr>"
proof -
  have "dbDocs (dbase w1 c) (meta_key (xName x)) = Some (json_index x)"
    using assms(1) by (auto simp: adapter_CreateIndex_def exec_error_None dest!: exec_effect)
  then show ?thesis using assms(3) IndexFromBytes_json [OF assms(2)]
    by (auto simp: GetIndex_Inr dest!: get_reply)
qed

lemma drop_index_leaves:
  assumes "adapter_DropIndex exec c i w = (None, w')"
  shows "dbDocs (dbase w' c) (vector_key j a) = dbDocs (dbase w c) (vector_key j a)"
    "dbDocs (dbase w' c) (metadata_key j a) = dbDocs (dbase w c) (metadata_key j a)"
    "dbSets (dbase w' c) (ids_key i) = Map.empty" "dbDocs (dbase w' c) (meta_key i) = None"
  using assms by (auto simp: adapter_DropIndex_def exec_error_None dest!: exec_effect)

lemma batch_delete_effect:
  assumes "BatchDeleteVectors exec c i ids w = (Inr n, w')"
  shows "n = length ids"
    "dbDocs (dbase w' c) k = (if k \<in> vector_key i ` set ids then None else dbDocs (dbase w c) k)"
    "dbSets (dbase w' c) (ids_key j) = dbSets (dbase w c) (ids_key j)"
proof -
  obtain rs where e: "exec c (map (\<lambda>a. DEL (vector_key i a)) ids) w = (Inr rs, w')"
    and n: "n = length (filter (\<lambda>r. \<not> is_error r) rs)"
    using assms by (auto simp: BatchDeleteVectors_def split: prod.splits sum.splits)
  note ok = exec_replies [OF e]
  have "filter (\<lambda>r. \<not> is_error r) rs = rs"
    using replies_ok_no_error [OF ok] by (auto simp: is_error_def intro!: filter_True split: redis_reply.splits)
  then show "n = length ids" using n replies_ok_length [OF ok] by simp
  show "dbDocs (dbase w' c) k = (if k \<in> vector_key i ` set ids then None else dbDocs (dbase w c) k)"
    by (simp add: exec_effect [OF e] fold_del_docs)
  show "dbSets (dbase w' c) (ids_key j) = dbSets (dbase w c) (ids_key j)"
    unfolding exec_effect [OF e] by (rule fold_del_sets) auto
qed

lemma delete_effect:
  assumes "DeleteVector exec c i a w = (None, w')"
  shows "dbSets (dbase w' c) (ids_key i) = (dbSets (dbase w c) (ids_key i))(a := None)"
  using assms by (auto simp: DeleteVector_def exec_error_None dest!: exec_effect)

text \<open>The members of an index after a batch: the ids stored before and those of the batch.\<close>

lemma batch_members:
  assumes "\<forall>v \<in> set vs. \<exists>d. ToBytes v = Inr d"
  shows "dom (dbSets (fold cmd_effect (batch_commands i vs) s) (ids_key i)) = dom (dbSets s (ids_key i)) \<union> vID ` set vs"
  using assms
proof (induction vs arbitrary: s)
  case Nil
  then show ?case by (simp add: batch_commands_def)
next
  case (Cons v vs)
  then obtain d where d: "ToBytes v = Inr d" by auto
  show ?case using Cons by (simp add: batch_commands_Cons [OF d] store_commands_ids insert_commute Un_insert_left)
qed

end

section \<open>Routing a batch\<close>

lemma shardToVectors_fold: "group_of (fold (\<lambda>v groups. case f (shard_key i (vID v)) of
        Inl _ \<Rightarrow> groups | Inr n \<Rightarrow> append_group n v groups) vs groups) n
   = group_of groups n @ filter (\<lambda>v. f (shard_key i (vID v)) = Inr n) vs"
  by (induction vs arbitrary: groups) (auto split: sum.splits)

lemma shardToVectors_group:
  "group_of (shardToVectors f i vs) n = filter (\<lambda>v. f (shard_key i (vID v)) = Inr n) vs"
  unfolding shardToVectors_def shardToVectors_fold by (simp add: group_of_def)

lemma any_SearchVectors_Sharded: "any_SearchVectors (Sharded f g) exec i q k flt w = None"
  using any_SearchVectors_returns [of "Sharded f g" exec i q k flt w]
  by (metis not_Some_eq redis_adapter.distinct(1))

text \<open>Storing and reading take the same route.\<close>

lemma any_store_get:
  "any_StoreVector a exec i v w = (None, w1) \<Longrightarrow> any_GetVector a exec i (vID v) w1 = (Inr v', w2) \<Longrightarrow>
   redis_service exec store \<Longrightarrow> vector_ok v \<Longrightarrow> v' = v\<lparr>vMetadata := sort_key fst (vMetadata v)\<rparr>"
proof (induction a)
  case (Direct c)
  then show ?case using redis_service.store_get [OF Direct.prems(3)] by simp
next
  case (Sharded shardForKey adapters)
  obtain n where n: "shardForKey (shard_key i (vID v)) = Inr n"
    using Sharded.prems(1) by (cases "shardForKey (shard_key i (vID v))") simp_all
  obtain a where a: "adapters n = Inr a" using Sharded.prems(1) n by (cases "adapters n") simp_all
  then have "a \<in> Basic_BNFs.setr (adapters n)" by simp
  from Sharded.IH [OF rangeI this] show ?case using Sharded.prems n a by simp
qed

end
