(* ===== verification/Exact_Floats.thy ===== *)
theory Exact_Floats
  imports Vectors
begin

text \<open>
  Where the arithmetic of \<open>Softfloat\<close> makes no error. Rounding does not see a power of two moved
  between a significand and an exponent, an integer that fits a significand has a pattern
  (\<open>fp_rep\<close>: up to the sign of zero), and sums, products, square roots, conversions and the quotients
  -1, 0 and 1 of such integers are the integers they ought to be. Hence the distances of
  vectors of whole numbers that are not too long (\<open>short_whole\<close>) are those of the integers.
\<close>

section \<open>Rounding is invariant under scaling\<close>

lemma bit_length_double: "0 < n \<Longrightarrow> bit_length (n * 2) = bit_length n + 1"
  by (subst bit_length.simps) simp

lemma bit_length_shift: "0 < n \<Longrightarrow> bit_length (n * 2 ^ j) = bit_length n + int j"
proof (induction j)
  case (Suc j)
  then show ?case using bit_length_double [of "n * 2 ^ j"] by (simp add: mult.commute mult.left_commute)
qed simp

lemma lead_exp_length: assumes "0 < n" shows "lead_exp n 1 = bit_length n - 1"
proof -
  have "bit_length 1 = 1" by (simp add: bit_length.simps)
  then show ?thesis using bit_length_bounds [OF assms] by (simp add: lead_exp_def Let_def)
qed

lemma lead_exp_double: assumes "0 < n" shows "lead_exp (n * 2) 2 = lead_exp n 1"
proof -
  have "bit_length 2 = 2" by (simp add: bit_length.simps)
  then show ?thesis
    using bit_length_bounds [OF assms] lead_exp_length [OF assms] by (simp add: lead_exp_def Let_def bit_length_double assms)
qed

lemma rne_scale: "0 < c \<Longrightarrow> rne (N * c) (D * c) = rne N D"
  by (simp add: rne_def Let_def flip: mult.assoc)

lemma scaled_shift:
  "(if 0 \<le> t - int j then rne (N * 2 ^ j * 2 ^ nat (t - int j)) 1 else rne (N * 2 ^ j) (1 * 2 ^ nat (- (t - int j))))
   = (if 0 \<le> t then rne (N * 2 ^ nat t) 1 else rne N (1 * 2 ^ nat (- t)))"
proof -
  consider "int j \<le> t" | "0 \<le> t" "t < int j" | "t < 0" by linarith
  then show ?thesis
  proof cases
    case 1
    then have "nat t = j + nat (t - int j)" by simp
    then have "(2::int) ^ nat t = 2 ^ j * 2 ^ nat (t - int j)" by (simp only: power_add)
    with 1 show ?thesis by (simp add: mult.assoc)
  next
    case 2
    then have "j = nat t + nat (- (t - int j))" by simp
    then have "N * 2 ^ j = (N * 2 ^ nat t) * 2 ^ nat (- (t - int j))" by (metis mult.assoc power_add)
    then have "rne (N * 2 ^ j) (2 ^ nat (- (t - int j))) = N * 2 ^ nat t" by (simp only: rne_exact zero_less_power zero_less_numeral)
    with 2 show ?thesis by simp
  next
    case 3
    then have "nat (- (t - int j)) = nat (- t) + j" by simp
    then have "(2::int) ^ nat (- (t - int j)) = 2 ^ nat (- t) * 2 ^ j" by (simp only: power_add)
    with 3 show ?thesis using rne_scale [of "2 ^ j" N "2 ^ nat (- t)"] by simp
  qed
qed

lemma fp_round_at:
  assumes "N \<noteq> 0" "L = max (fp_emin F) (lead_exp N D + k - int (frac_bits F))"
  shows "fp_round F N D k = min ((L - fp_emin F) * 2 ^ frac_bits F
    + (if 0 \<le> k - L then rne (N * 2 ^ nat (k - L)) D else rne N (D * 2 ^ nat (- (k - L))))) (fp_inf F)"
  using assms by (simp add: fp_round_def Let_def)

lemma fp_round_shift: assumes "0 \<le> N" shows "fp_round F (N * 2 ^ j) 1 (k - int j) = fp_round F N 1 k"
proof (cases "N = 0")
  case False
  define L where "L = max (fp_emin F) (lead_exp N 1 + k - int (frac_bits F))"
  have "lead_exp (N * 2 ^ j) 1 = lead_exp N 1 + int j"
    using assms False by (simp add: lead_exp_length bit_length_shift)
  then have "L = max (fp_emin F) (lead_exp (N * 2 ^ j) 1 + (k - int j) - int (frac_bits F))" by (simp add: L_def)
  note at = fp_round_at [OF _ this] fp_round_at [OF False L_def]
  have t: "k - int j - L = (k - L) - int j" and n: "N * 2 ^ j \<noteq> 0" using False by simp_all
  show ?thesis unfolding at(1) [OF n] at(2) t scaled_shift ..
qed (simp add: fp_round_def)

lemma fp_round_double: assumes "0 \<le> N" shows "fp_round F (N * 2) 2 k = fp_round F N 1 k"
proof (cases "N = 0")
  case False
  define L where "L = max (fp_emin F) (lead_exp N 1 + k - int (frac_bits F))"
  have "L = max (fp_emin F) (lead_exp (N * 2) 2 + k - int (frac_bits F))"
    using assms False by (simp add: L_def lead_exp_double)
  note at = fp_round_at [OF _ this] fp_round_at [OF False L_def]
  have "N * 2 * 2 ^ n = (N * 2 ^ n) * 2" for n by simp
  then have e: "rne (N * 2 * 2 ^ n) 2 = N * 2 ^ n" for n by (simp only: rne_exact zero_less_numeral)
  have "2 * 2 ^ n = (2 ^ n * 2 :: int)" for n by simp
  then have "rne (N * 2) (2 * 2 ^ n) = rne N (2 ^ n)" for n by (simp only: rne_scale zero_less_numeral)
  then show ?thesis using False by (simp add: at e)
qed (simp add: fp_round_def)

section \<open>Patterns of whole numbers\<close>

text \<open>The exponents reach far enough on both sides for every integer of one significand.\<close>

definition roomy :: "fpfmt \<Rightarrow> bool" where
  "roomy F \<longleftrightarrow> wf_fmt F \<and> int (frac_bits F) < 2 ^ (exp_bits F - 1) - 1"

lemma roomy_f32 [simp]: "roomy f32fmt" and roomy_f64 [simp]: "roomy f64fmt"
  by (simp_all add: roomy_def) (simp_all add: f32fmt_def f64fmt_def)

definition fp_rep :: "fpfmt \<Rightarrow> int \<Rightarrow> int \<Rightarrow> bool" where
  "fp_rep F b i \<longleftrightarrow> 0 \<le> b \<and> b < 2 * fp_signbit F \<and> fp_finite F b \<and> fp_exp F b \<le> 0
     \<and> fp_man F b = \<bar>i\<bar> * 2 ^ nat (- fp_exp F b) \<and> (i \<noteq> 0 \<longrightarrow> fp_neg F b = (i < 0))"

lemma fp_inf_signbit: "wf_fmt F \<Longrightarrow> fp_inf F < fp_signbit F"
  using fp_qnan_range by fastforce

lemma roomy_emin: assumes "roomy F" shows "fp_emin F \<le> - int (frac_bits F)"
proof -
  have "(2::int) ^ 1 \<le> 2 ^ (exp_bits F - 1)" using assms by (intro power_increasing) (auto simp: roomy_def wf_fmt_def)
  then show ?thesis by (simp add: fp_emin_def)
qed

lemma roomy_inf: assumes "roomy F" shows "(2 - fp_emin F) * 2 ^ frac_bits F \<le> fp_inf F"
proof -
  have "(2::int) ^ exp_bits F = 2 * 2 ^ (exp_bits F - 1)"
    using assms by (subst power_Suc [symmetric]) (simp add: roomy_def wf_fmt_def)
  moreover have "int (frac_bits F) < 2 ^ (exp_bits F - 1) - 1" using assms by (simp add: roomy_def)
  ultimately have "2 - fp_emin F \<le> 2 ^ exp_bits F - 1" unfolding fp_emin_def by linarith
  then show ?thesis unfolding fp_inf_def by (rule mult_right_mono) simp
qed

lemma fp_round_whole:
  assumes F: "roomy F" and N: "0 < N" "N < 2 ^ Suc (frac_bits F)"
  obtains e where "0 \<le> e" "e \<le> int (frac_bits F)" "2 ^ frac_bits F \<le> N * 2 ^ nat e" "N * 2 ^ nat e < 2 ^ Suc (frac_bits F)"
    "fp_round F N 1 0 = (- e - fp_emin F) * 2 ^ frac_bits F + N * 2 ^ nat e" "fp_round F N 1 0 < fp_inf F"
proof -
  define k where "k = nat (bit_length N - 1)"
  have k: "2 ^ k \<le> N" "N < 2 ^ Suc k" "bit_length N = int k + 1"
    using bit_length_bounds [OF N(1)] by (simp_all add: k_def Suc_nat_eq_nat_zadd1)
  have "(2::int) ^ k < 2 ^ Suc (frac_bits F)" using k(1) N(2) by (rule le_less_trans)
  then have kf: "k \<le> frac_bits F" by (subst (asm) power_strict_increasing_iff) simp_all
  define e where "e = int (frac_bits F - k)"
  have e: "0 \<le> e" "e \<le> int (frac_bits F)" "nat e = frac_bits F - k" by (simp_all add: e_def)
  have p: "(2::int) ^ frac_bits F = 2 ^ k * 2 ^ nat e" using kf e(3) by (simp flip: power_add)
  have m: "2 ^ frac_bits F \<le> N * 2 ^ nat e" "N * 2 ^ nat e < 2 ^ Suc (frac_bits F)"
    using k(1,2) by (simp_all add: p)
  have "- e = max (fp_emin F) (lead_exp N 1 + 0 - int (frac_bits F))"
    using roomy_emin [OF F] N(1) k(3) kf e(2) by (simp add: lead_exp_length e_def of_nat_diff)
  from fp_round_at [OF _ this] N(1) e(1)
  have r: "fp_round F N 1 0 = min ((- e - fp_emin F) * 2 ^ frac_bits F + N * 2 ^ nat e) (fp_inf F)" by simp
  have "(- e - fp_emin F) * 2 ^ frac_bits F \<le> (- fp_emin F) * 2 ^ frac_bits F" using e(1) by (intro mult_right_mono) simp_all
  then have "(- e - fp_emin F) * 2 ^ frac_bits F + N * 2 ^ nat e < (2 - fp_emin F) * 2 ^ frac_bits F"
    using m(2) by (simp add: algebra_simps)
  then have "(- e - fp_emin F) * 2 ^ frac_bits F + N * 2 ^ nat e < fp_inf F" using roomy_inf [OF F] by linarith
  with r that [OF e(1,2) m] show thesis by simp
qed

lemma fp_round_rep:
  assumes F: "roomy F" and i: "\<bar>i\<bar> < 2 ^ Suc (frac_bits F)" and s: "i \<noteq> 0 \<longrightarrow> s = (i < 0)"
  shows "fp_rep F (fp_sgn F s (fp_round F \<bar>i\<bar> 1 0)) i"
proof -
  have wf: "wf_fmt F" using F by (simp add: roomy_def)
  let ?M = "fp_round F \<bar>i\<bar> 1 0" and ?b = "fp_sgn F s (fp_round F \<bar>i\<bar> 1 0)"
  have M: "0 \<le> ?M" "?M < fp_signbit F" using fp_round_range [OF wf, of "\<bar>i\<bar>" 1 0] fp_inf_signbit [OF wf] by simp_all
  have b: "fp_mag F ?b = ?M" "fp_neg F ?b = s" "0 \<le> ?b" "?b < 2 * fp_signbit F"
    using fp_mag_sgn [OF M] fp_neg_sgn [OF M] fp_sgn_range [OF M] by simp_all
  show ?thesis
  proof (cases "i = 0")
    case True
    then have "?M = 0" by (simp add: fp_round_def)
    then have "fp_man F ?b = 0" "fp_exp F ?b = fp_emin F" "fp_finite F ?b"
      using b(1) fp_inf_pos [OF wf] by (simp_all add: fp_man_def fp_exp_def fp_finite_def)
    then show ?thesis using True b(3,4) roomy_emin [OF F] by (simp add: fp_rep_def)
  next
    case False
    then have "0 < \<bar>i\<bar>" by simp
    from fp_round_whole [OF F this i] obtain e where e: "0 \<le> e" "e \<le> int (frac_bits F)"
      "2 ^ frac_bits F \<le> \<bar>i\<bar> * 2 ^ nat e" "\<bar>i\<bar> * 2 ^ nat e < 2 ^ Suc (frac_bits F)"
      "?M = (- e - fp_emin F) * 2 ^ frac_bits F + \<bar>i\<bar> * 2 ^ nat e" "?M < fp_inf F" .
    let ?P = "(2::int) ^ frac_bits F"
    define f where "f = \<bar>i\<bar> * 2 ^ nat e - ?P"
    have f: "0 \<le> f" "f < ?P" using e(3,4) by (simp_all add: f_def)
    have M': "?M = f + (- e - fp_emin F + 1) * ?P" using e(5) by (simp add: f_def algebra_simps)
    have d: "?M div ?P = - e - fp_emin F + 1" "?M mod ?P = f" unfolding M' using f by simp_all
    have pos: "- e - fp_emin F + 1 \<noteq> 0" using roomy_emin [OF F] e(2) by simp
    have "fp_man F ?b = \<bar>i\<bar> * 2 ^ nat e" "fp_exp F ?b = - e"
      using pos by (simp_all add: fp_man_def fp_exp_def b(1) d Let_def f_def)
    then show ?thesis using False s b e(1,6) by (simp add: fp_rep_def fp_finite_def)
  qed
qed

section \<open>Operations on whole numbers are exact\<close>

lemma fp_repD:
  assumes "fp_rep F b i"
  shows "0 \<le> b" "b < 2 * fp_signbit F" "\<not> fp_is_nan F b" "\<not> fp_is_inf F b" "fp_exp F b \<le> 0"
    "fp_man F b = \<bar>i\<bar> * 2 ^ nat (- fp_exp F b)" "i \<noteq> 0 \<Longrightarrow> fp_neg F b = (i < 0)"
  using assms by (auto simp: fp_rep_def fp_finite_def fp_is_nan_def fp_is_inf_def)

lemma fp_rep_zero: assumes "wf_fmt F" "fp_rep F b i" shows "fp_is_zero F b \<longleftrightarrow> i = 0"
proof -
  have p: "(e + 1) * 2 ^ frac_bits F + f \<noteq> 0" if "0 \<le> e" "0 \<le> f" for e f :: int
  proof -
    have "0 < (e + 1) * 2 ^ frac_bits F" using that by (intro mult_pos_pos) simp_all
    then show ?thesis using that by linarith
  qed
  have "fp_man F b = 0 \<longleftrightarrow> fp_mag F b = 0"
    by (rule fp_man_exp_cases [OF assms(1), of b]) (use p p [of 0] in auto)
  then show ?thesis using fp_repD(6) [OF assms(2)] by (auto simp: fp_is_zero_def)
qed

lemma fp_rep_sign: "fp_rep F b i \<Longrightarrow> (if fp_neg F b then - \<bar>i\<bar> else \<bar>i\<bar>) = i"
  using fp_repD(7) [of F b i] by (cases "i = 0") auto

lemma fp_of_int_rep: "roomy F \<Longrightarrow> \<bar>i\<bar> < 2 ^ Suc (frac_bits F) \<Longrightarrow> fp_rep F (fp_of_int F i) i"
  unfolding fp_of_int_def by (rule fp_round_rep) simp_all

lemma fp_of_int_zero: "fp_of_int F 0 = 0"
  by (simp add: fp_of_int_def fp_round_def fp_sgn_def)

lemma fp_of_int_plus: "roomy F \<Longrightarrow> \<bar>i\<bar> < 2 ^ Suc (frac_bits F) \<Longrightarrow> i = 0 \<longrightarrow> \<not> fp_neg F (fp_of_int F i)"
  by (auto simp: fp_of_int_zero fp_neg_def not_le)

lemma fp_rep_minus: "fp_rep F b i \<Longrightarrow> fp_rep F (fp_minus F b) (- i)"
proof -
  assume b: "fp_rep F b i"
  have "0 \<le> fp_minus F b \<and> fp_minus F b < 2 * fp_signbit F" unfolding fp_minus_def by (rule fp_sgn_range) simp_all
  then show ?thesis using b by (auto simp: fp_rep_def fp_finite_def)
qed

lemma align:
  assumes "fp_rep F b i" "e \<le> fp_exp F b"
  shows "(if fp_neg F b then - (fp_man F b * 2 ^ nat (fp_exp F b - e)) else fp_man F b * 2 ^ nat (fp_exp F b - e)) = i * 2 ^ nat (- e)"
proof -
  have "nat (- e) = nat (- fp_exp F b) + nat (fp_exp F b - e)" using assms fp_repD(5) [OF assms(1)] by simp
  then have "fp_man F b * 2 ^ nat (fp_exp F b - e) = \<bar>i\<bar> * 2 ^ nat (- e)"
    by (simp add: fp_repD(6) [OF assms(1)] power_add)
  moreover have "(if fp_neg F b then - (\<bar>i\<bar> * 2 ^ nat (- e)) else \<bar>i\<bar> * 2 ^ nat (- e)) = (if fp_neg F b then - \<bar>i\<bar> else \<bar>i\<bar>) * 2 ^ nat (- e)"
    by simp
  ultimately show ?thesis by (simp only: fp_rep_sign [OF assms(1)])
qed

lemma fp_round_whole_shift: "e \<le> 0 \<Longrightarrow> 0 \<le> N \<Longrightarrow> fp_round F (N * 2 ^ nat (- e)) 1 e = fp_round F N 1 0"
  using fp_round_shift [of N F "nat (- e)" 0] by simp

lemma fp_add_rep:
  assumes a: "fp_rep F a i" and b: "fp_rep F b j" and z: "i = 0 \<longrightarrow> \<not> fp_neg F a"
  shows "fp_add F a b = fp_of_int F (i + j)"
proof -
  define e where "e = min (fp_exp F a) (fp_exp F b)"
  have e: "e \<le> fp_exp F a" "e \<le> fp_exp F b" "e \<le> 0" using fp_repD(5) [OF a] by (simp_all add: e_def)
  define s where "s = (if fp_neg F a then - (fp_man F a * 2 ^ nat (fp_exp F a - e)) else fp_man F a * 2 ^ nat (fp_exp F a - e))
    + (if fp_neg F b then - (fp_man F b * 2 ^ nat (fp_exp F b - e)) else fp_man F b * 2 ^ nat (fp_exp F b - e))"
  have "s = (i + j) * 2 ^ nat (- e)"
    unfolding s_def align [OF a e(1)] align [OF b e(2)] by (simp add: distrib_right)
  then have s: "s = 0 \<longleftrightarrow> i + j = 0" "s < 0 \<longleftrightarrow> i + j < 0" "\<bar>s\<bar> = \<bar>i + j\<bar> * 2 ^ nat (- e)"
    by (simp_all add: mult_less_0_iff abs_mult)
  have neg: "i + j = 0 \<Longrightarrow> \<not> (fp_neg F a \<and> fp_neg F b)"
    using z fp_repD(7) [OF a] fp_repD(7) [OF b] by linarith
  have "fp_add F a b = (if s = 0 then fp_sgn F (fp_neg F a \<and> fp_neg F b) 0 else fp_sgn F (s < 0) (fp_round F \<bar>s\<bar> 1 e))"
    by (simp only: fp_add_def Let_def s_def e_def fp_repD(3,4) [OF a] fp_repD(3,4) [OF b] simp_thms if_False)
  also have "\<dots> = fp_of_int F (i + j)"
  proof (cases "i + j = 0")
    case True
    then show ?thesis using neg [OF True] by (simp only: s fp_of_int_zero fp_sgn_def simp_thms if_True if_False)
  next
    case False
    then show ?thesis by (simp only: s fp_round_whole_shift [OF e(3) abs_ge_zero] fp_of_int_def if_False)
  qed
  finally show ?thesis .
qed

lemma fp_sub_rep:
  assumes "fp_rep F a i" "fp_rep F b j" "i = 0 \<longrightarrow> \<not> fp_neg F a"
  shows "fp_sub F a b = fp_of_int F (i - j)"
  using fp_add_rep [OF assms(1) fp_rep_minus [OF assms(2)] assms(3)] by (simp add: fp_sub_def)

lemma fp_mul_rep:
  assumes a: "fp_rep F a i" and b: "fp_rep F b j"
  shows "fp_mul F a b = fp_sgn F (fp_neg F a \<noteq> fp_neg F b) (fp_round F \<bar>i * j\<bar> 1 0)"
proof -
  have "nat (- (fp_exp F a + fp_exp F b)) = nat (- fp_exp F a) + nat (- fp_exp F b)"
    using fp_repD(5) [OF a] fp_repD(5) [OF b] by simp
  then have "fp_man F a * fp_man F b = \<bar>i * j\<bar> * 2 ^ nat (- (fp_exp F a + fp_exp F b))"
    by (simp add: fp_repD(6) [OF a] fp_repD(6) [OF b] power_add abs_mult)
  then have "fp_round F (fp_man F a * fp_man F b) 1 (fp_exp F a + fp_exp F b) = fp_round F \<bar>i * j\<bar> 1 0"
    using fp_repD(5) [OF a] fp_repD(5) [OF b] by (simp only: fp_round_whole_shift abs_ge_zero add_nonpos_nonpos)
  then show ?thesis using fp_repD(3,4) [OF a] fp_repD(3,4) [OF b] by (simp add: fp_mul_def)
qed

lemma fp_mul_whole:
  assumes F: "roomy F" and a: "fp_rep F a i" and b: "fp_rep F b j" and n: "\<bar>i * j\<bar> < 2 ^ Suc (frac_bits F)"
  shows "fp_rep F (fp_mul F a b) (i * j)"
  unfolding fp_mul_rep [OF a b]
  by (rule fp_round_rep [OF F n]) (use fp_repD(7) [OF a] fp_repD(7) [OF b] in \<open>auto simp: mult_less_0_iff\<close>)

lemma fp_conv_rep: assumes "fp_rep F b i" "i = 0 \<longrightarrow> \<not> fp_neg F b" shows "fp_conv F G b = fp_of_int G i"
proof -
  have "fp_neg F b = (i < 0)" using assms(2) fp_repD(7) [OF assms(1)] by (cases "i = 0") simp_all
  then show ?thesis
    using fp_repD(3,4) [OF assms(1)] fp_round_whole_shift [OF fp_repD(5) [OF assms(1)], of "\<bar>i\<bar>" G]
    by (simp add: fp_conv_def fp_of_int_def fp_repD(6) [OF assms(1)])
qed

lemma isqrt_square: "0 \<le> r \<Longrightarrow> isqrt (r * r) = r"
proof -
  assume r: "0 \<le> r"
  from isqrt_floor [of "r * r"] have q: "0 \<le> isqrt (r * r)" "isqrt (r * r) * isqrt (r * r) \<le> r * r"
    "r * r < (isqrt (r * r) + 1) * (isqrt (r * r) + 1)" by simp_all
  have "isqrt (r * r) \<le> r" using q(2) r by (metis mult_strict_mono' not_le q(1))
  moreover have "r < isqrt (r * r) + 1" using q(1,3) r by (metis mult_mono not_le add_increasing2 zero_le_one)
  ultimately show ?thesis by simp
qed

lemma fp_sqrt_square:
  assumes F: "roomy F" and b: "fp_rep F b (k * k)" "k = 0 \<longrightarrow> \<not> fp_neg F b" and k: "0 \<le> k"
  shows "fp_sqrt F b = fp_of_int F k"
proof -
  have wf: "wf_fmt F" using F by (simp add: roomy_def)
  have pos: "\<not> fp_neg F b" using b(2) fp_repD(7) [OF b(1)] by (cases "k = 0") (simp_all add: not_less)
  show ?thesis
  proof (cases "k = 0")
    case True
    then have "fp_mag F b = 0" using fp_rep_zero [OF wf b(1)] by (simp add: fp_is_zero_def)
    then have "b = 0" using fp_pattern [OF fp_repD(1,2) [OF b(1)]] pos by (simp add: fp_sgn_def)
    then show ?thesis using True \<open>fp_mag F b = 0\<close> fp_repD(3) [OF b(1)] by (simp add: fp_sqrt_def fp_is_zero_def fp_of_int_zero)
  next
    case False
    let ?e = "fp_exp F b"
    define sh where "sh = 2 * (int (frac_bits F) + 2) + ?e mod 2"
    define h where "h = (sh - ?e) div 2"
    have e: "?e \<le> 0" "0 \<le> sh" "even (sh - ?e)" using fp_repD(5) [OF b(1)] by (simp_all add: sh_def)
    have h: "sh - ?e = 2 * h" "0 \<le> h" using e by (simp_all add: h_def)
    then have h': "(?e - sh) div 2 = - h" by linarith
    have n: "nat (- ?e) + nat sh = nat h + nat h" using e h by simp
    have m: "fp_man F b * 2 ^ nat sh = (k * 2 ^ nat h) * (k * 2 ^ nat h)"
      by (simp add: fp_repD(6) [OF b(1)] mult.assoc flip: power_add n)
    have "isqrt (fp_man F b * 2 ^ nat sh) = k * 2 ^ nat h" unfolding m using k by (intro isqrt_square) simp
    then have "fp_sqrt F b = fp_round F (2 * (k * 2 ^ nat h)) 2 (- h)"
      using False pos fp_repD(3,4) [OF b(1)] fp_rep_zero [OF wf b(1)] m h'
      unfolding fp_sqrt_def Let_def sh_def by simp
    also have "\<dots> = fp_round F (k * 2 ^ nat h * 2) 2 (- h)" by (simp only: mult.commute)
    also have "\<dots> = fp_round F (k * 2 ^ nat h) 1 (- h)" using k by (intro fp_round_double) simp
    also have "\<dots> = fp_round F k 1 0" using fp_round_whole_shift [of "- h" k F] h(2) k by simp
    finally show ?thesis using k by (simp add: fp_of_int_def fp_sgn_def)
  qed
qed

lemma fp_round_self: assumes "roomy F" "0 < m" shows "fp_round F m m 0 = fp_round F 1 1 0"
proof -
  have l: "lead_exp m m = 0" if "0 < m" for m using that by (simp add: lead_exp_def)
  have "- int (frac_bits F) = max (fp_emin F) (lead_exp m m + 0 - int (frac_bits F))" if "0 < m" for m
    using roomy_emin [OF assms(1)] l [OF that] by simp
  from fp_round_at [OF _ this, of m] fp_round_at [OF _ this, of 1] assms(2) show ?thesis
    using rne_exact [of m "2 ^ frac_bits F"] rne_exact [of 1 "2 ^ frac_bits F"] by (simp add: mult.commute)
qed

lemma fp_div_unit:
  assumes F: "roomy F" and a: "fp_rep F a (s * n)" and b: "fp_rep F b n" and n: "0 < n" and s: "s \<in> {-1, 0, 1}"
    and e: "s \<noteq> 0 \<Longrightarrow> fp_exp F a = fp_exp F b" and z: "s = 0 \<longrightarrow> \<not> fp_neg F a"
  shows "fp_div F a b = fp_of_int F s"
proof -
  have wf: "wf_fmt F" using F by (simp add: roomy_def)
  note zero = fp_rep_zero [OF wf]
  have r: "fp_div F a b = fp_sgn F (fp_neg F a \<noteq> fp_neg F b) (fp_round F (fp_man F a) (fp_man F b) (fp_exp F a - fp_exp F b))"
    using fp_repD(3,4) [OF a] fp_repD(3,4) [OF b] zero [OF b] n by (simp add: fp_div_def)
  have nb: "\<not> fp_neg F b" using fp_repD(7) [OF b] n by simp
  show ?thesis
  proof (cases "s = 0")
    case True
    then have "fp_man F a = 0" using fp_repD(6) [OF a] by simp
    then show ?thesis using True z nb by (simp add: r fp_of_int_zero) (simp add: fp_round_def fp_sgn_def)
  next
    case False
    then have s1: "\<bar>s\<bar> = 1" using s by auto
    then have "fp_man F a = fp_man F b" using fp_repD(6) [OF a] fp_repD(6) [OF b] e [OF False] by (simp add: abs_mult)
    moreover have "0 < fp_man F b" using fp_repD(6) [OF b] n by simp
    moreover have "fp_neg F a = (s < 0)" using fp_repD(7) [OF a] False n by (simp add: mult_less_0_iff)
    ultimately show ?thesis
      using nb e [OF False] fp_round_self [OF F, of "fp_man F b"] s1 by (simp add: r fp_of_int_def)
  qed
qed

section \<open>Single precision\<close>

lemma abs_le_square: "\<bar>x\<bar> \<le> x * x" for x :: int
proof (cases "x = 0")
  case False
  then have "\<bar>x\<bar> * 1 \<le> \<bar>x\<bar> * \<bar>x\<bar>" by (intro mult_left_mono) simp_all
  then show ?thesis by (simp only: mult_1_right abs_mult_self_eq)
qed simp

definition f32_rep :: "float32 \<Rightarrow> int \<Rightarrow> bool" where
  "f32_rep x i \<longleftrightarrow> fp_rep f32fmt (f32_int x) i"

lemma frac_f32: "(2::int) ^ Suc (frac_bits f32fmt) = 2 ^ 24"
  by (simp add: f32fmt_def)

lemma fp_of_int_range: assumes "wf_fmt F" shows "0 \<le> fp_of_int F i \<and> fp_of_int F i < 2 * fp_signbit F"
  unfolding fp_of_int_def using fp_round_range [OF assms, of "\<bar>i\<bar>" 1 0] fp_inf_signbit [OF assms]
  by (intro fp_sgn_range) simp_all

lemma fp_of_int_neg: assumes "wf_fmt F" shows "fp_neg F (fp_of_int F i) = (i < 0)"
  unfolding fp_of_int_def using fp_round_range [OF assms, of "\<bar>i\<bar>" 1 0] fp_inf_signbit [OF assms]
  by (intro fp_neg_sgn) simp_all

lemma f32_of_int_pattern: "f32_int (f32_of_int i) = fp_of_int f32fmt i"
  unfolding f32_of_int_def using fp_of_int_range [OF wf_f32fmt] by (intro f32_int_lift) simp_all

lemma f32_of_int_rep: "\<bar>i\<bar> < 2 ^ 24 \<Longrightarrow> f32_rep (f32_of_int i) i"
  unfolding f32_rep_def f32_of_int_pattern by (rule fp_of_int_rep) (simp_all only: roomy_f32 frac_f32)

lemma f32_of_int_plus: "\<bar>i\<bar> < 2 ^ 24 \<Longrightarrow> i = 0 \<longrightarrow> \<not> fp_neg f32fmt (f32_int (f32_of_int i))"
  unfolding f32_of_int_pattern by (rule fp_of_int_plus) (simp_all only: roomy_f32 frac_f32)

lemma f32_add_whole: "\<bar>i\<bar> < 2 ^ 24 \<Longrightarrow> f32_rep y j \<Longrightarrow> f32_add (f32_of_int i) y = f32_of_int (i + j)"
  using fp_add_rep [OF f32_of_int_rep [unfolded f32_rep_def] _ f32_of_int_plus] unfolding f32_add_def f32_rep_def
  by (simp add: f32_of_int_def)

lemma f32_sub_whole: "\<bar>i\<bar> < 2 ^ 24 \<Longrightarrow> f32_rep y j \<Longrightarrow> f32_sub (f32_of_int i) y = f32_of_int (i - j)"
  using fp_sub_rep [OF f32_of_int_rep [unfolded f32_rep_def] _ f32_of_int_plus] unfolding f32_sub_def f32_rep_def
  by (simp add: f32_of_int_def)

lemma f32_mul_rep:
  assumes "f32_rep x i" "f32_rep y j" "\<bar>i * j\<bar> < 2 ^ 24" shows "f32_rep (f32_mul x y) (i * j)"
proof -
  have r: "fp_rep f32fmt (fp_mul f32fmt (f32_int x) (f32_int y)) (i * j)"
    using assms unfolding f32_rep_def by (intro fp_mul_whole) (simp_all only: roomy_f32 frac_f32)
  then have "f32_int (f32_mul x y) = fp_mul f32fmt (f32_int x) (f32_int y)"
    unfolding f32_mul_def by (intro f32_int_lift) (simp_all only: fp_repD(1,2))
  with r show ?thesis by (simp add: f32_rep_def)
qed

lemma f32_mul_whole: assumes "0 \<le> i" "0 \<le> j" "i < 2 ^ 24" "j < 2 ^ 24"
  shows "f32_mul (f32_of_int i) (f32_of_int j) = f32_of_int (i * j)"
proof -
  have r: "fp_rep f32fmt (fp_of_int f32fmt i) i" "fp_rep f32fmt (fp_of_int f32fmt j) j"
    using f32_of_int_rep [of i] f32_of_int_rep [of j] assms by (simp_all add: f32_rep_def f32_of_int_pattern)
  have n: "\<not> fp_neg f32fmt (fp_of_int f32fmt i)" "\<not> fp_neg f32fmt (fp_of_int f32fmt j)"
    using assms(1,2) by (simp_all add: fp_of_int_neg)
  have "\<not> i * j < 0" using assms by (simp add: not_less)
  then show ?thesis
    unfolding f32_mul_def f32_of_int_pattern fp_mul_rep [OF r] using n by (simp add: f32_of_int_def fp_of_int_def)
qed

lemma f32_sqrt_square: assumes "0 \<le> k" "k * k < 2 ^ 24" shows "f32_sqrt (f32_of_int (k * k)) = f32_of_int k"
proof -
  have k: "k < 2 ^ 24" using assms(2) abs_le_square [of k] by linarith
  have b: "\<bar>i\<bar> < 2 ^ 24 \<Longrightarrow> \<bar>i\<bar> < 2 ^ Suc (frac_bits f64fmt)" for i :: int by (simp add: f64fmt_def)
  have i64: "f64_int (f64_lift (fp_of_int f64fmt i)) = fp_of_int f64fmt i" for i
    using fp_of_int_range [OF wf_f64fmt, of i] uint_lt2p
    by (simp add: f64_int_def f64_lift_def uint_word_of_int fp_signbit_def f64fmt_def)
  note s = f32_of_int_rep [of "k * k", unfolded f32_rep_def] f32_of_int_plus [of "k * k"]
  have "f64_of_f32 (f32_of_int (k * k)) = f64_lift (fp_of_int f64fmt (k * k))"
    unfolding f64_of_f32_def by (subst fp_conv_rep [OF s]) (use assms in simp_all)
  moreover have "fp_sqrt f64fmt (fp_of_int f64fmt (k * k)) = fp_of_int f64fmt k"
    by (rule fp_sqrt_square [OF _ fp_of_int_rep]) (use assms b [of "k * k"] in \<open>simp_all add: fp_of_int_neg\<close>)
  moreover have "fp_conv f64fmt f32fmt (fp_of_int f64fmt k) = fp_of_int f32fmt k"
    by (rule fp_conv_rep [OF fp_of_int_rep]) (use assms k b [of k] in \<open>simp_all add: fp_of_int_neg\<close>)
  ultimately show ?thesis by (simp add: f32_sqrt_def f64_sqrt_def f32_of_f64_def i64 f32_of_int_def)
qed

lemma f32_zero_whole: "f32_zero = f32_of_int 0"
  by (simp add: f32_zero_def f32_of_int_def fp_of_int_zero f32_lift_def)

lemma f32_one_whole: "f32_one = f32_of_int 1"
  by code_simp

lemma f32_eq_zero: assumes "f32_rep x i" shows "f32_eq x f32_zero \<longleftrightarrow> i = 0"
proof -
  have z: "f32_int f32_zero = 0" by (simp add: f32_int_def f32_zero_def)
  have "fp_key f32fmt 0 = 0" "\<not> fp_is_nan f32fmt 0"
    using fp_inf_pos [OF wf_f32fmt] by (simp_all add: fp_key_def fp_mag_def fp_is_nan_def)
  moreover have "fp_key f32fmt (f32_int x) = 0 \<longleftrightarrow> fp_is_zero f32fmt (f32_int x)" by (simp add: fp_key_def fp_is_zero_def)
  ultimately show ?thesis
    using fp_repD(3) [OF assms [unfolded f32_rep_def]] fp_rep_zero [OF wf_f32fmt assms [unfolded f32_rep_def]]
    by (simp add: f32_eq_def fp_eq_def z)
qed

lemma f32_div_unit: assumes "0 < n" "n < 2 ^ 24" "s \<in> {-1, 0, 1}"
  shows "f32_div (f32_of_int (s * n)) (f32_of_int n) = f32_of_int s"
proof -
  have bound: "\<bar>s * n\<bar> < 2 ^ 24" "\<bar>n\<bar> < 2 ^ 24" using assms by auto
  note r = f32_of_int_rep [OF bound(1), unfolded f32_rep_def] f32_of_int_rep [OF bound(2), unfolded f32_rep_def]
  have m: "fp_mag f32fmt (fp_of_int f32fmt i) = fp_round f32fmt \<bar>i\<bar> 1 0" for i
    unfolding fp_of_int_def using fp_round_range [OF wf_f32fmt, of "\<bar>i\<bar>" 1 0] fp_inf_signbit [OF wf_f32fmt]
    by (intro fp_mag_sgn) simp_all
  have e: "s \<noteq> 0 \<Longrightarrow> fp_exp f32fmt (f32_int (f32_of_int (s * n))) = fp_exp f32fmt (f32_int (f32_of_int n))"
    unfolding f32_of_int_pattern by (rule fp_mag_cong(2)) (use assms(3) in \<open>auto simp: m\<close>)
  have z: "s = 0 \<longrightarrow> \<not> fp_neg f32fmt (f32_int (f32_of_int (s * n)))" using f32_of_int_plus [of 0] by simp
  have "fp_div f32fmt (f32_int (f32_of_int (s * n))) (f32_int (f32_of_int n)) = fp_of_int f32fmt s"
    by (rule fp_div_unit [OF roomy_f32 r assms(1,3)]) (use e z in auto)
  then show ?thesis by (simp add: f32_div_def f32_of_int_def)
qed

section \<open>Distances of whole vectors\<close>

definition int_dot :: "int list \<Rightarrow> int list \<Rightarrow> int" where
  "int_dot xs ys = sum_list (map2 (*) xs ys)"

definition int_sqdist :: "int list \<Rightarrow> int list \<Rightarrow> int" where
  "int_sqdist xs ys = sum_list (map2 (\<lambda>x y. (x - y) * (x - y)) xs ys)"

abbreviation whole_vector :: "int list \<Rightarrow> float32 list" where
  "whole_vector xs \<equiv> map f32_of_int xs"

text \<open>A running sum of whole numbers stays exact while the magnitudes add up to less than \<open>2 ^ 24\<close>.\<close>

lemma fold_exact:
  assumes "\<bar>s\<bar> + sum_list (map2 (\<lambda>x y. \<bar>h x y\<bar>) xs ys) < 2 ^ 24"
    "\<forall>(x, y) \<in> set (zip xs ys). f32_rep (g (f32_of_int x) (f32_of_int y)) (h x y)"
  shows "foldl (\<lambda>a (x, y). f32_add a (g x y)) (f32_of_int s) (zip (whole_vector xs) (whole_vector ys)) = f32_of_int (s + sum_list (map2 h xs ys))"
  using assms
proof (induction xs arbitrary: ys s)
  case (Cons x xs)
  show ?case
  proof (cases ys)
    case (Cons y ys')
    have pos: "0 \<le> sum_list (map2 (\<lambda>x y. \<bar>h x y\<bar>) xs ys')" by (rule sum_list_nonneg) auto
    have s: "\<bar>s\<bar> < 2 ^ 24" "\<bar>s + h x y\<bar> + sum_list (map2 (\<lambda>x y. \<bar>h x y\<bar>) xs ys') < 2 ^ 24"
      using Cons.prems(1) pos unfolding Cons by simp_all
    have "f32_rep (g (f32_of_int x) (f32_of_int y)) (h x y)" using Cons.prems(2) unfolding Cons by simp
    from f32_add_whole [OF s(1) this] Cons.IH [OF s(2)] Cons.prems(2) show ?thesis unfolding Cons by (simp add: add.assoc)
  qed simp
qed simp

lemma dot_self_nonneg: "0 \<le> int_dot xs xs"
  unfolding int_dot_def by (rule sum_list_nonneg) (auto simp: zip_same_conv_map)

lemma square_bounds:
  "2 * \<bar>x * y\<bar> \<le> x * x + y * y" "(x - y) * (x - y) \<le> 2 * (x * x) + 2 * (y * y)" for x y :: int
proof -
  have p: "0 \<le> (x - y) * (x - y)" "0 \<le> (x + y) * (x + y)" by simp_all
  have e: "(x - y) * (x - y) = x * x + y * y - 2 * (x * y)" "(x + y) * (x + y) = x * x + y * y + 2 * (x * y)"
    by (simp_all add: algebra_simps)
  from p show "2 * \<bar>x * y\<bar> \<le> x * x + y * y" "(x - y) * (x - y) \<le> 2 * (x * x) + 2 * (y * y)"
    unfolding e by linarith+
qed

lemma dot_Cons: "int_dot (x # xs) (y # ys) = x * y + int_dot xs ys"
  and sqdist_Cons: "int_sqdist (x # xs) (y # ys) = (x - y) * (x - y) + int_sqdist xs ys"
  by (simp_all add: int_dot_def int_sqdist_def)

lemma dot_bound: "length xs = length ys \<Longrightarrow> 2 * sum_list (map2 (\<lambda>x y. \<bar>x * y\<bar>) xs ys) \<le> int_dot xs xs + int_dot ys ys"
proof (induction xs ys rule: list_induct2)
  case (Cons x xs y ys)
  have c: "sum_list (map2 (\<lambda>x y. \<bar>x * y\<bar>) (x # xs) (y # ys)) = \<bar>x * y\<bar> + sum_list (map2 (\<lambda>x y. \<bar>x * y\<bar>) xs ys)" by simp
  show ?case unfolding c dot_Cons using add_mono [OF square_bounds(1) [of x y] Cons.IH] by (simp add: algebra_simps)
qed (simp add: int_dot_def)

lemma sqdist_bound: "length xs = length ys \<Longrightarrow> int_sqdist xs ys \<le> 2 * int_dot xs xs + 2 * int_dot ys ys"
proof (induction xs ys rule: list_induct2)
  case (Cons x xs y ys)
  show ?case unfolding sqdist_Cons dot_Cons using add_mono [OF square_bounds(2) [of x y] Cons.IH] by (simp add: algebra_simps)
qed (simp add: int_dot_def int_sqdist_def)

lemma sqdist_nonneg: "0 \<le> int_sqdist xs ys"
  unfolding int_sqdist_def by (rule sum_list_nonneg) auto

lemma sqdist_abs: "sum_list (map2 (\<lambda>x y. \<bar>(x - y) * (x - y)\<bar>) xs ys) = int_sqdist xs ys"
  by (simp add: int_sqdist_def)

text \<open>A component is no larger than the sum of the squares.\<close>

lemma dot_self_member: "x \<in> set xs \<Longrightarrow> \<bar>x\<bar> \<le> int_dot xs xs"
proof (induction xs)
  case (Cons y xs)
  then show ?case
    unfolding dot_Cons using dot_self_nonneg [of xs] abs_le_square [of y] by (auto intro: order_trans)
qed simp

definition short_whole :: "int list \<Rightarrow> bool" where
  "short_whole xs \<longleftrightarrow> int_dot xs xs < 2 ^ 22"

lemma pair_bounds:
  assumes "length xs = length ys" "short_whole xs" "short_whole ys" "(x, y) \<in> set (zip xs ys)"
  shows "\<bar>x\<bar> < 2 ^ 22" "\<bar>y\<bar> < 2 ^ 22" "\<bar>x * y\<bar> < 2 ^ 24" "(x - y) * (x - y) < 2 ^ 24" "x * x < 2 ^ 24" "y * y < 2 ^ 24"
proof -
  have "x * x \<le> int_dot xs xs" if "x \<in> set xs" for x and xs :: "int list"
    using that
  proof (induction xs)
    case (Cons y xs)
    then show ?case unfolding dot_Cons using dot_self_nonneg [of xs] by (auto intro: add_increasing)
  qed simp
  then have s: "x * x < 2 ^ 22" "y * y < 2 ^ 22"
    using assms(2-4) set_zip_leftD set_zip_rightD unfolding short_whole_def by (meson le_less_trans)+
  then show "\<bar>x\<bar> < 2 ^ 22" "\<bar>y\<bar> < 2 ^ 22" "\<bar>x * y\<bar> < 2 ^ 24" "(x - y) * (x - y) < 2 ^ 24" "x * x < 2 ^ 24" "y * y < 2 ^ 24"
    using abs_le_square [of x] abs_le_square [of y] square_bounds [of x y] by simp_all
qed

lemma DotProduct_whole:
  assumes "length xs = length ys" "short_whole xs" "short_whole ys"
  shows "DotProduct (whole_vector xs) (whole_vector ys) = f32_of_int (int_dot xs ys)" "\<bar>int_dot xs ys\<bar> < 2 ^ 22"
proof -
  have b: "sum_list (map2 (\<lambda>x y. \<bar>x * y\<bar>) xs ys) < 2 ^ 22"
    using dot_bound [OF assms(1)] assms(2,3) unfolding short_whole_def by linarith
  have "\<forall>(x, y) \<in> set (zip xs ys). f32_rep (f32_mul (f32_of_int x) (f32_of_int y)) (x * y)"
    using pair_bounds [OF assms] by (fastforce intro: f32_mul_rep f32_of_int_rep)
  from fold_exact [OF _ this, of 0] b assms(1) show "DotProduct (whole_vector xs) (whole_vector ys) = f32_of_int (int_dot xs ys)"
    by (simp add: DotProduct_def f32_zero_whole int_dot_def)
  have "\<bar>int_dot xs ys\<bar> \<le> sum_list (map2 (\<lambda>x y. \<bar>x * y\<bar>) xs ys)"
    using sum_list_abs [of "map2 (*) xs ys"] by (simp add: int_dot_def comp_def case_prod_unfold)
  with b show "\<bar>int_dot xs ys\<bar> < 2 ^ 22" by linarith
qed

lemma EuclideanDistance_whole:
  assumes "length xs = length ys" "short_whole xs" "short_whole ys"
  shows "EuclideanDistance (whole_vector xs) (whole_vector ys) = f32_sqrt (f32_of_int (int_sqdist xs ys))" "int_sqdist xs ys < 2 ^ 24"
proof -
  show b: "int_sqdist xs ys < 2 ^ 24" using sqdist_bound [OF assms(1)] assms(2,3) by (simp add: short_whole_def)
  have "f32_rep (f32_mul (f32_sub (f32_of_int x) (f32_of_int y)) (f32_sub (f32_of_int x) (f32_of_int y))) ((x - y) * (x - y))"
    if "(x, y) \<in> set (zip xs ys)" for x y
  proof -
    note p = pair_bounds [OF assms that]
    have d: "f32_sub (f32_of_int x) (f32_of_int y) = f32_of_int (x - y)" using p(1,2) by (intro f32_sub_whole f32_of_int_rep) simp_all
    have "\<bar>x - y\<bar> < 2 ^ 24" using p(4) abs_le_square [of "x - y"] by linarith
    then show ?thesis unfolding d using p(4) by (intro f32_mul_rep f32_of_int_rep) simp_all
  qed
  then have "\<forall>(x, y) \<in> set (zip xs ys). f32_rep (f32_mul (f32_sub (f32_of_int x) (f32_of_int y)) (f32_sub (f32_of_int x) (f32_of_int y)))
      ((x - y) * (x - y))" by blast
  from fold_exact [OF _ this, of 0] b assms(1)
  show "EuclideanDistance (whole_vector xs) (whole_vector ys) = f32_sqrt (f32_of_int (int_sqdist xs ys))"
    by (simp add: EuclideanDistance_def f32_zero_whole Let_def sqdist_abs) (simp add: int_sqdist_def)
qed

lemma cosine_folds:
  "foldl (\<lambda>(d, na, nb) (x, y). (f32_add d (f32_mul x y), f32_add na (f32_mul x x), f32_add nb (f32_mul y y))) (s, t, u) ps
   = (foldl (\<lambda>a (x, y). f32_add a (f32_mul x y)) s ps, foldl (\<lambda>a (x, y). f32_add a (f32_mul x x)) t ps,
      foldl (\<lambda>a (x, y). f32_add a (f32_mul y y)) u ps)"
  by (induction ps arbitrary: s t u) auto

lemma dot_sides: "length xs = length ys \<Longrightarrow> sum_list (map2 (\<lambda>x y. x * x) xs ys) = int_dot xs xs"
    "length xs = length ys \<Longrightarrow> sum_list (map2 (\<lambda>x y. y * y) xs ys) = int_dot ys ys"
  by (induction xs ys rule: list_induct2) (simp_all add: int_dot_def)

lemma cosine_sums_whole:
  assumes "length xs = length ys" "short_whole xs" "short_whole ys"
  shows "cosine_sums (zip (whole_vector xs) (whole_vector ys)) = (f32_of_int (int_dot xs ys), f32_of_int (int_dot xs xs), f32_of_int (int_dot ys ys))"
proof -
  note p = pair_bounds [OF assms]
  have "foldl (\<lambda>a (x, y). f32_add a (f32_mul x y)) f32_zero (zip (whole_vector xs) (whole_vector ys)) = f32_of_int (int_dot xs ys)"
    using DotProduct_whole(1) [OF assms] assms(1) by (simp add: DotProduct_def)
  moreover have "\<forall>(x, y) \<in> set (zip xs ys). f32_rep (f32_mul (f32_of_int x) (f32_of_int x)) (x * x)"
    "\<forall>(x, y) \<in> set (zip xs ys). f32_rep (f32_mul (f32_of_int y) (f32_of_int y)) (y * y)"
    using p by (fastforce intro: f32_mul_rep f32_of_int_rep)+
  from fold_exact [OF _ this(1), of 0] fold_exact [OF _ this(2), of 0]
  have "foldl (\<lambda>a (x, y). f32_add a (f32_mul x x)) f32_zero (zip (whole_vector xs) (whole_vector ys)) = f32_of_int (int_dot xs xs)"
    "foldl (\<lambda>a (x, y). f32_add a (f32_mul y y)) f32_zero (zip (whole_vector xs) (whole_vector ys)) = f32_of_int (int_dot ys ys)"
    using assms by (simp_all add: f32_zero_whole dot_sides short_whole_def)
  ultimately show ?thesis by (simp add: cosine_sums_def cosine_folds)
qed

lemma CosineSimilarity_whole:
  assumes "length xs = length ys" "short_whole xs" "short_whole ys" "0 \<le> p" "0 \<le> q" "int_dot xs xs = p * p" "int_dot ys ys = q * q"
  shows "CosineSimilarity (whole_vector xs) (whole_vector ys) =
    (if p * q = 0 then f32_zero else f32_div (f32_of_int (int_dot xs ys)) (f32_of_int (p * q)))" "p * q < 2 ^ 24"
proof -
  have n: "p * p < 2 ^ 22" "q * q < 2 ^ 22" using assms by (simp_all add: short_whole_def)
  then show "p * q < 2 ^ 24" using square_bounds(1) [of p q] by simp
  have z: "f32_eq (f32_of_int (p * p)) f32_zero \<longleftrightarrow> p = 0" "f32_eq (f32_of_int (q * q)) f32_zero \<longleftrightarrow> q = 0"
    using f32_eq_zero [OF f32_of_int_rep, of "p * p"] f32_eq_zero [OF f32_of_int_rep, of "q * q"] n by simp_all
  have r: "f32_sqrt (f32_of_int (p * p)) = f32_of_int p" "f32_sqrt (f32_of_int (q * q)) = f32_of_int q"
    using n assms(4,5) by (simp_all add: f32_sqrt_square)
  have "p < 2 ^ 24" "q < 2 ^ 24" using n abs_le_square [of p] abs_le_square [of q] by simp_all
  with assms(4,5) have "f32_mul (f32_of_int p) (f32_of_int q) = f32_of_int (p * q)" by (intro f32_mul_whole)
  then show "CosineSimilarity (whole_vector xs) (whole_vector ys) =
    (if p * q = 0 then f32_zero else f32_div (f32_of_int (int_dot xs ys)) (f32_of_int (p * q)))"
    using assms(1) by (auto simp: CosineSimilarity_def cosine_sums_whole [OF assms(1-3)] assms(6,7) z r)
qed

lemma distance_mismatch: "length a \<noteq> length b \<Longrightarrow> GetDistanceFunc metric a b =
    (if metric = ''cosine'' then f32_one else if metric = ''dot_product'' then f32_minus f32_zero else f32_max)"
proof -
  have "f32_sub f32_one f32_zero = f32_one" by code_simp
  then show "length a \<noteq> length b \<Longrightarrow> ?thesis"
    by (simp add: GetDistanceFunc_def CosineSimilarity_def EuclideanDistance_def DotProduct_def)
qed

end
