(* ===== verification/Storage_Properties.thy ===== *)
theory Storage_Properties
  imports Adapter_Laws Exact_Floats
begin

text \<open>
  What the storage layer guarantees: encodings that lose nothing, an order on scores that is
  the order of their values, selection and sorting against a reference, and, on any Redis
  service with the documented effects, what the adapter's operations leave behind. Each
  property that has hypotheses is applied once to the in-memory service.
\<close>

section \<open>A concrete server and vector, for the witnesses\<close>

definition demo_conn :: conn where "demo_conn = \<lparr>cAddr = ''r1'', cPassword = [], cDB = 0\<rparr>"

definition demo_vector :: stored_vector where
  "demo_vector = \<lparr>vID = ''c'', vMetadata = [(''k'', ''x'')], vTimestamp = 7, vValues = [f32_one, f32_zero]\<rparr>"

definition demo_index :: vector_index where
  "demo_index = NewVectorIndex 5 ''i'' 2 ''cosine'' 1 0"

definition demo_result :: "string \<Rightarrow> float32 \<Rightarrow> search_result" where
  "demo_result i s = \<lparr>rID = i, rScore = s, rDistance = f32_zero, rVector = None\<rparr>"

text \<open>After \<open>demo_vector\<close> has been stored in an index.\<close>

definition demo_stored :: "string \<Rightarrow> mem_world" where
  "demo_stored index = snd (StoreVector mem_exec demo_conn index demo_vector (mem_empty []))"

lemma answered: "\<not> isl (fst p) \<Longrightarrow> \<exists>x w. p = (Inr x, w)"
  by (cases p, cases "fst p") auto

lemma no_error: "fst p = None \<Longrightarrow> \<exists>w. p = (None, w)"
  by (cases p) auto

lemma demo_vector_ok: "vector_ok demo_vector"
  by code_simp

lemma demo_store: "StoreVector mem_exec demo_conn index demo_vector (mem_empty []) = (None, demo_stored index)"
proof -
  have "\<exists>d. ToBytes demo_vector = Inr d" using demo_vector_ok by (simp add: ToBytes_Inr_iff vector_ok_def)
  then show ?thesis
    by (auto simp: demo_stored_def StoreVector_def exec_error_def mem_exec_def mem_empty_def
        split: prod.splits sum.splits)
qed

section \<open>Encodings\<close>

text \<open>C30: A vector that JSON can carry is encoded without an error, and decoding what was
  encoded gives its id, timestamp and values back, with the same metadata under every key. The
  binary form of its values takes four bytes each, and reading it loses no bit of them.\<close>

theorem vector_roundtrip:
  assumes "vector_ok v"
  shows "\<exists>d v'. ToBytes v = Inr d \<and> VectorFromBytes d = Inr v'
    \<and> vID v' = vID v \<and> vTimestamp v' = vTimestamp v \<and> vValues v' = vValues v
    \<and> (\<forall>k. gm_get (vMetadata v') k = gm_get (vMetadata v) k)
    \<and> DeserializeVector (SerializeVector (vValues v)) = vValues v
    \<and> length (SerializeVector (vValues v)) = 4 * length (vValues v)"
proof -
  obtain d where d: "ToBytes v = Inr d" using assms ToBytes_Inr_iff [of v] by (auto simp: vector_ok_def)
  have "gm_ok (vMetadata v)" using assms by (simp add: vector_ok_def text_ok_def)
  then show ?thesis using d VectorFromBytes_ToBytes [OF assms d] DeserializeVector_SerializeVector length_SerializeVector
    by (auto simp: map_of_sort_key)
qed

theorem vector_roundtrip_witness:
  "\<exists>d v'. ToBytes demo_vector = Inr d \<and> VectorFromBytes d = Inr v' \<and> vValues v' = [f32_one, f32_zero]"
  using vector_roundtrip [OF demo_vector_ok] by (auto simp: demo_vector_def)

section \<open>Distances and order\<close>

text \<open>The comparison of \<open>float32\<close> scores used by selection and sorting is the order of
  the numbers they stand for (counted in quanta, the smallest positive value).\<close>

lemma f32_lt_value:
  assumes "f32_finite a" "f32_finite b"
  shows "f32_lt a b \<longleftrightarrow> fp_value f32fmt (f32_int a) < fp_value f32fmt (f32_int b)"
  using assms unfolding f32_lt_def f32_finite_def by (intro fp_lt_value) simp_all



text \<open>C8: Of more than \<open>k\<close> results the ranking keeps exactly the scores that sorting all of
  them, best first, would put in front; it invents none. The in-place selection, the cut and
  the exchange sort together refine that reference, as long as no score is a NaN.\<close>

theorem best_results_reference:
  assumes "\<forall>x \<in> set xs. \<not> f32_is_nan (rScore x)"
  shows "map rank (best_results xs k) = take k (rev (sort (map rank xs)))
    \<and> mset (best_results xs k) \<subseteq># mset xs"
  using ranks_of_topk [OF best_results_topk best_results_descending assms] best_results_topk [of k xs]
  by (simp add: is_topk_def)

theorem best_results_reference_witness:
  "map rank (best_results [demo_result ''a'' f32_zero, demo_result ''b'' f32_one, demo_result ''c'' f32_max] 2)
     = take 2 (rev (sort (map rank [demo_result ''a'' f32_zero, demo_result ''b'' f32_one, demo_result ''c'' f32_max])))"
proof -
  have "\<forall>x \<in> set [demo_result ''a'' f32_zero, demo_result ''b'' f32_one, demo_result ''c'' f32_max].
      \<not> f32_is_nan (rScore x)" by code_simp
  then show ?thesis using best_results_reference [of _ 2] by blast
qed

text \<open>Selection permutes the results and leaves \<open>k\<close> best ones in front, NaN scores or not.\<close>

lemma quickselect_topk:
  "mset (QuickSelectResults xs k) = mset xs
   \<and> is_topk f32_lt rScore k (mset xs) (mset (take k (QuickSelectResults xs k)))"
  using QuickSelectResults_topk by simp

text \<open>The exchange sort permutes the results and leaves them in descending order, on any
  scores: no result is followed by one with a greater score.\<close>

lemma sort_descending:
  "mset (SortResultsByScore xs) = mset xs \<and> descending f32_lt rScore (SortResultsByScore xs)"
  using SortResultsByScore_descending by simp

section \<open>Single vectors\<close>

text \<open>On a Redis service with the documented effects, a read that is answered after a
  store that reported no error returns the vector stored, its metadata in key order.\<close>

lemma store_then_get:
  assumes "redis_service exec store" "vector_ok v"
    "StoreVector exec c i v w = (None, w1)" "GetVector exec c i (vID v) w1 = (Inr v', w2)"
  shows "v' = v\<lparr>vMetadata := sort_key fst (vMetadata v)\<rparr>"
  using redis_service.store_get [OF assms(1,3,2,4)] .

section \<open>Batches\<close>

text \<open>C32: A batch that reports no error leaves the database exactly as storing its vectors one
  by one would, when none of those stores fails: one pipeline implements the sequence.\<close>

theorem batch_is_sequence:
  assumes "redis_service exec store"
    "BatchStoreVectors exec c i vs w = (None, w1)" "store_each exec c i vs w = (None, w2)"
  shows "store w1 (cAddr c) (cDB c) = store w2 (cAddr c) (cDB c)"
  using redis_service.batch_effect [OF assms(1,2)] redis_service.store_each_effect [OF assms(1,3)] by simp

theorem batch_is_sequence_witness:
  "\<exists>w1 w2. BatchStoreVectors mem_exec demo_conn ''i'' [demo_vector, demo_vector\<lparr>vID := ''d''\<rparr>] (mem_empty []) = (None, w1)
    \<and> store_each mem_exec demo_conn ''i'' [demo_vector, demo_vector\<lparr>vID := ''d''\<rparr>] (mem_empty []) = (None, w2)
    \<and> mem_store w1 ''r1'' 0 = mem_store w2 ''r1'' 0"
proof -
  let ?vs = "[demo_vector, demo_vector\<lparr>vID := ''d''\<rparr>]"
  have "fst (BatchStoreVectors mem_exec demo_conn ''i'' ?vs (mem_empty [])) = None" by code_simp
  then obtain w1 where w1: "BatchStoreVectors mem_exec demo_conn ''i'' ?vs (mem_empty []) = (None, w1)"
    using no_error by blast
  have "fst (store_each mem_exec demo_conn ''i'' ?vs (mem_empty [])) = None" by code_simp
  then obtain w2 where w2: "store_each mem_exec demo_conn ''i'' ?vs (mem_empty []) = (None, w2)"
    using no_error by blast
  show ?thesis using batch_is_sequence [OF mem.redis_service_axioms w1 w2] w1 w2 by (auto simp: demo_conn_def)
qed

text \<open>After a batch of vectors that JSON can carry, the index counts the ids it had together
  with those of the batch, each once: storing a vector again does not count it twice.\<close>

lemma batch_count:
  assumes "redis_service exec store" "\<forall>v \<in> set vs. vector_ok v"
    "BatchStoreVectors exec c i vs w = (None, w1)" "GetVectorCount exec c i w1 = (Inr n, w2)"
  shows "n = int (card (dom (dbSets (store w (cAddr c) (cDB c)) (ids_key i)) \<union> vID ` set vs))"
proof -
  have "\<forall>v \<in> set vs. \<exists>d. ToBytes v = Inr d" using assms(2) by (simp add: ToBytes_Inr_iff vector_ok_def)
  then show ?thesis
    using redis_service.count_card [OF assms(1,4)] redis_service.batch_effect [OF assms(1,3)]
      redis_service.batch_members [OF assms(1)] by simp
qed

section \<open>Indexes\<close>

text \<open>An index descriptor is read back as it was created, its options in key order.\<close>

lemma create_then_get_index:
  assumes "redis_service exec store" "index_encodable x"
    "adapter_CreateIndex exec c x w = (None, w1)" "GetIndex exec c (xName x) w1 = (Inr y, w2)"
  shows "y = x\<lparr>xOptions := sort_key fst (xOptions x)\<rparr>"
  using redis_service.create_get_index [OF assms(1,3,2,4)] .

text \<open>C36: Dropping an index forgets its descriptor and its ids, so that a search finds nothing,
  but leaves every vector's document where \<open>Get\<close> reads it.\<close>

theorem drop_leaves_vectors:
  assumes "redis_service exec store" "adapter_DropIndex exec c i w = (None, w1)"
  shows "dbDocs (store w1 (cAddr c) (cDB c)) (meta_key i) = None
    \<and> dbSets (store w1 (cAddr c) (cDB c)) (ids_key i) = Map.empty
    \<and> all_candidates (store w1 (cAddr c) (cDB c)) i q flt = {#}
    \<and> (\<forall>a v w2. GetVector exec c i a w = (Inr v, w2) \<longrightarrow>
         (\<forall>r w3. GetVector exec c i a w1 = (Inr r, w3) \<longrightarrow> r = v)
         \<and> dbDocs (store w1 (cAddr c) (cDB c)) (vector_key i a) \<noteq> None)"
proof -
  note drop = redis_service.drop_index_leaves [OF assms]
  have "\<exists>d. dbDocs (store w1 (cAddr c) (cDB c)) (vector_key i a) = Some d \<and> VectorFromBytes d = Inr v"
    if "GetVector exec c i a w = (Inr v, w2)" for a v w2
    using redis_service.get_document [OF assms(1) that] drop(1) by simp
  moreover have "r = v" if "dbDocs (store w1 (cAddr c) (cDB c)) (vector_key i a) = Some d" "VectorFromBytes d = Inr v"
    "GetVector exec c i a w1 = (Inr r, w3)" for a d v r w3
    using redis_service.get_document [OF assms(1) that(3)] that by simp
  ultimately show ?thesis using drop by (fastforce simp: all_candidates_def)
qed

theorem drop_leaves_vectors_witness:
  "\<exists>w1. adapter_DropIndex mem_exec demo_conn ''i'' (demo_stored ''i'') = (None, w1)
    \<and> dbDocs (mem_store w1 ''r1'' 0) (vector_key ''i'' ''c'') \<noteq> None
    \<and> all_candidates (mem_store w1 ''r1'' 0) ''i'' [f32_one, f32_zero] [] = {#}"
proof -
  let ?p = "adapter_DropIndex mem_exec demo_conn ''i'' (demo_stored ''i'')"
  have "fst ?p = None" by code_simp
  then obtain w1 where w1: "?p = (None, w1)" using no_error by blast
  have "\<not> isl (fst (GetVector mem_exec demo_conn ''i'' ''c'' (demo_stored ''i'')))" by code_simp
  then obtain v w2 where "GetVector mem_exec demo_conn ''i'' ''c'' (demo_stored ''i'') = (Inr v, w2)"
    using answered by blast
  then show ?thesis using drop_leaves_vectors [OF mem.redis_service_axioms w1] w1
    by (auto simp: demo_conn_def)
qed

section \<open>Search on one shard\<close>

text \<open>C33: On a reachable service a search answers with \<open>k\<close> of the best-scored results among all
  vectors of the index that can be read and pass the filter (all of them, if fewer), in
  descending order of score. The score is the cosine distance, so that the first result is the
  one least similar to the query.\<close>

theorem search_topk:
  assumes "redis_up exec store up" "up w c"
  shows "\<exists>rs w'. SearchVectors exec c i q k flt w = (Inr rs, w')
    \<and> is_topk f32_lt rScore k (all_candidates (store w (cAddr c) (cDB c)) i q flt) (mset rs)
    \<and> descending f32_lt rScore rs"
  using redis_up.SearchVectors_topk [OF assms] by blast

theorem search_topk_witness:
  "\<exists>rs w'. SearchVectors mem_exec demo_conn ''i'' [f32_one, f32_zero] 3 [] (demo_stored ''i'') = (Inr rs, w')
    \<and> descending f32_lt rScore rs"
proof -
  have "mem_up (demo_stored ''i'') demo_conn" by code_simp
  then show ?thesis using search_topk [OF mem.redis_up_axioms, of "demo_stored ''i''" demo_conn] by blast
qed

text \<open>C38: What is stored through an adapter, its own connection's or routed by a shard manager, is
  what a later read through it returns. But over a shard manager a batch never reports a failure,
  and a search calls itself on the same adapter and never returns.\<close>

theorem sharded_adapter:
  assumes "redis_service exec store" "vector_ok v"
    "any_StoreVector a exec i v w = (None, w1)" "any_GetVector a exec i (vID v) w1 = (Inr v', w2)"
  shows "v' = v\<lparr>vMetadata := sort_key fst (vMetadata v)\<rparr>
    \<and> fst (any_BatchStoreVectors (Sharded shardForKey adapters) exec order i vs w) = None
    \<and> any_SearchVectors (Sharded shardForKey adapters) exec i q k flt w = None
    \<and> any_SearchVectors (Direct c) exec i q k flt w = Some (SearchVectors exec c i q k flt w)"
  using any_store_get [OF assms(3,4,1,2)] any_SearchVectors_Sharded any_SearchVectors_Direct by fastforce

definition demo_two :: redis_adapter where
  "demo_two = NewShardedRedisAdapter (\<lambda>key. Inr (if key = ''i:c'' then 1 else 0)) (\<lambda>n. Inr (Direct (demo_conn\<lparr>cDB := n\<rparr>)))"

theorem sharded_adapter_witness:
  "\<exists>w1 w2. any_StoreVector demo_two mem_exec ''i'' demo_vector (mem_empty []) = (None, w1)
    \<and> any_GetVector demo_two mem_exec ''i'' ''c'' w1 = (Inr demo_vector, w2)"
proof -
  obtain w1 where st: "any_StoreVector demo_two mem_exec ''i'' demo_vector (mem_empty []) = (None, w1)"
    and g: "\<not> isl (fst (any_GetVector demo_two mem_exec ''i'' (vID demo_vector) w1))"
  proof -
    have "fst (any_StoreVector demo_two mem_exec ''i'' demo_vector (mem_empty [])) = None"
      "\<not> isl (fst (any_GetVector demo_two mem_exec ''i'' (vID demo_vector)
        (snd (any_StoreVector demo_two mem_exec ''i'' demo_vector (mem_empty [])))))" by code_simp+
    then show ?thesis using that by (metis prod.collapse)
  qed
  obtain v' w2 where v': "any_GetVector demo_two mem_exec ''i'' (vID demo_vector) w1 = (Inr v', w2)"
    using answered [OF g] by blast
  have "vector_ok demo_vector" by (rule demo_vector_ok)
  from sharded_adapter [OF mem.redis_service_axioms this st v']
  have "v' = demo_vector\<lparr>vMetadata := sort_key fst (vMetadata demo_vector)\<rparr>" by blast
  then have "v' = demo_vector" by (simp add: demo_vector_def)
  then show ?thesis using st v' by (simp add: demo_vector_def)
qed

section \<open>Keys, shards and connections\<close>

text \<open>A batch over a shard manager is split by the shard its keys route to: each shard gets
  exactly the vectors whose key names it, in the order they came, and a vector whose key names
  no shard goes nowhere.\<close>

lemma shard_split:
  "group_of (shardToVectors shardForKey i vs) n = filter (\<lambda>v. shardForKey (shard_key i (vID v)) = Inr n) vs"
  by (rule shardToVectors_group)

text \<open>C37: Keys are index, colon, id. Two indexes whose names have no colon never share a key;
  otherwise a vector stored in one index is what a read of another index returns.\<close>

theorem key_collision:
  assumes "redis_service exec store" "vector_ok v"
    "StoreVector exec c (i @ '':'' @ j) v w = (None, w1)" "GetVector exec c i (j @ '':'' @ vID v) w1 = (Inr v', w2)"
  shows "v' = v\<lparr>vMetadata := sort_key fst (vMetadata v)\<rparr>
    \<and> (\<forall>p q a b. CHR '':'' \<notin> set p \<longrightarrow> CHR '':'' \<notin> set q \<longrightarrow> vector_key p a = vector_key q b \<longrightarrow> p = q \<and> a = b)"
proof -
  have "vector_key i (j @ '':'' @ vID v) = vector_key (i @ '':'' @ j) (vID v)" by (simp add: vector_key_def)
  then show ?thesis
    using redis_service.store_get_key [OF assms(1,3,2) _ assms(4)] by (simp add: vector_key_inj_plain)
qed

theorem key_collision_witness:
  "\<exists>w2. GetVector mem_exec demo_conn ''a'' ''b:c'' (demo_stored ''a:b'') = (Inr demo_vector, w2)"
proof -
  have "\<not> isl (fst (GetVector mem_exec demo_conn ''a'' (''b'' @ '':'' @ vID demo_vector) (demo_stored (''a'' @ '':'' @ ''b''))))"
    by code_simp
  then obtain v' w2
    where g: "GetVector mem_exec demo_conn ''a'' (''b'' @ '':'' @ vID demo_vector) (demo_stored (''a'' @ '':'' @ ''b'')) = (Inr v', w2)"
    using answered by blast
  show ?thesis using key_collision [OF mem.redis_service_axioms demo_vector_ok demo_store g] g
    by (simp add: demo_vector_def)
qed

text \<open>The pool hands out connections by address alone: once a connection to an address is
  there, every later request for that address gets it, whatever password and database it names.\<close>

lemma pool_ignores_database:
  assumes "GetClient exec pool pool' addr password dbnum w = (Inr client, pool1, w1)"
  shows "GetClient exec pool1 pool2 addr password' dbnum' w2 = (Inr client, pool1, w2)"
proof -
  have "gm_get pool1 addr = Some client"
    using assms by (auto simp: GetClient_def Let_def gm_get_put split: option.splits prod.splits sum.splits)
  then show ?thesis by (simp add: GetClient_def)
qed

end
