(* ===== verification/Hash_Ring.thy ===== *)
theory Hash_Ring
  imports Prelude
begin

text \<open>
  \<open>internal/shard/consistent_hash.go\<close>: the hash ring with virtual nodes. The ring hash is
  CRC-32 (IEEE) computed bit by bit; \<open>sort.Slice\<close> on \<open>uint32\<close> keys is \<open>sort\<close>, since equal
  keys cannot be told apart; \<open>sort.Search\<close> is the library's binary search. The index
  that \<open>GetNode\<close> reads is in range under the invariant \<open>ring_ok\<close>, which every
  operation keeps.
\<close>

section \<open>Hashing\<close>

text \<open>\<open>crc32.ChecksumIEEE\<close>: the reflected polynomial, one bit at a time.\<close>

definition crc_bit :: "u32 \<Rightarrow> u32" where
  "crc_bit c = (if odd c then xor (drop_bit 1 c) 0xEDB88320 else drop_bit 1 c)"

definition crc_byte :: "u32 \<Rightarrow> char \<Rightarrow> u32" where
  "crc_byte c b =
     crc_bit (crc_bit (crc_bit (crc_bit (crc_bit (crc_bit (crc_bit (crc_bit (xor c (of_char b)))))))))"

definition ring_hash :: "string \<Rightarrow> u32" where
  "ring_hash key = not (foldl crc_byte 0xFFFFFFFF key)"

section \<open>Binary search\<close>

text \<open>\<open>sort.Search(n, f)\<close>, its loop over \<open>i\<close> and \<open>j\<close>.\<close>

function search_loop :: "(nat \<Rightarrow> bool) \<Rightarrow> nat \<Rightarrow> nat \<Rightarrow> nat" where
  "search_loop f i j =
     (if i < j then let h = (i + j) div 2 in if f h then search_loop f i h else search_loop f (Suc h) j else i)"
  by pat_completeness auto
termination
  by (relation "measure (\<lambda>(_, i, j). j - i)") auto

declare search_loop.simps [simp del]

definition sort_Search :: "nat \<Rightarrow> (nat \<Rightarrow> bool) \<Rightarrow> nat" where
  "sort_Search n f = search_loop f 0 n"

definition monotone_below :: "nat \<Rightarrow> (nat \<Rightarrow> bool) \<Rightarrow> bool" where
  "monotone_below n f \<longleftrightarrow> (\<forall>a b. a \<le> b \<longrightarrow> b < n \<longrightarrow> f a \<longrightarrow> f b)"

lemma search_loop_spec:
  assumes "i \<le> j" "j \<le> n" "monotone_below n f" "\<forall>a < i. \<not> f a" "\<forall>b. j \<le> b \<longrightarrow> b < n \<longrightarrow> f b"
  shows "search_loop f i j \<le> n \<and> (\<forall>a < search_loop f i j. \<not> f a) \<and> (\<forall>b. search_loop f i j \<le> b \<longrightarrow> b < n \<longrightarrow> f b)"
  using assms
proof (induction f i j rule: search_loop.induct)
  case (1 f i j)
  show ?case
  proof (cases "i < j")
    case False
    then have "search_loop f i j = i" by (simp add: search_loop.simps [of f i j])
    with False "1.prems" show ?thesis by simp
  next
    case ij: True
    define h where "h = (i + j) div 2"
    have h: "i \<le> h" "h < j" using ij by (auto simp: h_def)
    show ?thesis
    proof (cases "f h")
      case True
      then have eq: "search_loop f i j = search_loop f i h"
        using ij by (simp add: search_loop.simps [of f i j] h_def Let_def)
      have "\<forall>b. h \<le> b \<longrightarrow> b < n \<longrightarrow> f b"
        using True "1.prems"(3) unfolding monotone_below_def by blast
      with "1.IH"(1) [OF ij h_def True] "1.prems"(2-4) h show ?thesis unfolding eq by simp
    next
      case False
      then have eq: "search_loop f i j = search_loop f (Suc h) j"
        using ij by (simp add: search_loop.simps [of f i j] h_def Let_def)
      have "h < n" using h "1.prems"(2) by simp
      then have "\<forall>a < Suc h. \<not> f a"
        using False "1.prems"(3) unfolding monotone_below_def by (metis less_Suc_eq_le)
      with "1.IH"(2) [OF ij h_def False] "1.prems"(2,3,5) h show ?thesis unfolding eq by simp
    qed
  qed
qed

lemma sort_Search_spec:
  assumes "monotone_below n f"
  shows "sort_Search n f \<le> n" "\<And>a. a < sort_Search n f \<Longrightarrow> \<not> f a"
    "\<And>b. sort_Search n f \<le> b \<Longrightarrow> b < n \<Longrightarrow> f b"
  using search_loop_spec [of 0 n n f] assms by (simp_all add: sort_Search_def)

section \<open>The ring\<close>

record consistent_hash =
  chNodes :: "(u32, string) gomap"
  chSortedKeys :: "u32 list"
  chVirtualNodes :: int

definition NewConsistentHash :: "int \<Rightarrow> consistent_hash" where
  "NewConsistentHash virtualNodes =
     \<lparr>chNodes = [], chSortedKeys = [], chVirtualNodes = virtualNodes\<rparr>"

text \<open>The hashes of a node's virtual nodes, in the order the loops visit them.\<close>

definition virtual_hashes :: "consistent_hash \<Rightarrow> string \<Rightarrow> u32 list" where
  "virtual_hashes c node =
     map (\<lambda>i. ring_hash (node @ ''#'' @ fmt_d (int i))) [0..<nat (chVirtualNodes c)]"

definition add_virtual :: "string \<Rightarrow> u32 \<Rightarrow> consistent_hash \<Rightarrow> consistent_hash" where
  "add_virtual node hash c =
     c\<lparr>chNodes := gm_put hash node (chNodes c), chSortedKeys := chSortedKeys c @ [hash]\<rparr>"

definition AddNode :: "string \<Rightarrow> consistent_hash \<Rightarrow> consistent_hash" where
  "AddNode node c =
     (let c' = fold (add_virtual node) (virtual_hashes c node) c
      in c'\<lparr>chSortedKeys := sort (chSortedKeys c')\<rparr>)"

definition RemoveNode :: "string \<Rightarrow> consistent_hash \<Rightarrow> consistent_hash" where
  "RemoveNode node c =
     (let nodes = fold gm_del (virtual_hashes c node) (chNodes c)
      in c\<lparr>chNodes := nodes, chSortedKeys := filter (\<lambda>key. gm_get nodes key \<noteq> None) (chSortedKeys c)\<rparr>)"

definition node_index :: "consistent_hash \<Rightarrow> u32 \<Rightarrow> nat" where
  "node_index c hash =
     (let keys = chSortedKeys c;
          idx = sort_Search (length keys) (\<lambda>i. hash \<le> keys ! i)
      in if idx = length keys then 0 else idx)"

definition GetNode :: "consistent_hash \<Rightarrow> string \<Rightarrow> string res" where
  "GetNode c key =
     (if chNodes c = [] then Inl ''no nodes available''
      else Inr (case gm_get (chNodes c) (chSortedKeys c ! node_index c (ring_hash key)) of
                  None \<Rightarrow> [] | Some node \<Rightarrow> node))"

definition GetNodes :: "(string list \<Rightarrow> string list) \<Rightarrow> consistent_hash \<Rightarrow> string list" where
  "GetNodes order c = order (remdups (map snd (chNodes c)))"

definition GetNodeCount :: "consistent_hash \<Rightarrow> nat" where
  "GetNodeCount c = length (remdups (map snd (chNodes c)))"

section \<open>Invariant\<close>

definition ring_ok :: "consistent_hash \<Rightarrow> bool" where
  "ring_ok c \<longleftrightarrow> gm_ok (chNodes c) \<and> sorted (chSortedKeys c) \<and> set (chSortedKeys c) = fst ` set (chNodes c)"

lemma ring_ok_New [simp, inv_intros]: "ring_ok (NewConsistentHash n)"
  by (simp add: ring_ok_def NewConsistentHash_def)

lemma add_virtual_fold:
  "chNodes (fold (add_virtual node) hs c) = fold (\<lambda>h. gm_put h node) hs (chNodes c)"
  "chSortedKeys (fold (add_virtual node) hs c) = chSortedKeys c @ hs"
  "chVirtualNodes (fold (add_virtual node) hs c) = chVirtualNodes c"
  by (induction hs arbitrary: c) (simp_all add: add_virtual_def)

lemma put_all_keys: "fst ` set (fold (\<lambda>h. gm_put h node) hs m) = fst ` set m \<union> set hs"
  by (induction hs arbitrary: m) (auto simp: dom_update)

lemma put_all_ok: "gm_ok m \<Longrightarrow> gm_ok (fold (\<lambda>h. gm_put h node) hs m)"
  by (induction hs arbitrary: m) auto

lemma put_all_get: "gm_get (fold (\<lambda>h. gm_put h node) hs m) k = (if k \<in> set hs then Some node else gm_get m k)"
  by (induction hs arbitrary: m) (auto simp: gomap_simps)

lemma del_all_get: "gm_get (fold gm_del hs m) k = (if k \<in> set hs then None else gm_get m k)"
  by (induction hs arbitrary: m) (auto simp: gomap_simps)

lemma del_all_ok: "gm_ok m \<Longrightarrow> gm_ok (fold gm_del hs m)"
  by (induction hs arbitrary: m) auto

lemma ring_ok_AddNode [simp, inv_intros]: "ring_ok c \<Longrightarrow> ring_ok (AddNode node c)"
  by (auto simp: ring_ok_def AddNode_def Let_def add_virtual_fold put_all_keys put_all_ok)

lemma ring_ok_RemoveNode [simp, inv_intros]: "ring_ok c \<Longrightarrow> ring_ok (RemoveNode node c)"
proof -
  assume c: "ring_ok c"
  have srt: "sorted (filter P xs)" if "sorted xs" for P and xs :: "u32 list"
    using sorted_filter [of "\<lambda>x. x" xs P] that by simp
  have "k \<in> fst ` set (fold gm_del hs m) \<longleftrightarrow> gm_get (fold gm_del hs m) k \<noteq> None" for k hs and m :: "(u32, string) gomap"
    by (metis dom_map_of_conv_image_fst domIff)
  with c show ?thesis
    by (auto simp: ring_ok_def RemoveNode_def Let_def del_all_ok srt del_all_get
        image_iff set_gm_keys simp flip: dom_map_of_conv_image_fst split: if_splits)
qed

section \<open>Routing\<close>

text \<open>The clockwise successor of a point among the keys: the least key not below it, else the least key.\<close>

definition ring_successor :: "u32 set \<Rightarrow> u32 \<Rightarrow> u32 \<Rightarrow> bool" where
  "ring_successor K h k \<longleftrightarrow> k \<in> K \<and>
     ((h \<le> k \<and> (\<forall>k' \<in> K. h \<le> k' \<longrightarrow> k \<le> k')) \<or> ((\<forall>k' \<in> K. k' < h) \<and> (\<forall>k' \<in> K. k \<le> k')))"

lemma ring_successor_unique: "ring_successor K h k \<Longrightarrow> ring_successor K h k' \<Longrightarrow> k = k'"
  unfolding ring_successor_def by (metis antisym not_less)

lemma node_index_successor:
  assumes "sorted (chSortedKeys c)" "chSortedKeys c \<noteq> []"
  shows "node_index c h < length (chSortedKeys c)"
    "ring_successor (set (chSortedKeys c)) h (chSortedKeys c ! node_index c h)"
proof -
  let ?keys = "chSortedKeys c" and ?f = "\<lambda>i. h \<le> chSortedKeys c ! i"
  have mono: "monotone_below (length ?keys) ?f"
    unfolding monotone_below_def using assms(1) by (meson order_trans sorted_nth_mono)
  note spec = sort_Search_spec [of "length ?keys" ?f, OF mono]
  define idx where "idx = sort_Search (length ?keys) ?f"
  have "node_index c h < length ?keys \<and> ring_successor (set ?keys) h (?keys ! node_index c h)"
  proof (cases "idx = length ?keys")
    case True
    then have i: "node_index c h = 0" by (simp add: node_index_def idx_def Let_def)
    have "\<forall>k \<in> set ?keys. k < h"
      using spec(2) True by (auto simp: idx_def in_set_conv_nth not_le)
    moreover have "\<forall>k \<in> set ?keys. ?keys ! 0 \<le> k"
      using assms(1) by (auto simp: in_set_conv_nth intro: sorted_nth_mono)
    ultimately show ?thesis using i assms(2) by (auto simp: ring_successor_def)
  next
    case False
    then have i: "node_index c h = idx" and lt: "idx < length ?keys"
      using spec(1) by (auto simp: node_index_def idx_def Let_def)
    have "?keys ! idx \<le> k" if k: "k \<in> set ?keys" "h \<le> k" for k
    proof -
      obtain a where a: "a < length ?keys" "k = ?keys ! a"
        using k(1) by (auto simp: in_set_conv_nth)
      have "idx \<le> a" using spec(2) [of a] k(2) a by (fastforce simp: idx_def not_less)
      then show ?thesis using assms(1) a by (auto intro: sorted_nth_mono)
    qed
    moreover have "h \<le> ?keys ! idx" using spec(3) [of idx] lt by (simp add: idx_def)
    ultimately show ?thesis using i lt by (auto simp: ring_successor_def)
  qed
  then show "node_index c h < length ?keys" "ring_successor (set ?keys) h (?keys ! node_index c h)"
    by simp_all
qed

lemma ring_keys_nonempty: "ring_ok c \<Longrightarrow> chNodes c \<noteq> [] \<Longrightarrow> chSortedKeys c \<noteq> []"
  by (auto simp: ring_ok_def)

text \<open>\<open>GetNode\<close> answers with the owner of the successor of the key's hash.\<close>

lemma GetNode_owner:
  assumes "ring_ok c" "chNodes c \<noteq> []"
  obtains k node where "ring_successor (fst ` set (chNodes c)) (ring_hash key) k"
    "gm_get (chNodes c) k = Some node" "GetNode c key = Inr node"
proof -
  let ?k = "chSortedKeys c ! node_index c (ring_hash key)"
  have K: "set (chSortedKeys c) = fst ` set (chNodes c)" using assms(1) by (simp add: ring_ok_def)
  have s: "ring_successor (fst ` set (chNodes c)) (ring_hash key) ?k"
    using node_index_successor(2) [of c "ring_hash key"] ring_keys_nonempty [OF assms] assms(1) K
    by (simp add: ring_ok_def)
  then obtain node where n: "gm_get (chNodes c) ?k = Some node"
    by (metis domD dom_map_of_conv_image_fst ring_successor_def)
  with assms(2) have "GetNode c key = Inr node" by (simp add: GetNode_def)
  with s n show thesis by (rule that)
qed

lemma GetNode_eqI:
  assumes "ring_ok c" "ring_successor (fst ` set (chNodes c)) (ring_hash key) k"
    "gm_get (chNodes c) k = Some node"
  shows "GetNode c key = Inr node"
proof -
  have "chNodes c \<noteq> []" using assms(3) by auto
  with assms(1) obtain k' node' where k': "ring_successor (fst ` set (chNodes c)) (ring_hash key) k'"
    "gm_get (chNodes c) k' = Some node'" "GetNode c key = Inr node'"
    by (rule GetNode_owner)
  with ring_successor_unique [OF assms(2) k'(1)] assms(3) show ?thesis by simp
qed

lemma AddNode_keys: "fst ` set (chNodes (AddNode node c)) = fst ` set (chNodes c) \<union> set (virtual_hashes c node)"
  by (simp add: AddNode_def Let_def add_virtual_fold put_all_keys)

lemma AddNode_get: "gm_get (chNodes (AddNode node c)) k =
    (if k \<in> set (virtual_hashes c node) then Some node else gm_get (chNodes c) k)"
  by (simp add: AddNode_def Let_def add_virtual_fold put_all_get)

lemma RemoveNode_get: "gm_get (chNodes (RemoveNode node c)) k =
    (if k \<in> set (virtual_hashes c node) then None else gm_get (chNodes c) k)"
  by (simp add: RemoveNode_def Let_def del_all_get)

lemma ring_successor_grow:
  "ring_successor (K \<union> H) h k \<Longrightarrow> k \<notin> H \<Longrightarrow> ring_successor K h k"
  by (auto simp: ring_successor_def)

lemma ring_successor_shrink:
  "ring_successor K h k \<Longrightarrow> k \<notin> H \<Longrightarrow> ring_successor (K - H) h k"
  by (auto simp: ring_successor_def)

text \<open>Adding a node moves a key to that node or leaves it where it was.\<close>

lemma AddNode_moves_to_new:
  assumes "ring_ok c" "chNodes c \<noteq> []"
  shows "GetNode (AddNode node c) key = GetNode c key \<or> GetNode (AddNode node c) key = Inr node"
proof -
  have "chNodes (AddNode node c) \<noteq> []"
    using assms(2) AddNode_keys [of node c] by auto
  with ring_ok_AddNode [OF assms(1)] obtain k n where
    k: "ring_successor (fst ` set (chNodes (AddNode node c))) (ring_hash key) k"
    "gm_get (chNodes (AddNode node c)) k = Some n" "GetNode (AddNode node c) key = Inr n"
    by (rule GetNode_owner)
  show ?thesis
  proof (cases "k \<in> set (virtual_hashes c node)")
    case True
    with k show ?thesis by (simp add: AddNode_get)
  next
    case False
    with k(1,2) have "ring_successor (fst ` set (chNodes c)) (ring_hash key) k" "gm_get (chNodes c) k = Some n"
      by (auto simp: AddNode_keys AddNode_get intro: ring_successor_grow)
    with GetNode_eqI [OF assms(1)] k(3) show ?thesis by simp
  qed
qed

text \<open>
  Removing a node moves only the keys it owned, as long as none of its virtual nodes shares
  a hash with another node's.
\<close>

lemma RemoveNode_keeps_others:
  assumes "ring_ok c" "GetNode c key = Inr other" "other \<noteq> node"
    and own: "\<forall>h \<in> set (virtual_hashes c node). gm_get (chNodes c) h \<in> {None, Some node}"
  shows "GetNode (RemoveNode node c) key = Inr other"
proof -
  have "chNodes c \<noteq> []" using assms(2) by (auto simp: GetNode_def)
  with assms(1) obtain k n where k: "ring_successor (fst ` set (chNodes c)) (ring_hash key) k"
    "gm_get (chNodes c) k = Some n" "GetNode c key = Inr n"
    by (rule GetNode_owner)
  have k': "k \<notin> set (virtual_hashes c node)" using own k assms(2,3) by auto
  have keys: "fst ` set (chNodes (RemoveNode node c)) = fst ` set (chNodes c) - set (virtual_hashes c node)"
    by (auto simp: RemoveNode_get simp flip: dom_map_of_conv_image_fst split: if_splits)
  show ?thesis
  proof (rule GetNode_eqI [OF ring_ok_RemoveNode [OF assms(1)]])
    show "ring_successor (fst ` set (chNodes (RemoveNode node c))) (ring_hash key) k"
      unfolding keys using k(1) k' by (rule ring_successor_shrink)
    show "gm_get (chNodes (RemoveNode node c)) k = Some other"
      using k k' assms(2) by (simp add: RemoveNode_get)
  qed
qed

section \<open>Histories of a ring\<close>

text \<open>The rings that adding and removing nodes can make.\<close>

inductive ring_history :: "int \<Rightarrow> consistent_hash \<Rightarrow> bool" for n where
  new: "ring_history n (NewConsistentHash n)"
| add: "ring_history n c \<Longrightarrow> ring_history n (AddNode node c)"
| remove: "ring_history n c \<Longrightarrow> ring_history n (RemoveNode node c)"

lemma ring_history_ok: "ring_history n c \<Longrightarrow> ring_ok c"
  by (induction rule: ring_history.induct) simp_all

end
