(* ===== verification/Shard_Manager.thy ===== *)
theory Shard_Manager
  imports Hash_Ring Redis_Adapter
begin

text \<open>
  \<open>internal/shard/manager.go\<close>: the shards, where they live, and the routing of a key to one.
  The maps keyed by shard and by node are Go maps; an adapter is its connection. The health
  loop is \<open>performHealthCheck\<close>, run at each tick while the manager is not closed; where the
  code walks a map the order is a parameter. Logging is left out.
\<close>

section \<open>State\<close>

record shard_info =
  siID :: int
  siNode :: string
  siStatus :: string
  siVectorCount :: int
  siMemoryUsage :: int
  siLastHealthCheck :: int
  siReplicas :: "string list"

record shard_config =
  cfShardCount :: int
  cfReplicaCount :: int
  cfVirtualNodes :: int
  cfHealthCheckInterval :: int
  cfRedisAddresses :: "string list"
  cfRedisPassword :: string
  cfRedisDB :: int

record shard_manager =
  smRing :: consistent_hash
  smShards :: "(int, shard_info) gomap"
  smNodeToShards :: "(string, int list) gomap"
  smAdapters :: "(int, conn) gomap"
  smConfig :: shard_config
  smRunning :: bool

section \<open>Construction\<close>

text \<open>
  One turn of the loop in \<open>NewShardManager\<close>: the \<open>i\<close>-th shard on the next address, in the
  database \<open>RedisDB + i\<close>.
\<close>

definition shard_addr :: "shard_config \<Rightarrow> nat \<Rightarrow> string" where
  "shard_addr config i = cfRedisAddresses config ! (i mod length (cfRedisAddresses config))"

definition init_shard :: "'w redis \<Rightarrow> (nat \<Rightarrow> int) \<Rightarrow> nat \<Rightarrow> shard_manager \<times> 'w \<Rightarrow> shard_manager \<times> 'w" where
  "init_shard exec now i smw =
     (let sm = fst smw; config = smConfig sm; nodeAddr = shard_addr config i;
          (r, w') = NewRedisAdapter exec nodeAddr (cfRedisPassword config) (cfRedisDB config + int i) (snd smw);
          shard = \<lparr>siID = int i, siNode = nodeAddr,
                   siStatus = (case r of Inl _ \<Rightarrow> ''error'' | Inr _ \<Rightarrow> ''active''),
                   siVectorCount = 0, siMemoryUsage = 0, siLastHealthCheck = now i, siReplicas = []\<rparr>
      in (sm\<lparr>smRing := AddNode nodeAddr (smRing sm),
             smShards := gm_put (int i) shard (smShards sm),
             smNodeToShards := append_group nodeAddr (int i) (smNodeToShards sm),
             smAdapters := (case r of Inl _ \<Rightarrow> smAdapters sm | Inr c \<Rightarrow> gm_put (int i) c (smAdapters sm))\<rparr>,
          w'))"

definition empty_manager :: "shard_config \<Rightarrow> shard_manager" where
  "empty_manager config =
     \<lparr>smRing = NewConsistentHash (cfVirtualNodes config), smShards = [], smNodeToShards = [],
      smAdapters = [], smConfig = config, smRunning = False\<rparr>"

text \<open>
  With shards to place and no address the index is a division by zero; \<open>startHealthCheck\<close>
  creates the ticker, which panics on an interval that is not positive.
\<close>

definition NewShardManager :: "'w redis \<Rightarrow> (nat \<Rightarrow> int) \<Rightarrow> shard_config \<Rightarrow> 'w \<Rightarrow> (shard_manager \<times> 'w) outcome" where
  "NewShardManager exec now config w =
     (if 0 < cfShardCount config \<and> cfRedisAddresses config = [] then Crashes ''integer divide by zero''
      else let (sm, w') = fold (init_shard exec now) [0..<nat (cfShardCount config)] (empty_manager config, w)
           in if cfHealthCheckInterval config \<le> 0 then Crashes ''non-positive interval for NewTicker''
              else Returns (sm\<lparr>smRunning := True\<rparr>, w'))"

section \<open>Routing\<close>

definition crc32Hash :: "string \<Rightarrow> u32" where
  "crc32Hash key = foldl (\<lambda>h b. h * 31 + of_char b) 0 key"

definition GetShardForKey :: "shard_manager \<Rightarrow> string \<Rightarrow> int res" where
  "GetShardForKey sm key =
     (case GetNode (smRing sm) key of
        Inl e \<Rightarrow> Inl e
      | Inr node \<Rightarrow>
          (case gm_get (smNodeToShards sm) node of
             None \<Rightarrow> Inl (''no shards found for node: '' @ node)
           | Some shards \<Rightarrow>
               if shards = [] then Inl (''no shards found for node: '' @ node)
               else Inr (shards ! unat (crc32Hash key mod of_nat (length shards)))))"

definition GetShardAdapter :: "shard_manager \<Rightarrow> int \<Rightarrow> conn res" where
  "GetShardAdapter sm shardID =
     (case gm_get (smAdapters sm) shardID of
        None \<Rightarrow> Inl (''no adapter found for shard: '' @ fmt_d shardID)
      | Some adapter \<Rightarrow>
          (case gm_get (smShards sm) shardID of
             None \<Rightarrow> Inl (''shard '' @ fmt_d shardID @ '' is not active'')
           | Some shard \<Rightarrow>
               if siStatus shard \<noteq> ''active'' then Inl (''shard '' @ fmt_d shardID @ '' is not active'')
               else Inr adapter))"

type_synonym shard_order = "shard_info list \<Rightarrow> shard_info list"

definition GetAllShards :: "shard_order \<Rightarrow> shard_manager \<Rightarrow> shard_info list" where
  "GetAllShards order sm = order (map snd (smShards sm))"

definition GetHealthyShards :: "shard_order \<Rightarrow> shard_manager \<Rightarrow> shard_info list" where
  "GetHealthyShards order sm = filter (\<lambda>shard. siStatus shard = ''active'') (order (map snd (smShards sm)))"

section \<open>Health and maintenance\<close>

definition check_shard :: "'w redis \<Rightarrow> (int \<Rightarrow> int) \<Rightarrow> int \<Rightarrow> shard_manager \<times> 'w \<Rightarrow> shard_manager \<times> 'w" where
  "check_shard exec now shardID smw =
     (let sm = fst smw; w = snd smw;
          set_shard = (\<lambda>shard. sm\<lparr>smShards := gm_put shardID shard (smShards sm)\<rparr>)
      in case gm_get (smShards sm) shardID of
           None \<Rightarrow> (sm, w)
         | Some shard \<Rightarrow>
             (case gm_get (smAdapters sm) shardID of
                None \<Rightarrow> (set_shard (shard\<lparr>siStatus := ''no_adapter''\<rparr>), w)
              | Some adapter \<Rightarrow>
                  (case GetVectorCount exec adapter ''_health_check'' w of
                     (Inl _, w') \<Rightarrow>
                       (set_shard (shard\<lparr>siStatus := ''unhealthy'', siLastHealthCheck := now shardID\<rparr>), w')
                   | (Inr n, w') \<Rightarrow>
                       (set_shard (shard\<lparr>siStatus := ''active'', siVectorCount := n,
                                         siLastHealthCheck := now shardID\<rparr>), w'))))"

definition performHealthCheck :: "'w redis \<Rightarrow> (int list \<Rightarrow> int list) \<Rightarrow> (int \<Rightarrow> int)
    \<Rightarrow> shard_manager \<Rightarrow> 'w \<Rightarrow> shard_manager \<times> 'w" where
  "performHealthCheck exec order now sm w = fold (check_shard exec now) (order (map fst (smShards sm))) (sm, w)"

text \<open>\<open>ShardCount/2\<close> truncates towards zero.\<close>

definition RebalanceShards :: "shard_manager \<Rightarrow> string option" where
  "RebalanceShards sm =
     (let healthyShards = int (length (filter (\<lambda>shard. siStatus shard = ''active'') (map snd (smShards sm))));
          shardCount = cfShardCount (smConfig sm);
          half = (if shardCount < 0 then - ((- shardCount) div 2) else shardCount div 2)
      in if healthyShards < half
         then Some (''insufficient healthy shards for rebalancing: '' @ fmt_d healthyShards @ ''/'' @ fmt_d shardCount)
         else None)"

definition GetShardStats :: "shard_manager \<Rightarrow> int \<Rightarrow> shard_info res" where
  "GetShardStats sm shardID =
     (case gm_get (smShards sm) shardID of
        None \<Rightarrow> Inl (''shard not found: '' @ fmt_d shardID) | Some shard \<Rightarrow> Inr shard)"

definition UpdateShardReplicas :: "shard_manager \<Rightarrow> int \<Rightarrow> string list \<Rightarrow> string option \<times> shard_manager" where
  "UpdateShardReplicas sm shardID replicas =
     (case gm_get (smShards sm) shardID of
        None \<Rightarrow> (Some (''shard not found: '' @ fmt_d shardID), sm)
      | Some shard \<Rightarrow> (None, sm\<lparr>smShards := gm_put shardID (shard\<lparr>siReplicas := replicas\<rparr>) (smShards sm)\<rparr>))"

text \<open>\<open>Close\<close> ends the health loop; the second component is the connections it closes.\<close>

definition Close :: "shard_manager \<Rightarrow> shard_manager \<times> conn list" where
  "Close sm = (sm\<lparr>smRunning := False\<rparr>, map snd (smAdapters sm))"

section \<open>Invariant\<close>

text \<open>
  For \<open>n\<close> shards: they are numbered from 0, each entry carries its number and its node; a
  node lists exactly its shards; every owner on the ring is such a node; an adapter is a
  connection to the shard's node, in the shard's own database; an active shard has one.
\<close>

definition shards_on :: "(int, shard_info) gomap \<Rightarrow> string \<Rightarrow> int set" where
  "shards_on shards node = {i. \<exists>shard. gm_get shards i = Some shard \<and> siNode shard = node}"

definition shards_ok :: "nat \<Rightarrow> shard_manager \<Rightarrow> bool" where
  "shards_ok n sm \<longleftrightarrow>
     ring_ok (smRing sm) \<and> gm_ok (smShards sm) \<and> gm_ok (smNodeToShards sm) \<and> gm_ok (smAdapters sm)
     \<and> dom (gm_get (smShards sm)) = int ` {..<n}
     \<and> (\<forall>i shard. gm_get (smShards sm) i = Some shard \<longrightarrow> siID shard = i)
     \<and> (\<forall>node. distinct (group_of (smNodeToShards sm) node)
          \<and> set (group_of (smNodeToShards sm) node) = shards_on (smShards sm) node)
     \<and> (\<forall>h node. gm_get (chNodes (smRing sm)) h = Some node \<longrightarrow> group_of (smNodeToShards sm) node \<noteq> [])
     \<and> (\<forall>i c. gm_get (smAdapters sm) i = Some c \<longrightarrow>
          cDB c = cfRedisDB (smConfig sm) + i \<and> i \<in> shards_on (smShards sm) (cAddr c))
     \<and> (\<forall>i shard. gm_get (smShards sm) i = Some shard \<longrightarrow> siStatus shard = ''active'' \<longrightarrow>
          gm_get (smAdapters sm) i \<noteq> None)"

definition manager_ok :: "shard_manager \<Rightarrow> bool" where
  "manager_ok sm \<longleftrightarrow> shards_ok (nat (cfShardCount (smConfig sm))) sm
     \<and> 0 < cfShardCount (smConfig sm) \<and> cfShardCount (smConfig sm) < 2 ^ 31 \<and> chNodes (smRing sm) \<noteq> []"

section \<open>The operations keep the invariant\<close>

lemma NewRedisAdapter_Inr:
  "NewRedisAdapter exec a p d w = (Inr c, w') \<Longrightarrow> c = \<lparr>cAddr = a, cPassword = p, cDB = d\<rparr>"
  by (auto simp: NewRedisAdapter_def GetClient_def Let_def split: prod.splits sum.splits)

lemma virtual_hashes_nonempty: "0 < chVirtualNodes c \<Longrightarrow> virtual_hashes c node \<noteq> []"
  by (simp add: virtual_hashes_def)

lemma AddNode_virtualNodes [simp]: "chVirtualNodes (AddNode node c) = chVirtualNodes c"
  by (simp add: AddNode_def Let_def add_virtual_fold)

lemma AddNode_nonempty: "0 < chVirtualNodes c \<Longrightarrow> chNodes (AddNode node c) \<noteq> []"
  using AddNode_keys [of node c] virtual_hashes_nonempty [of c node] by auto

text \<open>Replacing a shard's entry by one for the same shard on the same node.\<close>

definition set_shard :: "int \<Rightarrow> shard_info \<Rightarrow> shard_manager \<Rightarrow> shard_manager" where
  "set_shard i shard sm = sm\<lparr>smShards := gm_put i shard (smShards sm)\<rparr>"

lemma shards_on_put:
  "gm_get shards i = Some s \<Longrightarrow> siNode s' = siNode s \<Longrightarrow> shards_on (gm_put i s' shards) node = shards_on shards node"
  by (auto simp: shards_on_def gomap_simps)

lemma shards_ok_set:
  assumes ok: "shards_ok n sm" and s: "gm_get (smShards sm) i = Some s"
    and same: "siID s' = siID s" "siNode s' = siNode s"
    and act: "siStatus s' = ''active'' \<Longrightarrow> gm_get (smAdapters sm) i \<noteq> None"
  shows "shards_ok n (set_shard i s' sm)"
proof -
  have "i \<in> dom (gm_get (smShards sm))" using s by blast
  then have "dom (gm_get (gm_put i s' (smShards sm))) = dom (gm_get (smShards sm))"
    by (auto simp: gomap_simps split: if_splits)
  with ok s act same(1) show ?thesis
    unfolding shards_ok_def set_shard_def
    by (simp add: shards_on_put [OF s same(2)]) (simp add: gomap_simps)
qed

text \<open>What a health check leaves alone.\<close>

definition same_routing :: "shard_manager \<Rightarrow> shard_manager \<Rightarrow> bool" where
  "same_routing sm sm' \<longleftrightarrow> smRing sm' = smRing sm \<and> smNodeToShards sm' = smNodeToShards sm
     \<and> smAdapters sm' = smAdapters sm \<and> smConfig sm' = smConfig sm"

lemma check_shard_ok:
  assumes ok: "shards_ok n sm"
  shows "shards_ok n (fst (check_shard exec now i (sm, w))) \<and> same_routing sm (fst (check_shard exec now i (sm, w)))"
proof (cases "gm_get (smShards sm) i")
  case None
  with ok show ?thesis by (simp add: check_shard_def same_routing_def)
next
  case (Some s)
  have put: "sm\<lparr>smShards := gm_put i s' (smShards sm)\<rparr> = set_shard i s' sm" for s'
    by (simp add: set_shard_def)
  have same: "same_routing sm (set_shard i s' sm)" for s'
    by (simp add: same_routing_def set_shard_def)
  show ?thesis
    using Some same
    by (auto simp: check_shard_def put intro!: shards_ok_set [OF ok Some] split: option.splits prod.splits sum.splits)
qed

lemma same_routing_trans: "same_routing a b \<Longrightarrow> same_routing b c \<Longrightarrow> same_routing a c"
  by (simp add: same_routing_def)

lemma check_shards_ok:
  "shards_ok n sm \<Longrightarrow> shards_ok n (fst (fold (check_shard exec now) ids (sm, w)))
     \<and> same_routing sm (fst (fold (check_shard exec now) ids (sm, w)))"
proof (induction ids arbitrary: sm w)
  case Nil
  then show ?case by (simp add: same_routing_def)
next
  case (Cons i ids)
  obtain sm1 w1 where e: "check_shard exec now i (sm, w) = (sm1, w1)" by fastforce
  from check_shard_ok [OF Cons.prems, of exec now i w] e
  have "shards_ok n sm1" "same_routing sm sm1" by simp_all
  with Cons.IH [of sm1 w1] e show ?case by (auto intro: same_routing_trans)
qed

lemma performHealthCheck_ok:
  "shards_ok n sm \<Longrightarrow> performHealthCheck exec order now sm w = (sm', w') \<Longrightarrow> shards_ok n sm' \<and> same_routing sm sm'"
  using check_shards_ok [of n sm exec now "order (map fst (smShards sm))" w] by (simp add: performHealthCheck_def)

lemma UpdateShardReplicas_ok:
  assumes "shards_ok n sm" "UpdateShardReplicas sm i replicas = (e, sm')"
  shows "shards_ok n sm' \<and> same_routing sm sm'"
proof (cases "gm_get (smShards sm) i")
  case None
  with assms show ?thesis by (simp add: UpdateShardReplicas_def same_routing_def)
next
  case (Some s)
  then have sm': "sm' = set_shard i (s\<lparr>siReplicas := replicas\<rparr>) sm"
    using assms(2) by (simp add: UpdateShardReplicas_def set_shard_def)
  have "shards_ok n sm'" unfolding sm'
    by (rule shards_ok_set [OF assms(1) Some]) (use assms(1) Some in \<open>auto simp: shards_ok_def\<close>)
  then show ?thesis using sm' by (simp add: same_routing_def set_shard_def)
qed

lemma Close_ok: "shards_ok n sm \<Longrightarrow> Close sm = (sm', cs) \<Longrightarrow> shards_ok n sm' \<and> same_routing sm sm'"
  unfolding Close_def by (clarify; simp add: shards_ok_def same_routing_def)

section \<open>Construction establishes it\<close>

lemma init_shard_shape:
  assumes "init_shard exec now i (sm, w) = (sm', w')"
  obtains s where "siID s = int i" "siNode s = shard_addr (smConfig sm) i"
    "smRing sm' = AddNode (siNode s) (smRing sm)" "smShards sm' = gm_put (int i) s (smShards sm)"
    "smNodeToShards sm' = append_group (siNode s) (int i) (smNodeToShards sm)" "smConfig sm' = smConfig sm"
    "(siStatus s \<noteq> ''active'' \<and> smAdapters sm' = smAdapters sm) \<or>
     (\<exists>c. cAddr c = siNode s \<and> cDB c = cfRedisDB (smConfig sm) + int i \<and> smAdapters sm' = gm_put (int i) c (smAdapters sm))"
proof -
  obtain r w1 where r: "NewRedisAdapter exec (shard_addr (smConfig sm) i) (cfRedisPassword (smConfig sm))
      (cfRedisDB (smConfig sm) + int i) w = (r, w1)" by fastforce
  let ?s = "\<lparr>siID = int i, siNode = shard_addr (smConfig sm) i,
     siStatus = (case r of Inl _ \<Rightarrow> ''error'' | Inr _ \<Rightarrow> ''active''),
     siVectorCount = 0, siMemoryUsage = 0, siLastHealthCheck = now i, siReplicas = []\<rparr>"
  show thesis
  proof (cases r)
    case (Inl e)
    with r assms show thesis by (intro that [of ?s]) (simp_all add: init_shard_def Let_def, auto)
  next
    case (Inr c)
    with r NewRedisAdapter_Inr have "cAddr c = shard_addr (smConfig sm) i" "cDB c = cfRedisDB (smConfig sm) + int i"
      by fastforce+
    with Inr r assms show thesis
      by (intro that [of ?s]) (simp_all add: init_shard_def Let_def, auto)
  qed
qed

lemma init_shard_ok:
  assumes ok: "shards_ok i sm" and e: "init_shard exec now i (sm, w) = (sm', w')"
  shows "shards_ok (Suc i) sm'"
proof -
  from e obtain s where s: "siID s = int i" "smRing sm' = AddNode (siNode s) (smRing sm)"
    "smShards sm' = gm_put (int i) s (smShards sm)"
    "smNodeToShards sm' = append_group (siNode s) (int i) (smNodeToShards sm)" "smConfig sm' = smConfig sm"
    and ad: "(siStatus s \<noteq> ''active'' \<and> smAdapters sm' = smAdapters sm) \<or>
     (\<exists>c. cAddr c = siNode s \<and> cDB c = cfRedisDB (smConfig sm) + int i \<and> smAdapters sm' = gm_put (int i) c (smAdapters sm))"
    by (rule init_shard_shape)
  have "dom (gm_get (smShards sm)) = int ` {..<i}" using ok by (simp add: shards_ok_def)
  then have new: "gm_get (smShards sm) (int i) = None" by (metis domIff image_iff lessThan_iff nat_int nat_less_le)
  then have on: "shards_on (smShards sm') node =
      (if node = siNode s then insert (int i) (shards_on (smShards sm) node) else shards_on (smShards sm) node)" for node
    by (auto simp: shards_on_def s(3) gomap_simps)
  have fresh: "int i \<notin> shards_on (smShards sm) node" for node
    using new by (simp add: shards_on_def)
  have fresh: "int i \<notin> shards_on (smShards sm) node" for node
    using new by (simp add: shards_on_def)
  have "dom (gm_get (smShards sm)) = int ` {..<i}" using ok by (simp add: shards_ok_def)
  then have d: "dom (gm_get (smShards sm')) = int ` {..<Suc i}"
    by (auto simp: s(3) gomap_simps lessThan_Suc dom_def)
  have old: "distinct (group_of (smNodeToShards sm) node)
      \<and> set (group_of (smNodeToShards sm) node) = shards_on (smShards sm) node" for node
    using ok by (simp add: shards_ok_def)
  have nodes: "distinct (group_of (smNodeToShards sm') node)
      \<and> set (group_of (smNodeToShards sm') node) = shards_on (smShards sm') node" for node
    unfolding s(4) on using old [of node] old [of "siNode s"] fresh by auto
  have "gm_get (chNodes (smRing sm)) h = Some node \<Longrightarrow> group_of (smNodeToShards sm) node \<noteq> []" for h node
    using ok unfolding shards_ok_def by blast
  then have ring: "gm_get (chNodes (smRing sm')) h = Some node \<Longrightarrow> group_of (smNodeToShards sm') node \<noteq> []" for h node
    unfolding s(2,4) by (auto simp: AddNode_get split: if_splits)
  have "gm_get (smAdapters sm) j = Some c \<Longrightarrow>
      cDB c = cfRedisDB (smConfig sm) + j \<and> j \<in> shards_on (smShards sm) (cAddr c)" for j c
    using ok unfolding shards_ok_def by blast
  moreover have "gm_get (smAdapters sm') j = Some c \<Longrightarrow> gm_get (smAdapters sm) j = Some c
      \<or> (j = int i \<and> cAddr c = siNode s \<and> cDB c = cfRedisDB (smConfig sm) + int i)" for j c
    using ad by (auto simp: gomap_simps split: if_splits)
  ultimately have adapters: "gm_get (smAdapters sm') j = Some c \<Longrightarrow>
      cDB c = cfRedisDB (smConfig sm') + j \<and> j \<in> shards_on (smShards sm') (cAddr c)" for j c
    unfolding on s(5) by (metis insertCI)
  have "gm_get (smShards sm) j = Some x \<Longrightarrow> siStatus x = ''active'' \<Longrightarrow> gm_get (smAdapters sm) j \<noteq> None" for j x
    using ok unfolding shards_ok_def by blast
  then have active: "gm_get (smShards sm') j = Some x \<Longrightarrow> siStatus x = ''active'' \<Longrightarrow> gm_get (smAdapters sm') j \<noteq> None" for j x
    using ad unfolding s(3) by (auto simp: gomap_simps split: if_splits)
  have maps: "ring_ok (smRing sm') \<and> gm_ok (smShards sm') \<and> gm_ok (smNodeToShards sm') \<and> gm_ok (smAdapters sm')
    \<and> (\<forall>j shard. gm_get (smShards sm') j = Some shard \<longrightarrow> siID shard = j)"
    using ok ad s(1) by (auto simp: shards_ok_def s(2-4) gomap_simps)
  show ?thesis unfolding shards_ok_def
    using maps d nodes ring adapters active by blast
qed

lemma shards_ok_empty: "shards_ok 0 (empty_manager config)"
  by (simp add: shards_ok_def empty_manager_def group_of_def shards_on_def NewConsistentHash_def ring_ok_def)

lemma init_shards_ok:
  assumes "fold (init_shard exec now) [0..<n] (empty_manager config, w) = (sm, w')"
  shows "shards_ok n sm \<and> smConfig sm = config \<and> chVirtualNodes (smRing sm) = cfVirtualNodes config
   \<and> (0 < n \<longrightarrow> 0 < cfVirtualNodes config \<longrightarrow> chNodes (smRing sm) \<noteq> [])"
  using assms
proof (induction n arbitrary: sm w')
  case 0
  then show ?case using shards_ok_empty [of config] by (auto simp: empty_manager_def NewConsistentHash_def)
next
  case (Suc n)
  obtain sm0 w0 where f: "fold (init_shard exec now) [0..<n] (empty_manager config, w) = (sm0, w0)" by fastforce
  with Suc.prems have e: "init_shard exec now n (sm0, w0) = (sm, w')" by simp
  have s: "\<exists>s :: shard_info. smRing sm = AddNode (siNode s) (smRing sm0) \<and> smConfig sm = smConfig sm0"
    by (rule init_shard_shape [OF e]) blast
  have "shards_ok (Suc n) sm" using init_shard_ok [OF _ e] Suc.IH [OF f] by blast
  with Suc.IH [OF f] s show ?case by (auto simp: AddNode_nonempty)
qed

lemma NewShardManager_ok:
  assumes new: "NewShardManager exec now config w = Returns (sm, w')"
    and n: "0 < cfShardCount config" "cfShardCount config < 2 ^ 31" "0 < cfVirtualNodes config"
  shows "manager_ok sm"
proof -
  obtain sm0 w0 where f: "fold (init_shard exec now) [0..<nat (cfShardCount config)] (empty_manager config, w) = (sm0, w0)"
    by fastforce
  with new have sm: "sm = sm0\<lparr>smRunning := True\<rparr>"
    by (auto simp: NewShardManager_def Let_def split: if_splits)
  from init_shards_ok [OF f] n show ?thesis by (simp add: manager_ok_def shards_ok_def sm)
qed

section \<open>Routing is total and stable\<close>

lemma manager_ok_same_routing:
  "manager_ok sm \<Longrightarrow> shards_ok (nat (cfShardCount (smConfig sm))) sm' \<Longrightarrow> same_routing sm sm' \<Longrightarrow> manager_ok sm'"
  by (simp add: manager_ok_def same_routing_def)

lemma GetShardForKey_same_routing: "same_routing sm sm' \<Longrightarrow> GetShardForKey sm' key = GetShardForKey sm key"
  by (auto simp: GetShardForKey_def same_routing_def split: sum.split)

lemma card_shards_on:
  assumes "shards_ok n sm"
  shows "length (group_of (smNodeToShards sm) node) \<le> n"
proof -
  have "dom (gm_get (smShards sm)) = int ` {..<n}"
    and g: "distinct (group_of (smNodeToShards sm) node)"
      "set (group_of (smNodeToShards sm) node) = shards_on (smShards sm) node"
    using assms by (simp_all add: shards_ok_def)
  then have "shards_on (smShards sm) node \<subseteq> int ` {..<n}" by (auto simp: shards_on_def)
  then have "card (shards_on (smShards sm) node) \<le> card (int ` {..<n})" by (rule card_mono [rotated]) simp
  then show ?thesis using distinct_card [OF g(1)] g(2) by (simp add: card_image)
qed

lemma unat_mod_less: "0 < n \<Longrightarrow> n < 2 ^ 32 \<Longrightarrow> unat ((x :: u32) mod of_nat n) < n"
  by (simp add: unat_mod_distrib unat_of_nat take_bit_nat_eq_self)

lemma GetShardForKey_valid:
  assumes ok: "manager_ok sm"
  obtains i node shard where "GetShardForKey sm key = Inr i" "0 \<le> i" "i < cfShardCount (smConfig sm)"
    "GetNode (smRing sm) key = Inr node" "gm_get (smShards sm) i = Some shard" "siNode shard = node"
proof -
  let ?n = "nat (cfShardCount (smConfig sm))"
  have sh: "shards_ok ?n sm" and ne: "chNodes (smRing sm) \<noteq> []" and n: "?n < 2 ^ 32"
    using ok by (auto simp: manager_ok_def)
  have ring: "ring_ok (smRing sm)" using sh by (simp add: shards_ok_def)
  obtain k node where k: "gm_get (chNodes (smRing sm)) k = Some node" "GetNode (smRing sm) key = Inr node"
    using GetNode_owner [OF ring ne] by metis
  let ?g = "group_of (smNodeToShards sm) node"
  have g: "?g \<noteq> []" "set ?g = shards_on (smShards sm) node"
    using sh k(1) unfolding shards_ok_def by blast+
  let ?i = "?g ! unat (crc32Hash key mod of_nat (length ?g))"
  have "length ?g < 2 ^ 32" using card_shards_on [OF sh, of node] n by (rule le_less_trans)
  with g(1) have "?i \<in> set ?g" by (intro nth_mem unat_mod_less) auto
  then have i: "?i \<in> shards_on (smShards sm) node" using g(2) by simp
  have r: "GetShardForKey sm key = Inr ?i"
    using k(2) g(1) by (auto simp: GetShardForKey_def group_of_def split: option.splits)
  obtain shard where s: "gm_get (smShards sm) ?i = Some shard" "siNode shard = node"
    using i by (auto simp: shards_on_def)
  then have "?i \<in> int ` {..<?n}" using sh unfolding shards_ok_def by (metis domI)
  then have "0 \<le> ?i" "?i < cfShardCount (smConfig sm)" using ok by (auto simp: manager_ok_def)
  with that r k(2) s show thesis by blast
qed

text \<open>The adapter handed out for a shard is a connection to its node and to its own database.\<close>

lemma GetShardAdapter_Inr:
  assumes "shards_ok n sm" "GetShardAdapter sm i = Inr c"
  obtains shard where "gm_get (smAdapters sm) i = Some c" "gm_get (smShards sm) i = Some shard"
    "siStatus shard = ''active''" "cAddr c = siNode shard" "cDB c = cfRedisDB (smConfig sm) + i"
proof -
  from assms(2) obtain shard where s: "gm_get (smAdapters sm) i = Some c" "gm_get (smShards sm) i = Some shard"
    "siStatus shard = ''active''"
    by (auto simp: GetShardAdapter_def split: option.splits if_splits)
  moreover have "cDB c = cfRedisDB (smConfig sm) + i \<and> i \<in> shards_on (smShards sm) (cAddr c)"
    using assms(1) s(1) unfolding shards_ok_def by blast
  ultimately show thesis by (intro that [of shard]) (auto simp: shards_on_def)
qed

lemma GetShardAdapter_active:
  assumes "shards_ok n sm" "gm_get (smShards sm) i = Some shard" "siStatus shard = ''active''"
  shows "\<exists>c. GetShardAdapter sm i = Inr c"
proof -
  have "gm_get (smAdapters sm) i \<noteq> None" using assms unfolding shards_ok_def by blast
  with assms(2,3) show ?thesis by (auto simp: GetShardAdapter_def)
qed

section \<open>Interface: routing to databases\<close>

text \<open>
  What the service relies on when it sends a key to a shard: some shard is always named, the
  same one whatever happens to the shards' health, and each shard has a database of its own
  that stays where it is (\<open>home\<close>), whether or not its adapter is handed out at the moment.
\<close>

locale shard_router =
  fixes ok :: "'s \<Rightarrow> bool"
    and step :: "'s \<Rightarrow> 's \<Rightarrow> bool"
    and route :: "'s \<Rightarrow> string \<Rightarrow> int res"
    and adapter :: "'s \<Rightarrow> int \<Rightarrow> conn res"
    and home :: "'s \<Rightarrow> int \<Rightarrow> conn option"
  assumes step_ok: "ok s \<Longrightarrow> step s s' \<Longrightarrow> ok s'"
    and route_total: "ok s \<Longrightarrow> \<exists>i. route s k = Inr i"
    and route_step: "ok s \<Longrightarrow> step s s' \<Longrightarrow> route s' k = route s k"
    and adapter_home: "ok s \<Longrightarrow> adapter s i = Inr c \<Longrightarrow> home s i = Some c"
    and home_step: "ok s \<Longrightarrow> step s s' \<Longrightarrow> home s' i = home s i"
    and home_apart: "ok s \<Longrightarrow> home s i = Some c \<Longrightarrow> home s j = Some d \<Longrightarrow>
      (cAddr c, cDB c) = (cAddr d, cDB d) \<Longrightarrow> i = j"
begin

lemma steps_ok: "step\<^sup>*\<^sup>* s s' \<Longrightarrow> ok s \<Longrightarrow> ok s'"
  by (induction rule: rtranclp_induct) (auto intro: step_ok)

lemma steps_route: "step\<^sup>*\<^sup>* s s' \<Longrightarrow> ok s \<Longrightarrow> route s' k = route s k"
  by (induction rule: rtranclp_induct) (metis steps_ok route_step)+

lemma steps_home: "step\<^sup>*\<^sup>* s s' \<Longrightarrow> ok s \<Longrightarrow> home s' i = home s i"
  by (induction rule: rtranclp_induct) (metis steps_ok home_step)+

text \<open>Two visits for the same key, however far apart, end in the same database.\<close>

lemma same_home:
  assumes "ok s" "step\<^sup>*\<^sup>* s s'" "route s k = Inr i" "adapter s i = Inr c"
    "route s' k = Inr j" "adapter s' j = Inr d"
  shows "i = j \<and> c = d"
proof -
  have "i = j" using steps_route [OF assms(2,1), of k] assms(3,5) by simp
  moreover have "home s i = Some c" "home s' j = Some d"
    using adapter_home assms steps_ok by metis+
  ultimately show ?thesis using steps_home [OF assms(2,1)] by simp
qed

text \<open>Keys of different shards end in different databases.\<close>

lemma apart:
  assumes "ok s" "adapter s i = Inr c" "adapter s j = Inr d" "i \<noteq> j"
  shows "(cAddr c, cDB c) \<noteq> (cAddr d, cDB d)"
  using home_apart [OF assms(1)] adapter_home [OF assms(1)] assms(2-4) by metis

end

section \<open>The shard manager provides it\<close>

text \<open>One thing happening to a manager: a health check, a new list of replicas, the end.\<close>

inductive shard_step :: "'w redis \<Rightarrow> shard_manager \<Rightarrow> shard_manager \<Rightarrow> bool" for exec where
  health: "performHealthCheck exec order now sm w = (sm', w') \<Longrightarrow> shard_step exec sm sm'"
| replicas: "UpdateShardReplicas sm i rs = (e, sm') \<Longrightarrow> shard_step exec sm sm'"
| close: "Close sm = (sm', cs) \<Longrightarrow> shard_step exec sm sm'"

lemma shard_step_ok: "shard_step exec sm sm' \<Longrightarrow> shards_ok n sm \<Longrightarrow> shards_ok n sm' \<and> same_routing sm sm'"
  by (induction rule: shard_step.induct) (blast dest: performHealthCheck_ok UpdateShardReplicas_ok Close_ok)+

definition shard_home :: "shard_manager \<Rightarrow> int \<Rightarrow> conn option" where
  "shard_home sm i = gm_get (smAdapters sm) i"

lemma shard_home_DB: "shards_ok n sm \<Longrightarrow> shard_home sm i = Some c \<Longrightarrow> cDB c = cfRedisDB (smConfig sm) + i"
  unfolding shards_ok_def shard_home_def by blast

lemma manager_ok_shards: "manager_ok sm \<Longrightarrow> shards_ok (nat (cfShardCount (smConfig sm))) sm"
  by (simp add: manager_ok_def)

lemma manager_step_ok: "manager_ok sm \<Longrightarrow> shard_step exec sm sm' \<Longrightarrow> manager_ok sm' \<and> same_routing sm sm'"
  using shard_step_ok manager_ok_same_routing manager_ok_shards by blast

interpretation shards: shard_router manager_ok "shard_step exec" GetShardForKey GetShardAdapter shard_home for exec :: "'w redis"
proof
  fix s s' k assume s: "manager_ok s"
  show "\<exists>i. GetShardForKey s k = Inr i" by (rule GetShardForKey_valid [OF s, of k]) blast
  { fix i c assume "GetShardAdapter s i = Inr c"
    then show "shard_home s i = Some c"
      by (rule GetShardAdapter_Inr [OF manager_ok_shards [OF s]]) (simp add: shard_home_def) }
  { fix i c j d assume "shard_home s i = Some c" "shard_home s j = Some d" "(cAddr c, cDB c) = (cAddr d, cDB d)"
    then show "i = j" using shard_home_DB [OF manager_ok_shards [OF s]] by fastforce }
  { assume st: "shard_step exec s s'"
    from manager_step_ok [OF s this] show "manager_ok s'" by blast
    show "GetShardForKey s' k = GetShardForKey s k"
      using manager_step_ok [OF s st] GetShardForKey_same_routing by blast
    fix i show "shard_home s' i = shard_home s i"
      using manager_step_ok [OF s st] by (simp add: shard_home_def same_routing_def) }
qed

text \<open>What every handler does first: the shard of a key, then its adapter.\<close>

definition locate :: "shard_manager \<Rightarrow> string \<Rightarrow> (int \<times> conn) res" where
  "locate sm key =
     (case GetShardForKey sm key of
        Inl e \<Rightarrow> Inl e
      | Inr shardID \<Rightarrow> (case GetShardAdapter sm shardID of Inl e \<Rightarrow> Inl e | Inr adapter \<Rightarrow> Inr (shardID, adapter)))"

lemma locate_Inr: "locate sm key = Inr (i, c) \<longleftrightarrow> GetShardForKey sm key = Inr i \<and> GetShardAdapter sm i = Inr c"
  by (auto simp: locate_def split: sum.splits)

end
