(* ===== verification/Replication.thy ===== *)
theory Replication
  imports Redis_Adapter
begin

text \<open>
  \<open>internal/replication/manager.go\<close>: the replicas of each shard, the copying of writes to
  them, their health, and the replication log. The goroutines of a replicated write touch
  different replicas; each is one step here and the order they run in is a parameter. The
  clock is a parameter: \<open>now what addr\<close> is the time read for that purpose and that replica.
\<close>

section \<open>State\<close>

record replica_node =
  rnID :: string
  rnAddress :: string
  rnRole :: string
  rnStatus :: string
  rnLag :: int
  rnLastSync :: int

record replication_config =
  rcReplicationFactor :: int
  rcSyncInterval :: int
  rcMaxLag :: int
  rcFailoverTimeout :: int
  rcRedisPassword :: string
  rcRedisDB :: int

record replication_entry =
  reTimestamp :: int
  reShardID :: int
  reOperation :: string
  reKey :: string
  reSuccess :: bool

record replication_manager =
  rmReplicas :: "(int, replica_node list) gomap"
  rmPrimaryNodes :: "(int, string) gomap"
  rmAdapters :: "(string, conn) gomap"
  rmConfig :: replication_config
  rmRunning :: bool
  rmLog :: "replication_entry list"

type_synonym clock = "string \<Rightarrow> string \<Rightarrow> int"

text \<open>The ticker of the monitor panics on an interval that is not positive.\<close>

definition NewManager :: "replication_config \<Rightarrow> replication_manager outcome" where
  "NewManager config =
     (if rcSyncInterval config \<le> 0 then Crashes ''non-positive interval for NewTicker''
      else Returns \<lparr>rmReplicas = [], rmPrimaryNodes = [], rmAdapters = [], rmConfig = config,
                    rmRunning = True, rmLog = []\<rparr>)"

section \<open>Registration\<close>

text \<open>The shard's list is created first, and stays when the registration fails.\<close>

definition RegisterReplica :: "'w redis \<Rightarrow> int \<Rightarrow> replica_node \<Rightarrow> replication_manager \<times> 'w
    \<Rightarrow> string option \<times> replication_manager \<times> 'w" where
  "RegisterReplica exec shardID node mw =
     (let m = fst mw; w = snd mw;
          m = (if gm_get (rmReplicas m) shardID = None then m\<lparr>rmReplicas := gm_put shardID [] (rmReplicas m)\<rparr> else m)
      in if \<exists>existing \<in> set (group_of (rmReplicas m) shardID). rnAddress existing = rnAddress node
         then (Some (''replica already registered: '' @ rnAddress node), m, w)
         else case NewRedisAdapter exec (rnAddress node) (rcRedisPassword (rmConfig m))
                     (rcRedisDB (rmConfig m) + shardID) w of
           (Inl e, w') \<Rightarrow> (Some (''failed to create adapter for replica: '' @ e), m, w')
         | (Inr adapter, w') \<Rightarrow>
             (None,
              m\<lparr>rmAdapters := gm_put (rnAddress node) adapter (rmAdapters m),
                rmReplicas := append_group shardID node (rmReplicas m),
                rmPrimaryNodes := (if rnRole node = ''primary''
                  then gm_put shardID (rnAddress node) (rmPrimaryNodes m) else rmPrimaryNodes m)\<rparr>, w'))"

section \<open>Bookkeeping\<close>

text \<open>\<open>for \<dots> if \<dots> { \<dots>; break }\<close>: the first element that satisfies the test.\<close>

fun update_first :: "('a \<Rightarrow> bool) \<Rightarrow> ('a \<Rightarrow> 'a) \<Rightarrow> 'a list \<Rightarrow> 'a list" where
  "update_first p f [] = []"
| "update_first p f (x # xs) = (if p x then f x # xs else x # update_first p f xs)"

definition update_replica :: "int \<Rightarrow> string \<Rightarrow> (replica_node \<Rightarrow> replica_node) \<Rightarrow> replication_manager \<Rightarrow> replication_manager" where
  "update_replica shardID address f m =
     (case gm_get (rmReplicas m) shardID of
        None \<Rightarrow> m
      | Some replicas \<Rightarrow>
          m\<lparr>rmReplicas := gm_put shardID (update_first (\<lambda>r. rnAddress r = address) f replicas) (rmReplicas m)\<rparr>)"

definition markReplicaFailed :: "int \<Rightarrow> string \<Rightarrow> replication_manager \<Rightarrow> replication_manager" where
  "markReplicaFailed shardID address = update_replica shardID address (\<lambda>r. r\<lparr>rnStatus := ''failed''\<rparr>)"

definition updateReplicaSync :: "int \<Rightarrow> int \<Rightarrow> string \<Rightarrow> replication_manager \<Rightarrow> replication_manager" where
  "updateReplicaSync now shardID address = update_replica shardID address (\<lambda>r. r\<lparr>rnLastSync := now, rnLag := 0\<rparr>)"

definition logReplication :: "int \<Rightarrow> int \<Rightarrow> string \<Rightarrow> string \<Rightarrow> bool \<Rightarrow> replication_manager \<Rightarrow> replication_manager" where
  "logReplication now shardID operation key success m =
     (let entry = \<lparr>reTimestamp = now, reShardID = shardID, reOperation = operation, reKey = key, reSuccess = success\<rparr>;
          entries = rmLog m @ [entry]
      in m\<lparr>rmLog := (if length entries > 10000 then drop 5000 entries else entries)\<rparr>)"

definition GetReplicationLog :: "int \<Rightarrow> replication_manager \<Rightarrow> replication_entry list" where
  "GetReplicationLog limit m =
     (let n = length (rmLog m); k = (if limit \<le> 0 \<or> limit > int n then n else nat limit)
      in drop (n - k) (rmLog m))"

section \<open>Replicated writes\<close>

text \<open>The replicas a write is copied to.\<close>

definition eligible :: "replica_node \<Rightarrow> bool" where
  "eligible replica \<longleftrightarrow> \<not> (rnStatus replica \<noteq> ''active'' \<or> rnRole replica = ''primary'')"

type_synonym replica_order = "replica_node list \<Rightarrow> replica_node list"

text \<open>The goroutines, over the number of errors so far, the manager and the world.\<close>

definition insert_replica :: "'w redis \<Rightarrow> clock \<Rightarrow> string \<Rightarrow> stored_vector \<Rightarrow> int \<Rightarrow> replica_node
    \<Rightarrow> nat \<times> replication_manager \<times> 'w \<Rightarrow> nat \<times> replication_manager \<times> 'w" where
  "insert_replica exec now indexName v shardID r emw =
     (let errors = fst emw; m = fst (snd emw); w = snd (snd emw); addr = rnAddress r
      in case gm_get (rmAdapters m) addr of
           None \<Rightarrow> (Suc errors, m, w)
         | Some adapter \<Rightarrow>
             (case StoreVector exec adapter indexName v w of
                (Some e, w') \<Rightarrow> (Suc errors, markReplicaFailed shardID addr
                    (logReplication (now ''log'' addr) shardID ''insert'' (vID v) False m), w')
              | (None, w') \<Rightarrow> (errors, updateReplicaSync (now ''sync'' addr) shardID addr
                    (logReplication (now ''log'' addr) shardID ''insert'' (vID v) True m), w')))"

definition ReplicateInsert :: "'w redis \<Rightarrow> clock \<Rightarrow> replica_order \<Rightarrow> string \<Rightarrow> stored_vector \<Rightarrow> int
    \<Rightarrow> replication_manager \<times> 'w \<Rightarrow> string option \<times> replication_manager \<times> 'w" where
  "ReplicateInsert exec now order indexName v shardID mw =
     (case fold (insert_replica exec now indexName v shardID)
             (order (filter eligible (group_of (rmReplicas (fst mw)) shardID))) (0, mw) of
        (errors, m, w) \<Rightarrow>
          (if errors > 0 then Some (''replication failed on '' @ fmt_d (int errors) @ '' replicas'') else None, m, w))"

definition ReplicateUpdate :: "'w redis \<Rightarrow> clock \<Rightarrow> replica_order \<Rightarrow> string \<Rightarrow> stored_vector \<Rightarrow> int
    \<Rightarrow> replication_manager \<times> 'w \<Rightarrow> string option \<times> replication_manager \<times> 'w" where
  "ReplicateUpdate = ReplicateInsert"

definition batch_replica :: "'w redis \<Rightarrow> clock \<Rightarrow> string \<Rightarrow> stored_vector list \<Rightarrow> int \<Rightarrow> replica_node
    \<Rightarrow> replication_manager \<times> 'w \<Rightarrow> replication_manager \<times> 'w" where
  "batch_replica exec now indexName vs shardID r mw =
     (let m = fst mw; w = snd mw; addr = rnAddress r
      in case gm_get (rmAdapters m) addr of
           None \<Rightarrow> (m, w)
         | Some adapter \<Rightarrow>
             (case BatchStoreVectors exec adapter indexName vs w of
                (Some e, w') \<Rightarrow> (markReplicaFailed shardID addr m, w')
              | (None, w') \<Rightarrow> (updateReplicaSync (now ''sync'' addr) shardID addr m, w')))"

definition ReplicateBatch :: "'w redis \<Rightarrow> clock \<Rightarrow> replica_order \<Rightarrow> string \<Rightarrow> stored_vector list \<Rightarrow> int
    \<Rightarrow> replication_manager \<times> 'w \<Rightarrow> replication_manager \<times> 'w" where
  "ReplicateBatch exec now order indexName vs shardID mw =
     fold (batch_replica exec now indexName vs shardID)
       (order (filter eligible (group_of (rmReplicas (fst mw)) shardID))) mw"

definition delete_replica :: "'w redis \<Rightarrow> clock \<Rightarrow> string \<Rightarrow> string \<Rightarrow> int \<Rightarrow> replica_node
    \<Rightarrow> replication_manager \<times> 'w \<Rightarrow> replication_manager \<times> 'w" where
  "delete_replica exec now indexName vectorID shardID r mw =
     (let m = fst mw; w = snd mw; addr = rnAddress r
      in case gm_get (rmAdapters m) addr of
           None \<Rightarrow> (m, w)
         | Some adapter \<Rightarrow>
             (case DeleteVector exec adapter indexName vectorID w of
                (Some e, w') \<Rightarrow> (logReplication (now ''log'' addr) shardID ''delete'' vectorID False m, w')
              | (None, w') \<Rightarrow> (updateReplicaSync (now ''sync'' addr) shardID addr
                    (logReplication (now ''log'' addr) shardID ''delete'' vectorID True m), w')))"

definition ReplicateDelete :: "'w redis \<Rightarrow> clock \<Rightarrow> replica_order \<Rightarrow> string \<Rightarrow> string \<Rightarrow> int
    \<Rightarrow> replication_manager \<times> 'w \<Rightarrow> replication_manager \<times> 'w" where
  "ReplicateDelete exec now order indexName vectorID shardID mw =
     fold (delete_replica exec now indexName vectorID shardID)
       (order (filter eligible (group_of (rmReplicas (fst mw)) shardID))) mw"

definition batch_delete_replica :: "'w redis \<Rightarrow> clock \<Rightarrow> string \<Rightarrow> string list \<Rightarrow> int \<Rightarrow> replica_node
    \<Rightarrow> replication_manager \<times> 'w \<Rightarrow> replication_manager \<times> 'w" where
  "batch_delete_replica exec now indexName vectorIDs shardID r mw =
     (let m = fst mw; w = snd mw; addr = rnAddress r
      in case gm_get (rmAdapters m) addr of
           None \<Rightarrow> (m, w)
         | Some adapter \<Rightarrow>
             (case BatchDeleteVectors exec adapter indexName vectorIDs w of
                (Inl e, w') \<Rightarrow> (m, w')
              | (Inr _, w') \<Rightarrow> (updateReplicaSync (now ''sync'' addr) shardID addr m, w')))"

definition ReplicateBatchDelete :: "'w redis \<Rightarrow> clock \<Rightarrow> replica_order \<Rightarrow> string \<Rightarrow> string list \<Rightarrow> int
    \<Rightarrow> replication_manager \<times> 'w \<Rightarrow> replication_manager \<times> 'w" where
  "ReplicateBatchDelete exec now order indexName vectorIDs shardID mw =
     fold (batch_delete_replica exec now indexName vectorIDs shardID)
       (order (filter eligible (group_of (rmReplicas (fst mw)) shardID))) mw"

section \<open>Roles and health\<close>

text \<open>A missing primary reads as the empty string.\<close>

definition primary_of :: "replication_manager \<Rightarrow> int \<Rightarrow> string" where
  "primary_of m shardID = (case gm_get (rmPrimaryNodes m) shardID of None \<Rightarrow> [] | Some a \<Rightarrow> a)"

definition PromoteReplica :: "int \<Rightarrow> string \<Rightarrow> replication_manager \<Rightarrow> string option \<times> replication_manager" where
  "PromoteReplica shardID replicaAddress m =
     (case gm_get (rmReplicas m) shardID of
        None \<Rightarrow> (Some (''no replicas for shard '' @ fmt_d shardID), m)
      | Some replicas \<Rightarrow>
          (case find (\<lambda>r. rnAddress r = replicaAddress) replicas of
             None \<Rightarrow> (Some (''replica not found: '' @ replicaAddress), m)
           | Some targetReplica \<Rightarrow>
               if rnStatus targetReplica \<noteq> ''active''
               then (Some (''cannot promote inactive replica: '' @ replicaAddress), m)
               else let oldPrimary = primary_of m shardID;
                        swap_role = (\<lambda>r. if rnAddress r = oldPrimary then r\<lparr>rnRole := ''secondary''\<rparr>
                                         else if rnAddress r = replicaAddress then r\<lparr>rnRole := ''primary''\<rparr> else r)
                    in (None, m\<lparr>rmReplicas := gm_put shardID (map swap_role replicas) (rmReplicas m),
                               rmPrimaryNodes := gm_put shardID replicaAddress (rmPrimaryNodes m)\<rparr>)))"

definition GetReplicaStatus :: "int \<Rightarrow> replication_manager \<Rightarrow> replica_node list res" where
  "GetReplicaStatus shardID m =
     (case gm_get (rmReplicas m) shardID of
        None \<Rightarrow> Inl (''no replicas for shard '' @ fmt_d shardID)
      | Some replicas \<Rightarrow> Inr replicas)"

text \<open>
  The shared nodes are read as the walk reaches them; \<open>age\<close> is \<open>time.Since\<close>, whose clock may have moved on
  from one shard and address to the next.
\<close>

definition check_replica :: "(string \<Rightarrow> int \<Rightarrow> int) \<Rightarrow> int \<Rightarrow> nat \<Rightarrow> replication_manager \<Rightarrow> replication_manager" where
  "check_replica age shardID i m =
     (let replica = group_of (rmReplicas m) shardID ! i; lag = age (rnAddress replica) (rnLastSync replica)
      in if rnRole replica = ''primary'' then m
         else if lag > rcMaxLag (rmConfig m)
         then if lag > rcFailoverTimeout (rmConfig m) then markReplicaFailed shardID (rnAddress replica) m else m
         else m)"

definition check_shard_replicas :: "(string \<Rightarrow> int \<Rightarrow> int) \<Rightarrow> int \<Rightarrow> replication_manager \<Rightarrow> replication_manager" where
  "check_shard_replicas age shardID m =
     fold (check_replica age shardID) [0..<length (group_of (rmReplicas m) shardID)] m"

definition checkReplicaHealth :: "(int list \<Rightarrow> int list) \<Rightarrow> (int \<Rightarrow> string \<Rightarrow> int \<Rightarrow> int)
    \<Rightarrow> replication_manager \<Rightarrow> replication_manager" where
  "checkReplicaHealth order age m = fold (\<lambda>s. check_shard_replicas (age s) s) (order (map fst (rmReplicas m))) m"

text \<open>\<open>Close\<close> stops the monitor; the second component is the connections it closes.\<close>

definition CloseManager :: "replication_manager \<Rightarrow> replication_manager \<times> conn list" where
  "CloseManager m = (m\<lparr>rmRunning := False\<rparr>, map snd (rmAdapters m))"

section \<open>Invariant\<close>

text \<open>
  A shard lists an address once; every listed replica has an adapter, which is a connection
  to its address; a shard's primary is one of its replicas; the log stays bounded.
\<close>

definition rep_ok :: "replication_manager \<Rightarrow> bool" where
  "rep_ok m \<longleftrightarrow> gm_ok (rmReplicas m) \<and> gm_ok (rmPrimaryNodes m) \<and> gm_ok (rmAdapters m)
     \<and> (\<forall>s. distinct (map rnAddress (group_of (rmReplicas m) s)))
     \<and> (\<forall>s. rnAddress ` set (group_of (rmReplicas m) s) \<subseteq> dom (gm_get (rmAdapters m)))
     \<and> (\<forall>a c. gm_get (rmAdapters m) a = Some c \<longrightarrow> cAddr c = a)
     \<and> (\<forall>s a. gm_get (rmPrimaryNodes m) s = Some a \<longrightarrow> a \<in> rnAddress ` set (group_of (rmReplicas m) s))
     \<and> length (rmLog m) \<le> 10000"

text \<open>
  What writes and health checks may do to the replicas: nothing but refresh them or mark
  them failed.
\<close>

definition ages :: "replica_node \<Rightarrow> replica_node \<Rightarrow> bool" where
  "ages r r' \<longleftrightarrow> rnID r' = rnID r \<and> rnAddress r' = rnAddress r \<and> rnRole r' = rnRole r
     \<and> (rnStatus r' = rnStatus r \<or> rnStatus r' = ''failed'') \<and> (rnLag r' = rnLag r \<or> rnLag r' = 0)"

definition evolves :: "replication_manager \<Rightarrow> replication_manager \<Rightarrow> bool" where
  "evolves m m' \<longleftrightarrow> rmAdapters m' = rmAdapters m \<and> rmPrimaryNodes m' = rmPrimaryNodes m \<and> rmConfig m' = rmConfig m
     \<and> (\<forall>s. list_all2 ages (group_of (rmReplicas m) s) (group_of (rmReplicas m') s))"

lemma ages_refl [simp]: "ages r r"
  by (simp add: ages_def)

lemma ages_trans: "ages a b \<Longrightarrow> ages b c \<Longrightarrow> ages a c"
  by (auto simp: ages_def)

lemma evolves_refl [simp]: "evolves m m"
  by (simp add: evolves_def list_all2_refl)

lemma evolves_trans: "evolves a b \<Longrightarrow> evolves b c \<Longrightarrow> evolves a c"
  unfolding evolves_def by (metis (no_types, lifting) ages_trans list_all2_trans)

lemma ages_addresses: "list_all2 ages rs rs' \<Longrightarrow> map rnAddress rs' = map rnAddress rs"
  by (induction rule: list_all2_induct) (simp_all add: ages_def)

lemma evolves_addresses: "evolves m m' \<Longrightarrow> map rnAddress (group_of (rmReplicas m') s) = map rnAddress (group_of (rmReplicas m) s)"
  by (simp add: evolves_def ages_addresses)

lemma evolves_ok:
  assumes "rep_ok m" "evolves m m'" "gm_ok (rmReplicas m')" "length (rmLog m') \<le> 10000"
  shows "rep_ok m'"
proof -
  have "map rnAddress (group_of (rmReplicas m') s) = map rnAddress (group_of (rmReplicas m) s)" for s
    by (rule evolves_addresses [OF assms(2)])
  moreover from this have "rnAddress ` set (group_of (rmReplicas m') s) = rnAddress ` set (group_of (rmReplicas m) s)" for s
    by (metis list.set_map)
  ultimately show ?thesis using assms by (simp add: rep_ok_def evolves_def)
qed

text \<open>Updating the first match: at most one element changes, to its image.\<close>

lemma update_first_ages: "(\<And>r. ages r (f r)) \<Longrightarrow> list_all2 ages rs (update_first p f rs)"
  by (induction rs) (auto simp: list_all2_refl)

lemma group_of_put: "group_of (gm_put k xs groups) k' = (if k' = k then xs else group_of groups k')"
  by (simp add: group_of_def gomap_simps)

lemma update_replica_group:
  "group_of (rmReplicas (update_replica s a f m)) s' =
     (if s' = s then update_first (\<lambda>r. rnAddress r = a) f (group_of (rmReplicas m) s) else group_of (rmReplicas m) s')"
  by (auto simp: update_replica_def group_of_def gomap_simps split: option.splits)

lemma update_replica_rest:
  "rmAdapters (update_replica s a f m) = rmAdapters m" "rmPrimaryNodes (update_replica s a f m) = rmPrimaryNodes m"
  "rmConfig (update_replica s a f m) = rmConfig m" "rmLog (update_replica s a f m) = rmLog m"
  "gm_ok (rmReplicas m) \<Longrightarrow> gm_ok (rmReplicas (update_replica s a f m))"
  by (simp_all add: update_replica_def split: option.splits)

text \<open>An operation that keeps the invariant and only ages the replicas.\<close>

definition steady :: "replication_manager \<Rightarrow> replication_manager \<Rightarrow> bool" where
  "steady m m' \<longleftrightarrow> (rep_ok m \<longrightarrow> rep_ok m' \<and> evolves m m')"

lemma steady_refl [simp]: "steady m m"
  by (simp add: steady_def)

lemma steady_trans: "steady a b \<Longrightarrow> steady b c \<Longrightarrow> steady a c"
  using evolves_trans by (auto simp: steady_def)

lemma steady_fold: "(\<And>x s. steady (p s) (p (f x s))) \<Longrightarrow> steady (p s) (p (fold f xs s))"
  using fold_preorder [of xs "\<lambda>a b. steady (p a) (p b)" f s] steady_trans by auto

lemma steady_update: "(\<And>r. ages r (f r)) \<Longrightarrow> steady m (update_replica s a f m)"
proof -
  assume f: "\<And>r. ages r (f r)"
  have e: "evolves m (update_replica s a f m)"
    using f by (simp add: evolves_def update_replica_rest update_replica_group update_first_ages list_all2_refl)
  show ?thesis unfolding steady_def
  proof
    assume ok: "rep_ok m"
    from ok have "gm_ok (rmReplicas (update_replica s a f m)) \<and> length (rmLog (update_replica s a f m)) \<le> 10000"
      by (simp add: rep_ok_def update_replica_rest)
    with evolves_ok [OF ok e] e show "rep_ok (update_replica s a f m) \<and> evolves m (update_replica s a f m)" by blast
  qed
qed

lemma steady_mark [simp]: "steady m (markReplicaFailed s a m)"
  unfolding markReplicaFailed_def by (rule steady_update) (simp add: ages_def)

lemma steady_sync [simp]: "steady m (updateReplicaSync t s a m)"
  unfolding updateReplicaSync_def by (rule steady_update) (simp add: ages_def)

lemma logReplication_bound: "length (rmLog m) \<le> 10000 \<Longrightarrow> length (rmLog (logReplication t s oper k b m)) \<le> 10000"
  unfolding logReplication_def Let_def by simp arith

lemma steady_log [simp]: "steady m (logReplication t s oper k b m)"
  unfolding steady_def
proof
  assume ok: "rep_ok m"
  have e: "evolves m (logReplication t s oper k b m)"
    by (simp add: logReplication_def Let_def evolves_def list_all2_refl)
  from ok have "gm_ok (rmReplicas (logReplication t s oper k b m))"
    "length (rmLog (logReplication t s oper k b m)) \<le> 10000"
    by (simp_all add: rep_ok_def logReplication_bound) (simp add: logReplication_def Let_def)
  with evolves_ok [OF ok e] e show "rep_ok (logReplication t s oper k b m) \<and> evolves m (logReplication t s oper k b m)"
    by blast
qed

text \<open>The goroutines log and then note the outcome.\<close>

lemma steady_log_mark [simp]: "steady m (markReplicaFailed s a (logReplication t s' oper k b m))"
  by (rule steady_trans [OF steady_log steady_mark])

lemma steady_log_sync [simp]: "steady m (updateReplicaSync t' s a (logReplication t s' oper k b m))"
  by (rule steady_trans [OF steady_log steady_sync])

lemma steady_insert_replica: "steady (fst (snd emw)) (fst (snd (insert_replica exec now i v s r emw)))"
  by (simp add: insert_replica_def Let_def split: option.split prod.split)

lemma steady_ReplicateInsert:
  assumes "ReplicateInsert exec now order i v s (m, w) = (e, m', w')"
  shows "steady m m'"
  using steady_fold [where p = "\<lambda>x. fst (snd x)" and f = "insert_replica exec now i v s" and s = "(0, m, w)",
      OF steady_insert_replica, of "order (filter eligible (group_of (rmReplicas m) s))"] assms
  by (simp add: ReplicateInsert_def split: prod.splits)

lemma steady_ReplicateBatch: "steady (fst mw) (fst (ReplicateBatch exec now order i vs s mw))"
  unfolding ReplicateBatch_def
  by (rule steady_fold [where p = fst]) (simp add: batch_replica_def Let_def split: option.split prod.split)

lemma steady_ReplicateDelete: "steady (fst mw) (fst (ReplicateDelete exec now order i a s mw))"
  unfolding ReplicateDelete_def
  by (rule steady_fold [where p = fst]) (simp add: delete_replica_def Let_def split: option.split prod.split)

lemma steady_ReplicateBatchDelete: "steady (fst mw) (fst (ReplicateBatchDelete exec now order i ids s mw))"
  unfolding ReplicateBatchDelete_def
  by (rule steady_fold [where p = fst])
    (simp add: batch_delete_replica_def Let_def split: option.split prod.split sum.split)

lemma steady_check_replica: "steady m (check_replica age s i m)"
  by (simp add: check_replica_def Let_def)

lemma steady_check_shard: "steady m (check_shard_replicas age s m)"
  unfolding check_shard_replicas_def by (rule steady_fold [where p = "\<lambda>m. m"]) (rule steady_check_replica)

lemma steady_checkReplicaHealth: "steady m (checkReplicaHealth order age m)"
  unfolding checkReplicaHealth_def by (rule steady_fold [where p = "\<lambda>m. m"]) (rule steady_check_shard)

section \<open>Registration and promotion\<close>

lemma rep_okD:
  assumes "rep_ok m"
  shows "gm_ok (rmReplicas m)" "gm_ok (rmPrimaryNodes m)" "gm_ok (rmAdapters m)"
    "distinct (map rnAddress (group_of (rmReplicas m) s))"
    "rnAddress ` set (group_of (rmReplicas m) s) \<subseteq> dom (gm_get (rmAdapters m))"
    "gm_get (rmAdapters m) a = Some c \<Longrightarrow> cAddr c = a"
    "gm_get (rmPrimaryNodes m) s = Some a \<Longrightarrow> a \<in> rnAddress ` set (group_of (rmReplicas m) s)"
    "length (rmLog m) \<le> 10000"
  using assms unfolding rep_ok_def by blast+

lemma rep_okI:
  assumes "gm_ok (rmReplicas m)" "gm_ok (rmPrimaryNodes m)" "gm_ok (rmAdapters m)"
    "\<And>s. distinct (map rnAddress (group_of (rmReplicas m) s))"
    "\<And>s. rnAddress ` set (group_of (rmReplicas m) s) \<subseteq> dom (gm_get (rmAdapters m))"
    "\<And>a c. gm_get (rmAdapters m) a = Some c \<Longrightarrow> cAddr c = a"
    "\<And>s a. gm_get (rmPrimaryNodes m) s = Some a \<Longrightarrow> a \<in> rnAddress ` set (group_of (rmReplicas m) s)"
    "length (rmLog m) \<le> 10000"
  shows "rep_ok m"
  unfolding rep_ok_def using assms by blast

lemma NewManager_ok: "NewManager config = Returns m \<Longrightarrow> rep_ok m"
  by (auto simp: NewManager_def rep_ok_def group_of_def split: if_splits)

lemma Close_rep_ok: "rep_ok m \<Longrightarrow> rep_ok (fst (CloseManager m))"
  by (simp add: CloseManager_def rep_ok_def)

lemma NewRedisAdapter_addr: "NewRedisAdapter exec a p d w = (Inr c, w') \<Longrightarrow> c = \<lparr>cAddr = a, cPassword = p, cDB = d\<rparr>"
  by (auto simp: NewRedisAdapter_def GetClient_def Let_def split: prod.splits sum.splits)

text \<open>A registration that succeeds adds the replica at the end of its shard's list.\<close>

lemma RegisterReplica_None:
  assumes "RegisterReplica exec s node (m, w) = (None, m', w')"
  shows "\<forall>r \<in> set (group_of (rmReplicas m) s). rnAddress r \<noteq> rnAddress node"
    "group_of (rmReplicas m') s' = (if s' = s then group_of (rmReplicas m) s @ [node] else group_of (rmReplicas m) s')"
    "rmAdapters m' = gm_put (rnAddress node) \<lparr>cAddr = rnAddress node, cPassword = rcRedisPassword (rmConfig m),
       cDB = rcRedisDB (rmConfig m) + s\<rparr> (rmAdapters m)"
    "rmPrimaryNodes m' = (if rnRole node = ''primary'' then gm_put s (rnAddress node) (rmPrimaryNodes m) else rmPrimaryNodes m)"
    "rmConfig m' = rmConfig m" "rmLog m' = rmLog m" "gm_ok (rmReplicas m) \<Longrightarrow> gm_ok (rmReplicas m')"
  using assms
  by (auto simp: RegisterReplica_def Let_def group_of_put split: if_splits prod.splits sum.splits dest!: NewRedisAdapter_addr)
    (auto simp: group_of_def)

lemma RegisterReplica_Some:
  assumes "RegisterReplica exec s node (m, w) = (Some e, m', w')"
  obtains reps where "m' = m\<lparr>rmReplicas := reps\<rparr>" "\<And>s'. group_of reps s' = group_of (rmReplicas m) s'"
    "gm_ok (rmReplicas m) \<Longrightarrow> gm_ok reps"
proof (cases "gm_get (rmReplicas m) s")
  case None
  with assms have "m' = m\<lparr>rmReplicas := gm_put s [] (rmReplicas m)\<rparr>"
    by (auto simp: RegisterReplica_def Let_def split: if_splits prod.splits sum.splits)
  moreover have "group_of (gm_put s [] (rmReplicas m)) s' = group_of (rmReplicas m) s'" for s'
    using None by (simp add: group_of_def gomap_simps)
  ultimately show thesis using that by auto
next
  case (Some rs)
  with assms have "m' = m\<lparr>rmReplicas := rmReplicas m\<rparr>"
    by (auto simp: RegisterReplica_def Let_def split: if_splits prod.splits sum.splits)
  then show thesis using that by blast
qed

lemma RegisterReplica_ok:
  assumes ok: "rep_ok m" and e: "RegisterReplica exec s node (m, w) = (e, m', w')"
  shows "rep_ok m'"
proof (cases e)
  case (Some x)
  from e [unfolded this] show ?thesis
    by (rule RegisterReplica_Some) (use ok in \<open>simp add: rep_ok_def\<close>)
next
  case None
  note r = RegisterReplica_None [OF e [unfolded None]]
  show ?thesis
  proof (rule rep_okI)
    fix s'
    show "distinct (map rnAddress (group_of (rmReplicas m') s'))"
      using rep_okD(4) [OF ok, of s'] r(1) by (auto simp: r(2))
    show "rnAddress ` set (group_of (rmReplicas m') s') \<subseteq> dom (gm_get (rmAdapters m'))"
      using rep_okD(5) [OF ok, of s'] unfolding r(2,3) gm_dom_put by (cases "s' = s") (simp_all add: subset_insertI2)
    fix x assume "gm_get (rmPrimaryNodes m') s' = Some x"
    then show "x \<in> rnAddress ` set (group_of (rmReplicas m') s')"
      using rep_okD(7) [OF ok, of s' x] unfolding r(2,4) by (auto simp: gomap_simps split: if_splits)
  next
    fix x y assume "gm_get (rmAdapters m') x = Some y"
    then show "cAddr y = x"
      using rep_okD(6) [OF ok, of x y] unfolding r(3) by (auto simp: gomap_simps split: if_splits)
  qed (use rep_okD [OF ok] r(7) in \<open>simp_all add: r(3,4,6)\<close>)
qed

text \<open>The roles of a shard's replicas agree with its recorded primary.\<close>

definition roles_ok :: "int \<Rightarrow> replication_manager \<Rightarrow> bool" where
  "roles_ok s m \<longleftrightarrow> (\<forall>r \<in> set (group_of (rmReplicas m) s).
     rnRole r = ''primary'' \<longleftrightarrow> gm_get (rmPrimaryNodes m) s = Some (rnAddress r))"

text \<open>The role a promotion gives.\<close>

definition new_role :: "string \<Rightarrow> string \<Rightarrow> replica_node \<Rightarrow> replica_node" where
  "new_role oldPrimary address r =
     (if rnAddress r = oldPrimary then r\<lparr>rnRole := ''secondary''\<rparr>
      else if rnAddress r = address then r\<lparr>rnRole := ''primary''\<rparr> else r)"

lemma new_role_rest [simp]: "rnAddress (new_role p a r) = rnAddress r" "rnStatus (new_role p a r) = rnStatus r"
  "rnID (new_role p a r) = rnID r"
  by (simp_all add: new_role_def)

lemma PromoteReplica_None:
  assumes "PromoteReplica s a m = (None, m')"
  shows "\<exists>r \<in> set (group_of (rmReplicas m) s). rnAddress r = a \<and> rnStatus r = ''active''"
    "m' = m\<lparr>rmReplicas := gm_put s (map (new_role (primary_of m s) a) (group_of (rmReplicas m) s)) (rmReplicas m),
            rmPrimaryNodes := gm_put s a (rmPrimaryNodes m)\<rparr>"
proof -
  from assms obtain rs r where g: "gm_get (rmReplicas m) s = Some rs" and f: "find (\<lambda>r. rnAddress r = a) rs = Some r"
    and act: "rnStatus r = ''active''"
    and m': "m' = m\<lparr>rmReplicas := gm_put s (map (\<lambda>r. if rnAddress r = primary_of m s then r\<lparr>rnRole := ''secondary''\<rparr>
        else if rnAddress r = a then r\<lparr>rnRole := ''primary''\<rparr> else r) rs) (rmReplicas m),
        rmPrimaryNodes := gm_put s a (rmPrimaryNodes m)\<rparr>"
    by (auto simp: PromoteReplica_def Let_def split: option.splits if_splits)
  from f have "r \<in> set rs" "rnAddress r = a" by (auto simp: find_Some_iff)
  with g act show "\<exists>r \<in> set (group_of (rmReplicas m) s). rnAddress r = a \<and> rnStatus r = ''active''"
    by (auto simp: group_of_def)
  show "m' = m\<lparr>rmReplicas := gm_put s (map (new_role (primary_of m s) a) (group_of (rmReplicas m) s)) (rmReplicas m),
            rmPrimaryNodes := gm_put s a (rmPrimaryNodes m)\<rparr>"
    using g by (simp add: m' new_role_def [abs_def] group_of_def)
qed

lemma PromoteReplica_Some: "PromoteReplica s a m = (Some e, m') \<Longrightarrow> m' = m"
  by (auto simp: PromoteReplica_def Let_def split: option.splits if_splits)

lemma PromoteReplica_group:
  assumes "PromoteReplica s a m = (None, m')"
  shows "group_of (rmReplicas m') s' =
    (if s' = s then map (new_role (primary_of m s) a) (group_of (rmReplicas m) s) else group_of (rmReplicas m) s')"
  by (simp add: PromoteReplica_None(2) [OF assms] group_of_put)

lemma PromoteReplica_ok:
  assumes "rep_ok m" "PromoteReplica s a m = (e, m')"
  shows "rep_ok m'"
proof (cases e)
  case (Some x)
  with assms PromoteReplica_Some show ?thesis by metis
next
  case None
  note p = assms(2) [unfolded None]
  have addr: "map rnAddress (group_of (rmReplicas m') s') = map rnAddress (group_of (rmReplicas m) s')" for s'
    by (simp add: PromoteReplica_group [OF p] comp_def)
  then have "rnAddress ` set (group_of (rmReplicas m') s') = rnAddress ` set (group_of (rmReplicas m) s')" for s'
    by (metis list.set_map)
  moreover have prim: "gm_get (rmPrimaryNodes m') s' = (if s' = s then Some a else gm_get (rmPrimaryNodes m) s')" for s'
    by (simp add: PromoteReplica_None(2) [OF p] gomap_simps)
  moreover have a: "a \<in> rnAddress ` set (group_of (rmReplicas m) s)" using PromoteReplica_None(1) [OF p] by blast
  ultimately have "gm_get (rmPrimaryNodes m') s' = Some b \<Longrightarrow> b \<in> rnAddress ` set (group_of (rmReplicas m') s')" for s' b
    using rep_okD(7) [OF assms(1), of s' b] by (auto split: if_splits)
  moreover have "rmAdapters m' = rmAdapters m" "rmLog m' = rmLog m" "gm_ok (rmReplicas m')" "gm_ok (rmPrimaryNodes m')"
    using rep_okD [OF assms(1)] by (simp_all add: PromoteReplica_None(2) [OF p])
  ultimately show ?thesis
    using rep_okD [OF assms(1)] by (intro rep_okI) (simp_all only: addr set_map [symmetric])
qed

lemma PromoteReplica_roles:
  assumes "rep_ok m" "roles_ok s m" "PromoteReplica s a m = (None, m')" "a \<noteq> primary_of m s"
  shows "roles_ok s m'" "gm_get (rmPrimaryNodes m') s = Some a"
proof -
  show p: "gm_get (rmPrimaryNodes m') s = Some a"
    by (simp add: PromoteReplica_None(2) [OF assms(3)] gomap_simps)
  have "rnRole (new_role (primary_of m s) a r) = ''primary'' \<longleftrightarrow> Some a = Some (rnAddress (new_role (primary_of m s) a r))"
    if r: "r \<in> set (group_of (rmReplicas m) s)" for r
  proof -
    have old: "rnRole r = ''primary'' \<longrightarrow> rnAddress r = primary_of m s"
      using assms(2) r by (simp add: roles_ok_def primary_of_def)
    show ?thesis
      using assms(4) old
      by (cases "rnAddress r = primary_of m s"; cases "rnAddress r = a") (simp_all add: new_role_def)
  qed
  then show "roles_ok s m'"
    unfolding roles_ok_def p PromoteReplica_group [OF assms(3)] by simp
qed

section \<open>The manager as a state machine\<close>

inductive rep_step :: "'w redis \<Rightarrow> replication_manager \<times> 'w \<Rightarrow> replication_manager \<times> 'w \<Rightarrow> bool" for exec where
  register: "RegisterReplica exec s node (m, w) = (e, m', w') \<Longrightarrow> rep_step exec (m, w) (m', w')"
| insert: "ReplicateInsert exec now order i v s (m, w) = (e, m', w') \<Longrightarrow> rep_step exec (m, w) (m', w')"
| batch: "rep_step exec mw (ReplicateBatch exec now order i vs s mw)"
| delete: "rep_step exec mw (ReplicateDelete exec now order i a s mw)"
| batch_delete: "rep_step exec mw (ReplicateBatchDelete exec now order i ids s mw)"
| promote: "PromoteReplica s a m = (e, m') \<Longrightarrow> rep_step exec (m, w) (m', w)"
| health: "rep_step exec (m, w) (checkReplicaHealth sorder age m, w)"
| close: "CloseManager m = (m', cs) \<Longrightarrow> rep_step exec (m, w) (m', w)"

text \<open>A replica that has been marked failed.\<close>

definition failed :: "int \<Rightarrow> string \<Rightarrow> replication_manager \<Rightarrow> bool" where
  "failed s a m \<longleftrightarrow> (\<exists>r \<in> set (group_of (rmReplicas m) s). rnAddress r = a \<and> rnStatus r = ''failed'')"

lemma evolves_failed: "evolves m m' \<Longrightarrow> failed s a m \<Longrightarrow> failed s a m'"
  unfolding failed_def evolves_def by (metis ages_def list_all2_conv_all_nth in_set_conv_nth)

lemma steady_failed: "steady m m' \<Longrightarrow> rep_ok m \<Longrightarrow> rep_ok m' \<and> (failed s a m \<longrightarrow> failed s a m')"
  using evolves_failed by (auto simp: steady_def)

lemma PromoteReplica_failed: "PromoteReplica s' b m = (e, m') \<Longrightarrow> failed s a m \<Longrightarrow> failed s a m'"
proof (cases e)
  case None
  assume "PromoteReplica s' b m = (e, m')" "failed s a m"
  with PromoteReplica_group [of s' b m m' s] None show ?thesis by (auto simp: failed_def)
qed (auto dest: PromoteReplica_Some)

lemma RegisterReplica_failed:
  assumes "RegisterReplica exec s' node (m, w) = (e, m', w')" "failed s a m"
  shows "failed s a m'"
proof (cases e)
  case None
  with RegisterReplica_None(2) [of exec s' node m w m' w' s] assms show ?thesis by (auto simp: failed_def split: if_splits)
next
  case (Some x)
  from assms(1) [unfolded this] show ?thesis
    by (rule RegisterReplica_Some) (use assms(2) in \<open>simp add: failed_def\<close>)
qed

lemma rep_step_ok: "rep_step exec mw mw' \<Longrightarrow> rep_ok (fst mw) \<Longrightarrow> rep_ok (fst mw') \<and> (failed s a (fst mw) \<longrightarrow> failed s a (fst mw'))"
proof (induction rule: rep_step.induct)
  case register
  then show ?case by (auto dest: RegisterReplica_ok intro: RegisterReplica_failed)
next
  case insert
  then show ?case using steady_failed [OF steady_ReplicateInsert] by fastforce
next
  case promote
  then show ?case by (auto dest: PromoteReplica_ok intro: PromoteReplica_failed)
next
  case (close m m' cs w)
  then show ?case using Close_rep_ok [of m] by (auto simp: CloseManager_def failed_def)
qed (simp_all only: fst_conv,
  (rule steady_failed [OF steady_ReplicateBatch] steady_failed [OF steady_ReplicateDelete]
    steady_failed [OF steady_ReplicateBatchDelete] steady_failed [OF steady_checkReplicaHealth], assumption)+)

lemma rep_steps_ok:
  "(rep_step exec)\<^sup>*\<^sup>* mw mw' \<Longrightarrow> rep_ok (fst mw) \<Longrightarrow> rep_ok (fst mw') \<and> (failed s a (fst mw) \<longrightarrow> failed s a (fst mw'))"
  by (induction rule: rtranclp_induct) (use rep_step_ok in blast)+

section \<open>What the writes do to documents\<close>

lemma store_commands_written:
  "doc_written (store_commands i v x) k y \<Longrightarrow>
     k = vector_key i (vID v) \<and> y = Some x \<or> k = metadata_key i (vID v)"
  by (auto simp: doc_written_def store_commands_def split: option.splits if_splits)

context redis_service
begin

text \<open>A store, whether it succeeds or not, can only leave its own document.\<close>

lemma StoreVector_docs:
  assumes "StoreVector exec c i v w = (e, w')"
  shows "dbDocs (store w' a d) k = dbDocs (store w a d) k
    \<or> (\<exists>x. ToBytes v = Inr x \<and> k = vector_key i (vID v) \<and> dbDocs (store w' a d) k = Some x)
    \<or> k = metadata_key i (vID v)"
proof (cases "ToBytes v")
  case (Inl err)
  with assms show ?thesis by (simp add: StoreVector_def)
next
  case (Inr x)
  with assms obtain r where "exec c (store_commands i v x) w = (r, w')"
    by (auto simp: StoreVector_def exec_error_def split: prod.splits sum.splits)
  from exec_docs [OF this, of a d k] store_commands_written [of i v x k] Inr show ?thesis by blast
qed

text \<open>In particular a document that already holds this vector keeps it.\<close>

lemma StoreVector_keeps:
  assumes "StoreVector exec c i v w = (e, w')" "ToBytes v = Inr x"
    "dbDocs (store w a d) (vector_key i (vID v)) = Some x"
  shows "dbDocs (store w' a d) (vector_key i (vID v)) = Some x"
  using StoreVector_docs [OF assms(1), of a d "vector_key i (vID v)"] assms(2,3) by auto

end

section \<open>A replicated write reaches every replica that stays active\<close>

lemma failed_mark:
  assumes "a \<in> rnAddress ` set (group_of (rmReplicas m) s)"
  shows "failed s a (markReplicaFailed s a m)"
proof -
  have "\<exists>r \<in> set rs. rnAddress r = a \<Longrightarrow>
      \<exists>r \<in> set (update_first (\<lambda>r. rnAddress r = a) (\<lambda>r. r\<lparr>rnStatus := ''failed''\<rparr>) rs). rnAddress r = a \<and> rnStatus r = ''failed''" for rs
    by (induction rs) auto
  then show ?thesis using assms by (auto simp: failed_def markReplicaFailed_def update_replica_group)
qed

lemma logReplication_group [simp]: "group_of (rmReplicas (logReplication t s oper k b m)) s' = group_of (rmReplicas m) s'"
  by (simp add: logReplication_def Let_def)

lemma insert_replica_eq:
  "gm_get (rmAdapters m) (rnAddress r) = Some c \<Longrightarrow> StoreVector exec c i v w = (err, w1) \<Longrightarrow>
   insert_replica exec now i v s r (n, m, w) =
     (let m1 = logReplication (now ''log'' (rnAddress r)) s ''insert'' (vID v) (err = None) m
      in (if err = None then n else Suc n,
          if err = None then updateReplicaSync (now ''sync'' (rnAddress r)) s (rnAddress r) m1
          else markReplicaFailed s (rnAddress r) m1, w1))"
  by (cases err) (simp_all add: insert_replica_def Let_def)

text \<open>The replica's database holds the vector's document.\<close>

definition replica_has :: "('w \<Rightarrow> string \<Rightarrow> int \<Rightarrow> db) \<Rightarrow> string \<Rightarrow> stored_vector \<Rightarrow> string \<Rightarrow> replication_manager \<Rightarrow> 'w \<Rightarrow> bool" where
  "replica_has store i v a m w \<longleftrightarrow> (\<exists>c x. gm_get (rmAdapters m) a = Some c \<and> ToBytes v = Inr x
     \<and> dbDocs (store w (cAddr c) (cDB c)) (vector_key i (vID v)) = Some x)"

lemma replica_has_adapters: "rmAdapters m' = rmAdapters m \<Longrightarrow> replica_has store i v a m' w \<longleftrightarrow> replica_has store i v a m w"
  by (simp add: replica_has_def)

context redis_service
begin

lemma replica_has_keeps:
  "StoreVector exec c i v w = (e, w') \<Longrightarrow> replica_has store i v a m w \<Longrightarrow> replica_has store i v a m w'"
  unfolding replica_has_def using StoreVector_keeps by blast

lemma insert_replica_covers:
  assumes ok: "rep_ok m" and e: "insert_replica exec now i v s r (n, m, w) = (n', m', w')"
    and r: "rnAddress r \<in> rnAddress ` set (group_of (rmReplicas m) s)"
  shows "failed s (rnAddress r) m' \<or> replica_has store i v (rnAddress r) m' w'"
    "replica_has store i v a m w \<Longrightarrow> replica_has store i v a m' w'"
proof -
  obtain c where c: "gm_get (rmAdapters m) (rnAddress r) = Some c" using rep_okD(5) [OF ok, of s] r by blast
  obtain err w1 where st1: "StoreVector exec c i v w = (err, w1)" by fastforce
  define m1 where "m1 = logReplication (now ''log'' (rnAddress r)) s ''insert'' (vID v) (err = None) m"
  have m': "m' = (if err = None then updateReplicaSync (now ''sync'' (rnAddress r)) s (rnAddress r) m1
      else markReplicaFailed s (rnAddress r) m1)" and w1: "w1 = w'"
    using e unfolding insert_replica_eq [OF c st1] m1_def [symmetric] Let_def by (simp_all only: prod.inject)
  note st = st1 [unfolded w1]
  have "evolves m m'"
    using steady_insert_replica [of "(n, m, w)" exec now i v s r] e ok by (simp add: steady_def)
  then have ad: "rmAdapters m' = rmAdapters m" by (simp add: evolves_def)
  show "replica_has store i v a m w \<Longrightarrow> replica_has store i v a m' w'"
    unfolding replica_has_adapters [OF ad] by (rule replica_has_keeps [OF st])
  show "failed s (rnAddress r) m' \<or> replica_has store i v (rnAddress r) m' w'"
  proof (cases err)
    case (Some e)
    have "failed s (rnAddress r) (markReplicaFailed s (rnAddress r) m1)"
      using r by (intro failed_mark) (simp add: m1_def)
    with Some show ?thesis by (simp add: m')
  next
    case None
    then have "\<exists>x. ToBytes v = Inr x \<and> dbDocs (dbase w' c) (vector_key i (vID v)) = Some x"
      using adapter.put_doc st by blast
    then show ?thesis using c ad by (auto simp: replica_has_def)
  qed
qed

lemma insert_replicas_cover:
  assumes "rep_ok m" "fold (insert_replica exec now i v s) rs (n, m, w) = (n', m', w')"
    "\<forall>r \<in> set rs. rnAddress r \<in> rnAddress ` set (group_of (rmReplicas m) s)"
  shows "\<forall>r \<in> set rs. failed s (rnAddress r) m' \<or> replica_has store i v (rnAddress r) m' w'"
    "\<And>a. replica_has store i v a m w \<Longrightarrow> replica_has store i v a m' w'"
proof -
  have "(\<forall>r \<in> set rs. failed s (rnAddress r) m' \<or> replica_has store i v (rnAddress r) m' w') \<and>
      (\<forall>a. failed s a m \<or> replica_has store i v a m w \<longrightarrow> failed s a m' \<or> replica_has store i v a m' w') \<and>
      (\<forall>a. replica_has store i v a m w \<longrightarrow> replica_has store i v a m' w')"
    using assms
  proof (induction rs arbitrary: n m w)
    case (Cons r rs)
    obtain n1 m1 w1 where e: "insert_replica exec now i v s r (n, m, w) = (n1, m1, w1)" by (cases rule: prod_cases3)
    have st: "rep_ok m1" "evolves m m1"
      using steady_insert_replica [of "(n, m, w)" exec now i v s r] e Cons.prems(1) by (simp_all add: steady_def)
    have grp: "rnAddress ` set (group_of (rmReplicas m1) s) = rnAddress ` set (group_of (rmReplicas m) s)"
      using evolves_addresses [OF st(2), of s] by (metis list.set_map)
    have r: "rnAddress r \<in> rnAddress ` set (group_of (rmReplicas m) s)" using Cons.prems(3) by simp
    note c = insert_replica_covers [OF Cons.prems(1) e r]
    have "fold (insert_replica exec now i v s) rs (n1, m1, w1) = (n', m', w')" using Cons.prems(2) e by simp
    from Cons.IH [OF st(1) this] Cons.prems(3) grp
    have IH: "\<forall>r \<in> set rs. failed s (rnAddress r) m' \<or> replica_has store i v (rnAddress r) m' w'"
      "\<forall>a. failed s a m1 \<or> replica_has store i v a m1 w1 \<longrightarrow> failed s a m' \<or> replica_has store i v a m' w'"
      "\<forall>a. replica_has store i v a m1 w1 \<longrightarrow> replica_has store i v a m' w'"
      by simp_all
    show ?case using IH c evolves_failed [OF st(2)] by (metis set_ConsD)
  qed auto
  then show "\<forall>r \<in> set rs. failed s (rnAddress r) m' \<or> replica_has store i v (rnAddress r) m' w'"
    "\<And>a. replica_has store i v a m w \<Longrightarrow> replica_has store i v a m' w'" by blast+
qed

text \<open>After the write, a secondary still marked active holds the vector.\<close>

lemma ReplicateInsert_reaches:
  assumes ok: "rep_ok m" and order: "is_order order"
    and e: "ReplicateInsert exec now order i v s (m, w) = (err, m', w')"
    and r: "r \<in> set (group_of (rmReplicas m') s)" "rnStatus r = ''active''" "rnRole r \<noteq> ''primary''"
  shows "replica_has store i v (rnAddress r) m' w'"
proof -
  let ?rs = "order (filter eligible (group_of (rmReplicas m) s))"
  obtain n where f: "fold (insert_replica exec now i v s) ?rs (0, m, w) = (n, m', w')"
    using e by (auto simp: ReplicateInsert_def split: prod.splits)
  have st: "rep_ok m'" "evolves m m'" using steady_ReplicateInsert [OF e] ok by (simp_all add: steady_def)
  have "list_all2 ages (group_of (rmReplicas m) s) (group_of (rmReplicas m') s)" using st(2) by (simp add: evolves_def)
  with r(1) obtain r0 where r0: "r0 \<in> set (group_of (rmReplicas m) s)" "ages r0 r"
    by (metis in_set_conv_nth list_all2_conv_all_nth)
  with r(2,3) have "eligible r0" by (auto simp: eligible_def ages_def)
  with r0 have "r0 \<in> set ?rs" by (simp add: is_order_set [OF order])
  moreover have "\<forall>r \<in> set ?rs. rnAddress r \<in> rnAddress ` set (group_of (rmReplicas m) s)"
    by (simp add: is_order_set [OF order])
  ultimately have "failed s (rnAddress r0) m' \<or> replica_has store i v (rnAddress r0) m' w'"
    using insert_replicas_cover(1) [OF ok f] by blast
  moreover have "\<not> failed s (rnAddress r) m'"
  proof
    assume "failed s (rnAddress r) m'"
    then obtain r' where r': "r' \<in> set (group_of (rmReplicas m') s)" "rnAddress r' = rnAddress r" "rnStatus r' = ''failed''"
      by (auto simp: failed_def)
    moreover have "inj_on rnAddress (set (group_of (rmReplicas m') s))"
      using rep_okD(4) [OF st(1), of s] by (simp add: distinct_map)
    ultimately have "r' = r" using r(1) by (metis inj_onD)
    with r(2) r'(3) show False by simp
  qed
  ultimately show ?thesis using r0(2) by (simp add: ages_def)
qed

text \<open>It leaves every other vector's document alone, and this one's where it already is.\<close>

lemma ReplicateInsert_docs:
  assumes "ReplicateInsert exec now order i v s (m, w) = (err, m', w')"
  shows "dbDocs (store w' a d) (vector_key j b) = dbDocs (store w a d) (vector_key j b)
    \<or> (\<exists>x. ToBytes v = Inr x \<and> vector_key j b = vector_key i (vID v) \<and> dbDocs (store w' a d) (vector_key j b) = Some x)"
proof -
  define R where "R p q \<longleftrightarrow> dbDocs (store (snd (snd q)) a d) (vector_key j b) = dbDocs (store (snd (snd p)) a d) (vector_key j b)
    \<or> (\<exists>x. ToBytes v = Inr x \<and> vector_key j b = vector_key i (vID v) \<and> dbDocs (store (snd (snd q)) a d) (vector_key j b) = Some x)"
    for p q :: "nat \<times> replication_manager \<times> 'w"
  have one: "R emw (insert_replica exec now i v s r emw)" for r emw
  proof (cases "gm_get (rmAdapters (fst (snd emw))) (rnAddress r)")
    case None
    then show ?thesis by (simp add: insert_replica_def Let_def R_def)
  next
    case (Some c)
    obtain e w1 where st: "StoreVector exec c i v (snd (snd emw)) = (e, w1)" by fastforce
    with Some have "snd (snd (insert_replica exec now i v s r emw)) = w1"
      by (simp add: insert_replica_def Let_def split: option.split)
    with StoreVector_docs [OF st, of a d "vector_key j b"] show ?thesis unfolding R_def by simp
  qed
  have "R (0, m, w) (fold (insert_replica exec now i v s) (order (filter eligible (group_of (rmReplicas m) s))) (0, m, w))"
    by (rule fold_preorder [where R = R]) (rule one, simp add: R_def, unfold R_def, metis)
  moreover obtain n where "fold (insert_replica exec now i v s) (order (filter eligible (group_of (rmReplicas m) s))) (0, m, w) = (n, m', w')"
    using assms by (auto simp: ReplicateInsert_def split: prod.splits)
  ultimately show ?thesis by (simp add: R_def)
qed

end

lemma update_first_map:
  "(\<And>r. g (f r) = g r) \<Longrightarrow> map g (update_first p f rs) = map g rs"
  by (induction rs) simp_all

lemma group_status_sync: "map rnStatus (group_of (rmReplicas (updateReplicaSync t n a m)) s) = map rnStatus (group_of (rmReplicas m) s)"
  by (simp add: updateReplicaSync_def update_replica_group update_first_map)

text \<open>Deletions, whatever the servers answer, mark no replica as failed.\<close>

lemma ReplicateDelete_status:
  "map rnStatus (group_of (rmReplicas (fst (ReplicateDelete exec now order i a n mw))) s) = map rnStatus (group_of (rmReplicas (fst mw)) s)"
  unfolding ReplicateDelete_def
  by (rule fold_invariant [where Q = "\<lambda>_. True" and P = "\<lambda>st. map rnStatus (group_of (rmReplicas (fst st)) s) = map rnStatus (group_of (rmReplicas (fst mw)) s)"])
    (simp_all add: delete_replica_def Let_def group_status_sync split: option.split prod.split)

lemma ReplicateBatchDelete_status:
  "map rnStatus (group_of (rmReplicas (fst (ReplicateBatchDelete exec now order i ids n mw))) s) = map rnStatus (group_of (rmReplicas (fst mw)) s)"
  unfolding ReplicateBatchDelete_def
  by (rule fold_invariant [where Q = "\<lambda>_. True" and P = "\<lambda>st. map rnStatus (group_of (rmReplicas (fst st)) s) = map rnStatus (group_of (rmReplicas (fst mw)) s)"])
    (simp_all add: batch_delete_replica_def Let_def group_status_sync split: option.split prod.split sum.split)

section \<open>What a health check does\<close>

text \<open>A secondary fails when its last write is older than both limits; nothing else changes.\<close>

definition stale :: "replication_config \<Rightarrow> (string \<Rightarrow> int \<Rightarrow> int) \<Rightarrow> replica_node \<Rightarrow> bool" where
  "stale config age r \<longleftrightarrow> rnRole r \<noteq> ''primary'' \<and> age (rnAddress r) (rnLastSync r) > rcMaxLag config
     \<and> age (rnAddress r) (rnLastSync r) > rcFailoverTimeout config"

definition aged :: "replication_config \<Rightarrow> (string \<Rightarrow> int \<Rightarrow> int) \<Rightarrow> replica_node \<Rightarrow> replica_node" where
  "aged config age r = (if stale config age r then r\<lparr>rnStatus := ''failed''\<rparr> else r)"

lemma aged_rest [simp]: "rnAddress (aged config age r) = rnAddress r"
  by (simp add: aged_def)

lemma update_first_nth:
  "distinct (map g xs) \<Longrightarrow> k < length xs \<Longrightarrow> update_first (\<lambda>x. g x = g (xs ! k)) f xs = xs[k := f (xs ! k)]"
proof (induction xs arbitrary: k)
  case (Cons x xs)
  show ?case
  proof (cases k)
    case (Suc l)
    with Cons.prems have "xs ! l \<in> set xs" by simp
    with Cons.prems have "g x \<noteq> g (xs ! l)" by auto
    with Suc Cons show ?thesis by simp
  qed simp
qed simp

lemma check_replica_group:
  assumes "distinct (map rnAddress (group_of (rmReplicas m) s))" "i < length (group_of (rmReplicas m) s)"
  shows "group_of (rmReplicas (check_replica age s i m)) s' =
      (if s' = s then (group_of (rmReplicas m) s)[i := aged (rmConfig m) age (group_of (rmReplicas m) s ! i)]
       else group_of (rmReplicas m) s')"
    "rmConfig (check_replica age s i m) = rmConfig m"
proof -
  let ?r = "group_of (rmReplicas m) s ! i"
  have "check_replica age s i m = (if stale (rmConfig m) age ?r then markReplicaFailed s (rnAddress ?r) m else m)"
    by (simp add: check_replica_def Let_def stale_def)
  then show "group_of (rmReplicas (check_replica age s i m)) s' =
      (if s' = s then (group_of (rmReplicas m) s)[i := aged (rmConfig m) age ?r] else group_of (rmReplicas m) s')"
    "rmConfig (check_replica age s i m) = rmConfig m"
    by (simp_all add: markReplicaFailed_def update_replica_group update_replica_rest
        update_first_nth [OF assms] aged_def)
qed

lemma check_shard_group:
  assumes "distinct (map rnAddress (group_of (rmReplicas m) s))"
  shows "group_of (rmReplicas (check_shard_replicas age s m)) s' =
      (if s' = s then map (aged (rmConfig m) age) (group_of (rmReplicas m) s) else group_of (rmReplicas m) s')"
    "rmConfig (check_shard_replicas age s m) = rmConfig m"
proof -
  let ?rs = "group_of (rmReplicas m) s" and ?f = "aged (rmConfig m) age"
  have "n \<le> length ?rs \<Longrightarrow> rmConfig (fold (check_replica age s) [0..<n] m) = rmConfig m
      \<and> (\<forall>s'. group_of (rmReplicas (fold (check_replica age s) [0..<n] m)) s' =
          (if s' = s then map ?f (take n ?rs) @ drop n ?rs else group_of (rmReplicas m) s'))" for n
  proof (induction n)
    case (Suc n)
    let ?m = "fold (check_replica age s) [0..<n] m"
    have IH: "rmConfig ?m = rmConfig m" "group_of (rmReplicas ?m) s = map ?f (take n ?rs) @ drop n ?rs"
      "\<And>s'. s' \<noteq> s \<Longrightarrow> group_of (rmReplicas ?m) s' = group_of (rmReplicas m) s'" using Suc by simp_all
    have "map rnAddress (group_of (rmReplicas ?m) s) = map rnAddress ?rs"
      unfolding IH(2) by (simp add: comp_def flip: take_map drop_map)
    then have d: "distinct (map rnAddress (group_of (rmReplicas ?m) s))" using assms by simp
    have l: "n < length (group_of (rmReplicas ?m) s)" using Suc.prems unfolding IH(2) by simp
    have n: "group_of (rmReplicas ?m) s ! n = ?rs ! n" using Suc.prems unfolding IH(2) by (simp add: nth_append)
    have "(map ?f (take n ?rs) @ drop n ?rs)[n := ?f (?rs ! n)] = map ?f (take (Suc n) ?rs) @ drop (Suc n) ?rs"
      using Suc.prems by (simp add: list_update_append take_Suc_conv_app_nth Cons_nth_drop_Suc [symmetric])
    with check_replica_group [OF d l, of age] IH n show ?case by simp
  qed simp
  from this [of "length ?rs"]
  show "group_of (rmReplicas (check_shard_replicas age s m)) s' =
      (if s' = s then map (aged (rmConfig m) age) (group_of (rmReplicas m) s) else group_of (rmReplicas m) s')"
    "rmConfig (check_shard_replicas age s m) = rmConfig m"
    by (simp_all add: check_shard_replicas_def)
qed

lemma checkReplicaHealth_group:
  assumes ok: "rep_ok m" and order: "is_order order"
  shows "group_of (rmReplicas (checkReplicaHealth order age m)) s = map (aged (rmConfig m) (age s)) (group_of (rmReplicas m) s)"
proof -
  have *: "rmConfig (fold (\<lambda>s. check_shard_replicas (age s) s) ss m) = rmConfig m
      \<and> (\<forall>s. group_of (rmReplicas (fold (\<lambda>s. check_shard_replicas (age s) s) ss m)) s =
        (if s \<in> set ss then map (aged (rmConfig m) (age s)) (group_of (rmReplicas m) s) else group_of (rmReplicas m) s))"
    if "distinct ss" "\<forall>s. distinct (map rnAddress (group_of (rmReplicas m) s))" for ss m
    using that
  proof (induction ss arbitrary: m)
    case (Cons s0 ss)
    let ?m = "check_shard_replicas (age s0) s0 m"
    have d: "distinct (map rnAddress (group_of (rmReplicas m) s0))" using Cons.prems(2) by simp
    note c = check_shard_group [OF d, of "age s0"]
    have "\<forall>s. distinct (map rnAddress (group_of (rmReplicas ?m) s))"
      using Cons.prems(2) by (simp add: c comp_def)
    from Cons.IH [OF _ this] Cons.prems(1) show ?case by (auto simp: c)
  qed simp
  let ?keys = "order (map fst (rmReplicas m))"
  have "distinct ?keys" using is_order_distinct_map [OF order, of "\<lambda>x. x" "map fst (rmReplicas m)"] rep_okD(1) [OF ok]
    by (simp add: gm_ok_def)
  moreover have "s \<notin> set ?keys \<Longrightarrow> group_of (rmReplicas m) s = []"
    by (simp add: is_order_set [OF order] group_of_def set_gm_keys domIff del: set_map)
  ultimately show ?thesis using * [of ?keys m] rep_okD(4) [OF ok] by (auto simp: checkReplicaHealth_def)
qed

end
