(* ===== verification/Cluster_Properties.thy ===== *)
theory Cluster_Properties
  imports Storage_Properties Shard_Manager Replication
begin

text \<open>
  What the cluster layer guarantees: the hash ring answers with clockwise successors and moves
  few keys, the shard manager routes every key to one shard with a database of its own,
  whatever its health checks find, and the replication manager keeps its tables in order,
  copies writes to every secondary that stays active, and never revives a failed one. A
  cluster of two shards and a manager of two replicas serve the witnesses.
\<close>

section \<open>A cluster of two shards on one node, for the witnesses\<close>

definition demo_shard :: "int \<Rightarrow> shard_info" where
  "demo_shard i = \<lparr>siID = i, siNode = ''r1'', siStatus = ''active'', siVectorCount = 0, siMemoryUsage = 0,
     siLastHealthCheck = 0, siReplicas = []\<rparr>"

definition demo_ring :: consistent_hash where
  "demo_ring = \<lparr>chNodes = [(7, ''r1'')], chSortedKeys = [7], chVirtualNodes = 1\<rparr>"

definition demo_config :: shard_config where
  "demo_config = \<lparr>cfShardCount = 2, cfReplicaCount = 0, cfVirtualNodes = 1, cfHealthCheckInterval = 5,
     cfRedisAddresses = [''r1''], cfRedisPassword = [], cfRedisDB = 0\<rparr>"

definition demo_sm :: shard_manager where
  "demo_sm = \<lparr>smRing = demo_ring, smShards = [(0, demo_shard 0), (1, demo_shard 1)],
     smNodeToShards = [(''r1'', [0, 1])], smAdapters = [(0, demo_conn), (1, demo_conn\<lparr>cDB := 1\<rparr>)],
     smConfig = demo_config, smRunning = True\<rparr>"

lemma demo_ring_ok: "ring_ok demo_ring" "chNodes demo_ring \<noteq> []"
  by (simp_all add: demo_ring_def ring_ok_def gm_ok_def)

lemma demo_node: "GetNode demo_ring key = Inr ''r1''"
proof -
  obtain k node where "gm_get (chNodes demo_ring) k = Some node" "GetNode demo_ring key = Inr node"
    using GetNode_owner [OF demo_ring_ok] by blast
  then show ?thesis by (simp add: demo_ring_def split: if_splits)
qed

lemma demo_sm_parts [simp]:
  "smRing demo_sm = demo_ring" "smConfig demo_sm = demo_config"
  "smShards demo_sm = [(0, demo_shard 0), (1, demo_shard 1)]"
  "smNodeToShards demo_sm = [(''r1'', [0, 1])]"
  "smAdapters demo_sm = [(0, demo_conn), (1, demo_conn\<lparr>cDB := 1\<rparr>)]"
  by (simp_all add: demo_sm_def)

lemma demo_shard_parts [simp]: "siID (demo_shard i) = i" "siNode (demo_shard i) = ''r1''" "siStatus (demo_shard i) = ''active''"
  by (simp_all add: demo_shard_def)

lemma demo_group: "group_of (smNodeToShards demo_sm) node = (if node = ''r1'' then [0, 1] else [])"
  by (simp add: group_of_def)

lemma demo_shards_on: "shards_on (smShards demo_sm) node = (if node = ''r1'' then {0, 1} else {})"
  by (auto simp: shards_on_def split: if_splits)

lemma demo_shards_ok: "shards_ok 2 demo_sm"
  unfolding shards_ok_def demo_group demo_shards_on
proof (intro conjI allI impI)
  show "dom (gm_get (smShards demo_sm)) = int ` {..<2}"
    by (auto simp: lessThan_nat_numeral lessThan_Suc split: if_splits)
  show "(if node = ''r1'' then [0, 1] else []) \<noteq> ([] :: int list)"
    if "gm_get (chNodes (smRing demo_sm)) h = Some node" for h node
    using that by (simp add: demo_ring_def split: if_splits)
  show "i \<in> (if cAddr c = ''r1'' then {0, 1} else {})" if "gm_get (smAdapters demo_sm) i = Some c" for i c
    using that by (auto simp: demo_conn_def split: if_splits)
  show "cDB c = cfRedisDB (smConfig demo_sm) + i" if "gm_get (smAdapters demo_sm) i = Some c" for i c
    using that by (auto simp: demo_conn_def demo_config_def split: if_splits)
qed (auto simp: gm_ok_def demo_ring_ok split: if_splits)

lemma demo_sm_ok: "manager_ok demo_sm"
  using demo_shards_ok by (simp add: manager_ok_def demo_config_def demo_ring_ok)

lemma demo_routing: "GetShardForKey demo_sm ''c'' = Inr 1" "GetShardForKey demo_sm ''d'' = Inr 0"
  by (simp_all add: GetShardForKey_def demo_node crc32Hash_def)

lemma demo_adapters: "GetShardAdapter demo_sm 0 = Inr demo_conn" "GetShardAdapter demo_sm 1 = Inr (demo_conn\<lparr>cDB := 1\<rparr>)"
  by (simp_all add: GetShardAdapter_def)

section \<open>A shard with two replicas, for the witnesses\<close>

definition demo_replica :: "string \<Rightarrow> string \<Rightarrow> replica_node" where
  "demo_replica addr role = \<lparr>rnID = addr, rnAddress = addr, rnRole = role, rnStatus = ''active'', rnLag = 0, rnLastSync = 0\<rparr>"

definition demo_rep_config :: replication_config where
  "demo_rep_config = \<lparr>rcReplicationFactor = 2, rcSyncInterval = 5, rcMaxLag = 30, rcFailoverTimeout = 60,
     rcRedisPassword = [], rcRedisDB = 0\<rparr>"

definition demo_rm :: replication_manager where
  "demo_rm = \<lparr>rmReplicas = [(1, [demo_replica ''p1'' ''primary'', demo_replica ''p2'' ''secondary''])],
     rmPrimaryNodes = [(1, ''p1'')],
     rmAdapters = [(''p1'', demo_conn\<lparr>cAddr := ''p1''\<rparr>), (''p2'', demo_conn\<lparr>cAddr := ''p2''\<rparr>)],
     rmConfig = demo_rep_config, rmRunning = True, rmLog = []\<rparr>"

lemma demo_replica_parts [simp]: "rnAddress (demo_replica a r) = a" "rnRole (demo_replica a r) = r"
  "rnStatus (demo_replica a r) = ''active''" "rnLag (demo_replica a r) = 0" "rnLastSync (demo_replica a r) = 0"
  by (simp_all add: demo_replica_def)

lemma demo_rm_parts [simp]:
  "group_of (rmReplicas demo_rm) s = (if s = 1 then [demo_replica ''p1'' ''primary'', demo_replica ''p2'' ''secondary''] else [])"
  "gm_get (rmReplicas demo_rm) 1 = Some [demo_replica ''p1'' ''primary'', demo_replica ''p2'' ''secondary'']"
  "rmPrimaryNodes demo_rm = [(1, ''p1'')]"
  "rmAdapters demo_rm = [(''p1'', demo_conn\<lparr>cAddr := ''p1''\<rparr>), (''p2'', demo_conn\<lparr>cAddr := ''p2''\<rparr>)]"
  "rmConfig demo_rm = demo_rep_config" "rmLog demo_rm = []" "gm_ok (rmReplicas demo_rm)"
  by (simp_all add: demo_rm_def group_of_def gm_ok_def)

lemma demo_rm_ok: "rep_ok demo_rm"
proof (rule rep_okI)
  show "gm_ok (rmReplicas demo_rm)" by simp
  show "a \<in> rnAddress ` set (group_of (rmReplicas demo_rm) s)" if "gm_get (rmPrimaryNodes demo_rm) s = Some a" for s a
    using that by (auto simp: image_iff ex_disj_distrib conj_disj_distribR split: if_splits)
  show "cAddr c = a" if "gm_get (rmAdapters demo_rm) a = Some c" for a c
    using that by (auto split: if_splits)
  show "rnAddress ` set (group_of (rmReplicas demo_rm) s) \<subseteq> dom (gm_get (rmAdapters demo_rm))" for s
    by (auto split: if_splits)
qed (simp_all add: gm_ok_def)

section \<open>The hash ring\<close>

text \<open>\<open>sort.Search\<close>, the binary search of \<open>GetNode\<close>, finds the least index at which the
  predicate holds, or the length when there is none, provided that the predicate stays true
  once it is true.\<close>

lemma sort_Search_least:
  assumes "monotone_below n f"
  shows "sort_Search n f = (if \<exists>a < n. f a then LEAST a. f a else n)"
proof (cases "\<exists>a < n. f a")
  case True
  then obtain a where a: "a < n" "f a" by blast
  then have "\<not> a < sort_Search n f" using sort_Search_spec(2) [OF assms] by blast
  then have "f (sort_Search n f)" using sort_Search_spec(3) [OF assms, of "sort_Search n f"] a by simp
  then show ?thesis using True sort_Search_spec(2) [OF assms]
    by (auto intro!: Least_equality [symmetric] simp flip: not_less)
next
  case False
  then show ?thesis using sort_Search_spec(1,3) [OF assms] by (metis le_neq_implies_less le_refl)
qed

text \<open>C11: On a ring built by adding and removing nodes that is not empty, \<open>GetNode\<close> answers with
  the owner of the key's clockwise successor: the least virtual node at or after its hash, and
  past the last one the least of all.\<close>

theorem get_node_successor:
  assumes "ring_history n c" "chNodes c \<noteq> []"
  shows "\<exists>k node. ring_successor (dom (gm_get (chNodes c))) (ring_hash key) k
    \<and> gm_get (chNodes c) k = Some node \<and> GetNode c key = Inr node"
  using GetNode_owner [OF ring_history_ok [OF assms(1)] assms(2), of key] by (metis dom_map_of_conv_image_fst)

theorem get_node_successor_witness:
  "\<exists>k. ring_successor (dom (gm_get (chNodes (AddNode ''r1'' (NewConsistentHash 1))))) (ring_hash ''key'') k"
proof -
  have "chNodes (AddNode ''r1'' (NewConsistentHash 1)) \<noteq> []"
    by (rule AddNode_nonempty) (simp add: NewConsistentHash_def)
  then show ?thesis using get_node_successor [OF ring_history.add [OF ring_history.new]] by blast
qed

text \<open>C29: Adding a node to a ring leaves a key where it was or brings it to the new node: no key
  moves between the old ones. Removing a node leaves every key of another node where it was, unless
  a virtual node of the removed one has the hash of another node's: that one goes as well.\<close>

theorem ring_moves_few:
  assumes "ring_history n c" "GetNode c key = Inr old"
  shows "GetNode (AddNode node c) key \<in> {Inr old, Inr node}
    \<and> (old \<noteq> node \<longrightarrow> (\<forall>h \<in> set (virtual_hashes c node). gm_get (chNodes c) h \<in> {None, Some node}) \<longrightarrow>
         GetNode (RemoveNode node c) key = Inr old)"
proof -
  have "chNodes c \<noteq> []" using assms(2) by (auto simp: GetNode_def)
  then show ?thesis
    using AddNode_moves_to_new [OF ring_history_ok [OF assms(1)], of node key]
      RemoveNode_keeps_others [OF ring_history_ok [OF assms(1)] assms(2)] assms(2) by auto
qed

theorem ring_moves_few_witness:
  "GetNode (AddNode ''r2'' (AddNode ''r1'' (NewConsistentHash 1))) ''key'' \<in> {Inr ''r1'', Inr ''r2''}
   \<and> GetNode (RemoveNode ''r2'' (AddNode ''r1'' (NewConsistentHash 1))) ''key'' = Inr ''r1''"
proof -
  let ?c = "AddNode ''r1'' (NewConsistentHash 1)"
  have ring: "ring_history 1 ?c" by (intro ring_history.intros)
  have "chNodes ?c \<noteq> []" by (rule AddNode_nonempty) (simp add: NewConsistentHash_def)
  then obtain k node where k: "gm_get (chNodes ?c) k = Some node" and n: "GetNode ?c ''key'' = Inr node"
    using GetNode_owner [OF ring_history_ok [OF ring]] by blast
  have "node = ''r1''" using k unfolding AddNode_get by (simp add: NewConsistentHash_def split: if_splits)
  then have key: "GetNode ?c ''key'' = Inr ''r1''" using n by simp
  have "\<forall>h \<in> set (virtual_hashes ?c ''r2''). gm_get (chNodes ?c) h \<in> {None, Some ''r2''}"
  proof -
    have "ring_hash ''r1#0'' = 1571520353" "ring_hash ''r2#0'' = 1609417016"
      by (simp_all add: ring_hash_def crc_byte_def crc_bit_def)
    then show ?thesis by (simp add: virtual_hashes_def AddNode_get NewConsistentHash_def fmt_d_def fmt_nat.simps digit_def)
  qed
  then show ?thesis using ring_moves_few [OF ring key, of "''r2''"] by simp
qed

section \<open>The shard manager\<close>

text \<open>\<open>NewShardManager\<close> panics exactly when it has shards to place and no address, or an
  interval that is not positive. Otherwise, with at least one shard (and less than \<open>2 ^ 31\<close>) and
  one virtual node, whichever servers answer, the manager is in order: shards numbered from
  zero, each listed on its node, with an adapter to its own database if it is active.\<close>

lemma new_manager_starts:
  "(\<exists>sm w'. NewShardManager exec now config w = Returns (sm, w'))
     = ((cfShardCount config \<le> 0 \<or> cfRedisAddresses config \<noteq> []) \<and> 0 < cfHealthCheckInterval config)
   \<and> (\<forall>sm w'. NewShardManager exec now config w = Returns (sm, w') \<longrightarrow> cfShardCount config \<in> {0<..<2 ^ 31} \<longrightarrow>
        0 < cfVirtualNodes config \<longrightarrow> manager_ok sm \<and> smConfig sm = config)"
proof (intro conjI allI impI)
  show "(\<exists>sm w'. NewShardManager exec now config w = Returns (sm, w'))
      = ((cfShardCount config \<le> 0 \<or> cfRedisAddresses config \<noteq> []) \<and> 0 < cfHealthCheckInterval config)"
    by (auto simp: NewShardManager_def not_less split: prod.splits)
next
  fix sm w'
  assume new: "NewShardManager exec now config w = Returns (sm, w')"
    and n: "cfShardCount config \<in> {0<..<2 ^ 31}" "0 < cfVirtualNodes config"
  show "manager_ok sm" by (rule NewShardManager_ok [OF new]) (use n in simp_all)
  obtain sm0 w0 where f: "fold (init_shard exec now) [0..<nat (cfShardCount config)] (empty_manager config, w) = (sm0, w0)"
    by fastforce
  have "sm = sm0\<lparr>smRunning := True\<rparr>" using new f by (auto simp: NewShardManager_def split: if_splits)
  then show "smConfig sm = config" using init_shards_ok [OF f] by simp
qed

text \<open>C24: A manager in order stays in order through health checks, new replica lists and its end,
  and routing never changes: every key is sent to the same shard, one of those configured,
  which lives on the node that the ring names for the key.\<close>

theorem routing_stable:
  assumes "manager_ok sm" "(shard_step exec)\<^sup>*\<^sup>* sm sm'"
  shows "manager_ok sm' \<and> (\<exists>i node shard. GetShardForKey sm key = Inr i \<and> GetShardForKey sm' key = Inr i
    \<and> 0 \<le> i \<and> i < cfShardCount (smConfig sm') \<and> GetNode (smRing sm') key = Inr node
    \<and> gm_get (smShards sm') i = Some shard \<and> siNode shard = node)"
proof -
  have ok: "manager_ok sm'" using shards.steps_ok [OF assms(2,1)] .
  have same: "GetShardForKey sm' key = GetShardForKey sm key" using shards.steps_route [OF assms(2,1)] .
  obtain i node shard where "GetShardForKey sm' key = Inr i" "0 \<le> i" "i < cfShardCount (smConfig sm')"
    "GetNode (smRing sm') key = Inr node" "gm_get (smShards sm') i = Some shard" "siNode shard = node"
    using GetShardForKey_valid [OF ok, of key] by metis
  then show ?thesis using ok same by metis
qed

theorem routing_stable_witness:
  "GetShardForKey (fst (performHealthCheck mem_exec rev (\<lambda>_. 9) demo_sm (mem_empty [''r1'']))) ''c'' = Inr 1"
proof -
  obtain sm' w' where h: "performHealthCheck mem_exec rev (\<lambda>_. 9) demo_sm (mem_empty [''r1'']) = (sm', w')"
    by fastforce
  then have "(shard_step mem_exec)\<^sup>*\<^sup>* demo_sm sm'" by (intro r_into_rtranclp shard_step.health)
  then have "\<exists>i. GetShardForKey demo_sm ''c'' = Inr i \<and> GetShardForKey sm' ''c'' = Inr i"
    using routing_stable [OF demo_sm_ok, of mem_exec sm' "''c''"] by metis
  then show ?thesis using h demo_routing by simp
qed

text \<open>C25: Whatever the health checks find between two visits, keys of the same shard are served
  from the same connection and keys of different shards from different databases.\<close>

theorem shards_apart:
  assumes "manager_ok sm" "(shard_step exec)\<^sup>*\<^sup>* sm sm'"
    "locate sm key = Inr (i, c)" "locate sm' key' = Inr (j, d)"
  shows "(i = j \<longleftrightarrow> c = d) \<and> (i = j \<longleftrightarrow> (cAddr c, cDB c) = (cAddr d, cDB d))"
proof -
  note ok' = shards.steps_ok [OF assms(2,1)]
  have c: "shard_home sm' i = Some c"
    using shards.steps_home [OF assms(2,1)] shards.adapter_home [OF assms(1)] assms(3) by (simp add: locate_Inr)
  have d: "shard_home sm' j = Some d" using shards.adapter_home [OF ok'] assms(4) by (simp add: locate_Inr)
  show ?thesis using c d shards.home_apart [OF ok' c d] by auto
qed

theorem shards_apart_witness:
  "locate demo_sm ''c'' = Inr (1, demo_conn\<lparr>cDB := 1\<rparr>) \<and> locate demo_sm ''d'' = Inr (0, demo_conn)
   \<and> (cAddr demo_conn, 1) \<noteq> (cAddr demo_conn, cDB demo_conn)"
proof -
  have l: "locate demo_sm ''c'' = Inr (1, demo_conn\<lparr>cDB := 1\<rparr>)" "locate demo_sm ''d'' = Inr (0, demo_conn)"
    by (simp_all add: locate_Inr demo_routing demo_adapters)
  show ?thesis using shards_apart [OF demo_sm_ok rtranclp.rtrancl_refl l] l by simp
qed

section \<open>The replication manager\<close>

text \<open>C9: Whatever registrations, writes, promotions and health checks happen to a new manager, in
  any order: a shard lists an address once, each listed replica has a connection to its address,
  a recorded primary is one of the shard's replicas, and the log never exceeds 10000 entries.\<close>

theorem replication_invariant:
  assumes "NewManager config = Returns m0" "(rep_step exec)\<^sup>*\<^sup>* (m0, w0) (m, w)"
  shows "(\<forall>s. distinct (map rnAddress (group_of (rmReplicas m) s)))
    \<and> (\<forall>s. \<forall>r \<in> set (group_of (rmReplicas m) s). \<exists>c. gm_get (rmAdapters m) (rnAddress r) = Some c \<and> cAddr c = rnAddress r)
    \<and> (\<forall>s a. gm_get (rmPrimaryNodes m) s = Some a \<longrightarrow> a \<in> rnAddress ` set (group_of (rmReplicas m) s))
    \<and> length (rmLog m) \<le> 10000"
proof -
  have ok: "rep_ok m" using rep_steps_ok [OF assms(2)] NewManager_ok [OF assms(1)] by simp
  have "\<exists>c. gm_get (rmAdapters m) (rnAddress r) = Some c \<and> cAddr c = rnAddress r"
    if "r \<in> set (group_of (rmReplicas m) s)" for s r
    using rep_okD(5) [OF ok, of s] rep_okD(6) [OF ok] that by blast
  then show ?thesis using rep_okD(4,7,8) [OF ok] by blast
qed

theorem replication_invariant_witness:
  "\<exists>m e m' w'. NewManager demo_rep_config = Returns m
    \<and> RegisterReplica mem_exec 1 (demo_replica ''p1'' ''primary'') (m, mem_empty []) = (e, m', w')
    \<and> length (rmLog m') \<le> 10000"
proof -
  obtain m where m: "NewManager demo_rep_config = Returns m" by (simp add: NewManager_def demo_rep_config_def)
  obtain e m' w' where r: "RegisterReplica mem_exec 1 (demo_replica ''p1'' ''primary'') (m, mem_empty []) = (e, m', w')"
    using prod_cases3 by blast
  have "(rep_step mem_exec)\<^sup>*\<^sup>* (m, mem_empty []) (m', w')"
    by (rule r_into_rtranclp, rule rep_step.register, rule r)
  from replication_invariant [OF m this] show ?thesis using m r by blast
qed

text \<open>C27: A replica once marked failed stays failed: nothing brings it back, no write is copied to
  it again, and it cannot be promoted.\<close>

theorem failed_for_good:
  assumes "rep_ok m" "(rep_step exec)\<^sup>*\<^sup>* (m, w) (m', w')" "failed s a m"
  shows "failed s a m' \<and> (\<forall>r \<in> set (group_of (rmReplicas m') s). rnAddress r = a \<longrightarrow> \<not> eligible r)
    \<and> fst (PromoteReplica s a m') \<noteq> None"
proof -
  have ok: "rep_ok m'" and bad: "failed s a m'" using rep_steps_ok [OF assms(2)] assms(1,3) by auto
  then obtain r where r: "r \<in> set (group_of (rmReplicas m') s)" "rnAddress r = a" "rnStatus r = ''failed''"
    by (auto simp: failed_def)
  have only: "r' = r" if "r' \<in> set (group_of (rmReplicas m') s)" "rnAddress r' = a" for r'
    using rep_okD(4) [OF ok, of s] r that by (metis distinct_map inj_onD)
  have "fst (PromoteReplica s a m') \<noteq> None"
  proof
    assume "fst (PromoteReplica s a m') = None"
    then obtain m'' where "PromoteReplica s a m' = (None, m'')" by (metis prod.collapse)
    then obtain r' where "r' \<in> set (group_of (rmReplicas m') s)" "rnAddress r' = a" "rnStatus r' = ''active''"
      using PromoteReplica_None(1) by blast
    then show False using only r(3) by auto
  qed
  then show ?thesis using bad only r(3) by (auto simp: eligible_def)
qed

theorem failed_for_good_witness:
  "fst (PromoteReplica 1 ''p2'' (checkReplicaHealth id (\<lambda>_ _ _. 0) (markReplicaFailed 1 ''p2'' demo_rm))) \<noteq> None"
proof -
  have ok: "rep_ok (markReplicaFailed 1 ''p2'' demo_rm)" using steady_mark demo_rm_ok by (simp add: steady_def)
  have bad: "failed 1 ''p2'' (markReplicaFailed 1 ''p2'' demo_rm)" by (rule failed_mark) simp
  have "(rep_step mem_exec)\<^sup>*\<^sup>* (markReplicaFailed 1 ''p2'' demo_rm, mem_empty [])
      (checkReplicaHealth id (\<lambda>_ _ _. 0) (markReplicaFailed 1 ''p2'' demo_rm), mem_empty [])"
    by (rule r_into_rtranclp, rule rep_step.health)
  from failed_for_good [OF ok this bad] show ?thesis by blast
qed

text \<open>C26: After a replicated write, whatever the order of the goroutines and whichever servers
  failed, a secondary still marked active holds the vector's document in its database. A replicated
  deletion gives no such warrant: it marks no replica as failed, whatever the servers answer.\<close>

theorem replication_reaches:
  assumes "redis_service exec store" "rep_ok m" "is_order order"
    "ReplicateInsert exec now order i v s (m, w) = (err, m', w')"
    "r \<in> set (group_of (rmReplicas m') s)" "rnStatus r = ''active''" "rnRole r \<noteq> ''primary''"
  shows "(\<exists>c x. gm_get (rmAdapters m') (rnAddress r) = Some c \<and> ToBytes v = Inr x
      \<and> dbDocs (store w' (cAddr c) (cDB c)) (vector_key i (vID v)) = Some x)
    \<and> (\<forall>b s'. map rnStatus (group_of (rmReplicas (fst (ReplicateDelete exec now order i b s (m, w)))) s')
          = map rnStatus (group_of (rmReplicas m) s'))"
  using redis_service.ReplicateInsert_reaches [OF assms] by (simp add: replica_has_def ReplicateDelete_status)

theorem replication_reaches_witness:
  "\<exists>err m' w'. ReplicateInsert mem_exec (\<lambda>_ _. 9) rev ''i'' demo_vector 1 (demo_rm, mem_empty [''p1'']) = (err, m', w')
    \<and> (\<exists>c x. gm_get (rmAdapters m') ''p2'' = Some c \<and> ToBytes demo_vector = Inr x
        \<and> dbDocs (mem_store w' (cAddr c) (cDB c)) (vector_key ''i'' (vID demo_vector)) = Some x)"
proof -
  let ?p = "ReplicateInsert mem_exec (\<lambda>_ _. 9) rev ''i'' demo_vector 1 (demo_rm, mem_empty [''p1''])"
  let ?r = "group_of (rmReplicas (fst (snd ?p))) 1 ! 1"
  have "map rnStatus (group_of (rmReplicas (fst (snd ?p))) 1) = [''active'', ''active'']" by code_simp
  then have "length (group_of (rmReplicas (fst (snd ?p))) 1) = 2" "rnStatus ?r = ''active''"
    by (auto dest: map_eq_imp_length_eq simp: list_eq_iff_nth_eq less_2_cases_iff)
  moreover have "rnRole ?r = ''secondary''" "rnAddress ?r = ''p2''" by code_simp+
  moreover obtain err m' w' where "?p = (err, m', w')" using prod_cases3 by blast
  ultimately show ?thesis
    using replication_reaches [OF mem.redis_service_axioms demo_rm_ok is_order_rev, of "\<lambda>_ _. 9" "''i''" demo_vector 1
        "mem_empty [''p1'']" err m' w' ?r] by (auto simp: nth_mem)
qed

text \<open>C12: A health check marks as failed exactly the secondaries whose last successful write is
  older than both limits, and changes nothing else of any replica; no replica is promoted.\<close>

theorem health_check_exact:
  assumes "rep_ok m" "is_order order"
  shows "group_of (rmReplicas (checkReplicaHealth order age m)) s =
    map (\<lambda>r. if rnRole r \<noteq> ''primary'' \<and> age s (rnAddress r) (rnLastSync r) > max (rcMaxLag (rmConfig m)) (rcFailoverTimeout (rmConfig m))
             then r\<lparr>rnStatus := ''failed''\<rparr> else r) (group_of (rmReplicas m) s)"
  using checkReplicaHealth_group [OF assms] by (auto simp: aged_def stale_def)

theorem health_check_exact_witness:
  "map rnStatus (group_of (rmReplicas (checkReplicaHealth rev (\<lambda>_ _ t. 100 - t) demo_rm)) 1) = [''active'', ''failed'']"
  using health_check_exact [OF demo_rm_ok is_order_rev, of "\<lambda>_ _ t. 100 - t" 1] by (simp add: demo_rep_config_def)

text \<open>C28: Promoting a replica other than the recorded primary, where roles and record agree, makes
  it the one primary of its shard. Promoting the primary itself leaves the shard without one.\<close>

theorem promotion:
  assumes "rep_ok m" "roles_ok s m" "PromoteReplica s a m = (None, m')"
  shows "gm_get (rmPrimaryNodes m') s = Some a
    \<and> (if a = primary_of m s then \<forall>r \<in> set (group_of (rmReplicas m') s). rnRole r \<noteq> ''primary''
       else \<forall>r \<in> set (group_of (rmReplicas m') s). rnRole r = ''primary'' \<longleftrightarrow> rnAddress r = a)"
proof (cases "a = primary_of m s")
  case True
  have "rnRole (new_role a a r) \<noteq> ''primary''" if "r \<in> set (group_of (rmReplicas m) s)" for r
    using that assms(2) True by (auto simp: new_role_def roles_ok_def primary_of_def)
  then show ?thesis using PromoteReplica_None(2) [OF assms(3)] PromoteReplica_group [OF assms(3), of s] True
    by (auto simp: gm_get_put)
next
  case False
  then show ?thesis using PromoteReplica_roles [OF assms(1-3)] by (simp add: roles_ok_def eq_commute)
qed

theorem promotion_witness:
  "\<exists>m1 m2. PromoteReplica 1 ''p2'' demo_rm = (None, m1) \<and> gm_get (rmPrimaryNodes m1) 1 = Some ''p2''
    \<and> PromoteReplica 1 ''p1'' demo_rm = (None, m2) \<and> (\<forall>r \<in> set (group_of (rmReplicas m2) 1). rnRole r \<noteq> ''primary'')"
proof -
  have roles: "roles_ok 1 demo_rm" by (auto simp: roles_ok_def)
  obtain m1 m2 where p: "PromoteReplica 1 ''p2'' demo_rm = (None, m1)" "PromoteReplica 1 ''p1'' demo_rm = (None, m2)"
    by (simp add: PromoteReplica_def Let_def)
  have "primary_of demo_rm 1 = ''p1''" by (simp add: primary_of_def)
  then show ?thesis using promotion [OF demo_rm_ok roles p(1)] promotion [OF demo_rm_ok roles p(2)] p by auto
qed

end
