(* ===== verification/Messages.thy ===== *)
theory Messages
  imports Vectors
begin

text \<open>
  The messages of \<open>api/proto/vectorhub.pb.go\<close>, one record per generated struct. A message
  field that may be nil is an option; a repeated message field holds no nil, since decoding
  from the wire never makes one; \<open>int32\<close> and \<open>int64\<close> fields are integers in range; a map
  field is a Go map. The generated bookkeeping fields are left out.
\<close>

record pb_vector =
  pvId :: string
  pvValues :: "float32 list"
  pvMetadata :: "(string, string) gomap"
  pvTimestamp :: int

record insert_request =
  inIndexName :: string
  inVector :: "pb_vector option"

record insert_response =
  ioSuccess :: bool
  ioMessage :: string
  ioVectorId :: string

record batch_insert_request =
  biIndexName :: string
  biVectors :: "pb_vector list"
  biParallel :: bool

record batch_insert_response =
  boSuccess :: bool
  boMessage :: string
  boInsertedCount :: int
  boFailedIds :: "string list"

record search_request =
  srIndexName :: string
  srQueryVector :: "float32 list"
  srTopK :: int
  srFilter :: "(string, string) gomap"
  srMinScore :: float32
  srIncludeMetadata :: bool

record pb_search_result =
  prId :: string
  prScore :: float32
  prVector :: "pb_vector option"
  prDistance :: float32

record search_response =
  soSuccess :: bool
  soMessage :: string
  soResults :: "pb_search_result list"
  soSearchTimeMs :: int

record get_request =
  grIndexName :: string
  grVectorId :: string

record get_response =
  goSuccess :: bool
  goMessage :: string
  goVector :: "pb_vector option"

record update_request =
  urIndexName :: string
  urVectorId :: string
  urVector :: "pb_vector option"

record update_response =
  uoSuccess :: bool
  uoMessage :: string

record delete_request =
  drIndexName :: string
  drVectorId :: string

record delete_response =
  doSuccess :: bool
  doMessage :: string

record batch_delete_request =
  bdIndexName :: string
  bdVectorIds :: "string list"

record batch_delete_response =
  bxSuccess :: bool
  bxMessage :: string
  bxDeletedCount :: int

record create_index_request =
  crIndexName :: string
  crDimension :: int
  crMetric :: string
  crShardCount :: int
  crReplicaCount :: int
  crOptions :: "(string, string) gomap"

record create_index_response =
  coSuccess :: bool
  coMessage :: string

record drop_index_request =
  diIndexName :: string

record drop_index_response =
  dxSuccess :: bool
  dxMessage :: string

record get_stats_request =
  gsIndexName :: string

record shard_stats =
  ssShardId :: int
  ssVectorCount :: int
  ssStatus :: string
  ssReplicaNodes :: "string list"
  ssMemoryUsageBytes :: int

record index_stats =
  isVectorCount :: int
  isDimension :: int
  isMetric :: string
  isShardCount :: int
  isReplicaCount :: int
  isMemoryUsageBytes :: int
  isShardStats :: "(int, shard_stats) gomap"

record get_stats_response =
  gxSuccess :: bool
  gxMessage :: string
  gxStats :: "index_stats option"

end
