(* ===== verification/Metrics.thy ===== *)
theory Metrics
  imports Softfloat Prelude
begin

text \<open>
  \<open>internal/metrics/collector.go\<close>: what the collector asks of Prometheus. The Prometheus
  client is not part of the repository. Making and registering a metric is a parameter, with what
  is documented of it as the locale \<open>prometheus\<close>; a call on a metric is a value, named by the
  collector's field, and the collector's methods are the lists of calls they make. Two documented
  preconditions of such calls are predicates on them: a counter is not asked to go down
  (\<open>call_panics\<close>), and a vector is given as many values as it has labels (\<open>declared\<close>).
\<close>

section \<open>Calls\<close>

datatype metric_call =
    CounterAdd string float64
  | CounterVecAdd string "string list" float64
  | Observe string float64
  | GaugeSet string float64
  | GaugeVecSet string "string list" float64

definition f64_zero :: float64 where "f64_zero = f64_of_int 0"
definition f64_one :: float64 where "f64_one = f64_of_int 1"

text \<open>What the documentation of \<open>Counter.Add\<close> forbids, on pain of a panic: a negative value.\<close>

definition call_panics :: "metric_call \<Rightarrow> bool" where
  "call_panics call = (case call of
     CounterAdd _ x \<Rightarrow> f64_lt x f64_zero | CounterVecAdd _ _ x \<Rightarrow> f64_lt x f64_zero | _ \<Rightarrow> False)"

section \<open>Methods\<close>

definition IncrementCounter :: "string \<Rightarrow> float64 \<Rightarrow> metric_call list" where
  "IncrementCounter name value =
     (if name = ''vectors_inserted'' then [CounterAdd ''vectorsInserted'' value]
      else if name = ''vectors_deleted'' then [CounterAdd ''vectorsDeleted'' value]
      else if name = ''searches'' then [CounterAdd ''searches'' value]
      else if name = ''indexes_created'' then [CounterAdd ''indexesCreated'' value]
      else if name = ''indexes_dropped'' then [CounterAdd ''indexesDropped'' value]
      else [])"

text \<open>
  \<open>duration.Seconds()\<close>: whole seconds and the rest converted apart. Go's \<open>/\<close> and \<open>%\<close> on
  \<open>int64\<close> truncate towards zero.
\<close>

definition quot_trunc :: "int \<Rightarrow> int \<Rightarrow> int" where
  "quot_trunc a b = (if a < 0 then - ((- a) div b) else a div b)"

definition f64_add :: "float64 \<Rightarrow> float64 \<Rightarrow> float64" where
  "f64_add x y = f64_lift (fp_add f64fmt (f64_int x) (f64_int y))"

definition Seconds :: "int \<Rightarrow> float64" where
  "Seconds duration =
     (let sec = quot_trunc duration 1000000000; nsec = duration - 1000000000 * sec
      in f64_add (f64_of_int sec) (f64_div (f64_of_int nsec) (f64_of_int 1000000000)))"

definition RecordLatency :: "string \<Rightarrow> int \<Rightarrow> metric_call list" where
  "RecordLatency operation duration =
     (if operation = ''insert'' then [Observe ''insertLatency'' (Seconds duration)]
      else if operation = ''search'' then [Observe ''searchLatency'' (Seconds duration)]
      else if operation = ''batch_insert'' then [Observe ''batchInsertLatency'' (Seconds duration)]
      else [])
     @ [CounterVecAdd ''requestCounter'' [operation, ''success''] f64_one]"

definition SetGauge :: "string \<Rightarrow> float64 \<Rightarrow> metric_call list" where
  "SetGauge name value =
     (if name = ''active_connections'' then [GaugeSet ''activeConnections'' value]
      else if name = ''vector_count'' then [GaugeSet ''vectorCount'' value]
      else if name = ''index_count'' then [GaugeSet ''indexCount'' value]
      else if name = ''memory_usage'' then [GaugeSet ''memoryUsage'' value]
      else if name = ''cache_hit_rate'' then [GaugeSet ''cacheHitRate'' value]
      else [])"

definition UpdateShardStatus :: "string \<Rightarrow> string \<Rightarrow> bool \<Rightarrow> metric_call list" where
  "UpdateShardStatus shardID node healthy =
     [GaugeVecSet ''shardStatus'' [shardID, node] (if healthy then f64_one else f64_zero)]"

definition UpdateReplicationLag :: "string \<Rightarrow> string \<Rightarrow> float64 \<Rightarrow> metric_call list" where
  "UpdateReplicationLag shardID replica lagSeconds = [GaugeVecSet ''replicationLag'' [shardID, replica] lagSeconds]"

definition IncrementError :: "string \<Rightarrow> string \<Rightarrow> metric_call list" where
  "IncrementError operation errorType =
     [CounterVecAdd ''errorCounter'' [operation, errorType] f64_one,
      CounterVecAdd ''requestCounter'' [operation, ''error''] f64_one]"

text \<open>The per-item latency is a float division: a batch of size 0 does not trap.\<close>

definition RecordBatchOperation :: "string \<Rightarrow> int \<Rightarrow> int \<Rightarrow> int \<Rightarrow> metric_call list" where
  "RecordBatchOperation operation batchSize duration failures =
     (let successes = batchSize - failures;
          perItemLatency = f64_div (Seconds duration) (f64_of_int batchSize)
      in [CounterVecAdd ''requestCounter'' [operation, ''success''] (f64_of_int successes)]
         @ (if failures > 0 then [CounterVecAdd ''requestCounter'' [operation, ''error''] (f64_of_int failures)] else [])
         @ replicate (nat successes) (Observe ''insertLatency'' perItemLatency))"

record metrics_snapshot =
  msVectorsInserted :: float64
  msVectorsDeleted :: float64
  msSearches :: float64
  msActiveConnections :: float64
  msVectorCount :: float64
  msMemoryUsage :: float64
  msCacheHitRate :: float64

definition GetSnapshot :: metrics_snapshot where
  "GetSnapshot = \<lparr>msVectorsInserted = f64_zero, msVectorsDeleted = f64_zero, msSearches = f64_zero,
     msActiveConnections = f64_zero, msVectorCount = f64_zero, msMemoryUsage = f64_zero, msCacheHitRate = f64_zero\<rparr>"

section \<open>Registration\<close>

datatype metric_kind = CounterKind | CounterVecKind | HistogramKind | GaugeKind | GaugeVecKind

record metric_opts =
  moField :: string
  moKind :: metric_kind
  moSubsystem :: string
  moName :: string
  moHelp :: string
  moBuckets :: "float64 list"
  moLabels :: "string list"

text \<open>A constant like \<open>0.025\<close>: the \<open>float64\<close> nearest to the fraction.\<close>

definition f64_frac :: "int \<Rightarrow> int \<Rightarrow> float64" where
  "f64_frac n d = f64_lift (fp_round f64fmt n d 0)"

definition latency_buckets :: "float64 list" where
  "latency_buckets = map (\<lambda>ms. f64_frac ms 1000) [1, 5, 10, 25, 50, 100, 250, 500, 1000, 2500, 5000, 10000]"

definition batch_buckets :: "float64 list" where
  "batch_buckets = map (\<lambda>ms. f64_frac ms 1000) [10, 50, 100, 250, 500, 1000, 2500, 5000, 10000, 25000, 50000]"

definition metric :: "string \<Rightarrow> metric_kind \<Rightarrow> string \<Rightarrow> string \<Rightarrow> string \<Rightarrow> metric_opts" where
  "metric field kind subsystem name help = \<lparr>moField = field, moKind = kind, moSubsystem = subsystem, moName = name,
     moHelp = help, moBuckets = [], moLabels = []\<rparr>"

text \<open>The fields of the collector, in the order in which they are made.\<close>

definition collector_metrics :: "metric_opts list" where
  "collector_metrics =
     [metric ''vectorsInserted'' CounterKind ''vectors'' ''inserted_total'' ''Total number of vectors inserted'',
      metric ''vectorsDeleted'' CounterKind ''vectors'' ''deleted_total'' ''Total number of vectors deleted'',
      metric ''searches'' CounterKind ''operations'' ''searches_total'' ''Total number of search operations'',
      metric ''indexesCreated'' CounterKind ''indexes'' ''created_total'' ''Total number of indexes created'',
      metric ''indexesDropped'' CounterKind ''indexes'' ''dropped_total'' ''Total number of indexes dropped'',
      (metric ''insertLatency'' HistogramKind ''latency'' ''insert_seconds'' ''Insert operation latency in seconds'')
        \<lparr>moBuckets := latency_buckets\<rparr>,
      (metric ''searchLatency'' HistogramKind ''latency'' ''search_seconds'' ''Search operation latency in seconds'')
        \<lparr>moBuckets := latency_buckets\<rparr>,
      (metric ''batchInsertLatency'' HistogramKind ''latency'' ''batch_insert_seconds''
         ''Batch insert operation latency in seconds'')\<lparr>moBuckets := batch_buckets\<rparr>,
      metric ''activeConnections'' GaugeKind ''connections'' ''active'' ''Number of active client connections'',
      metric ''vectorCount'' GaugeKind ''storage'' ''vector_count'' ''Total number of vectors stored'',
      metric ''indexCount'' GaugeKind ''storage'' ''index_count'' ''Total number of indexes'',
      metric ''memoryUsage'' GaugeKind ''system'' ''memory_usage_bytes'' ''Memory usage in bytes'',
      (metric ''shardStatus'' GaugeVecKind ''shards'' ''status'' ''Status of each shard (1=healthy, 0=unhealthy)'')
        \<lparr>moLabels := [''shard_id'', ''node'']\<rparr>,
      (metric ''replicationLag'' GaugeVecKind ''replication'' ''lag_seconds'' ''Replication lag in seconds'')
        \<lparr>moLabels := [''shard_id'', ''replica'']\<rparr>,
      metric ''cacheHitRate'' GaugeKind ''cache'' ''hit_rate'' ''Cache hit rate (0-1)'',
      (metric ''errorCounter'' CounterVecKind ''errors'' ''total'' ''Total errors by operation'')
        \<lparr>moLabels := [''operation'', ''error_type'']\<rparr>,
      (metric ''requestCounter'' CounterVecKind ''requests'' ''total'' ''Total requests by operation'')
        \<lparr>moLabels := [''operation'', ''status'']\<rparr>]"

text \<open>
  \<open>promauto\<close> makes a metric and registers it, under its full name (the namespace of every metric
  is \<open>vectorhub\<close>), in the registry of the process: \<open>register\<close>, which may panic. The collector makes its
  metrics in order.
\<close>

definition full_name :: "metric_opts \<Rightarrow> string" where
  "full_name m = ''vectorhub_'' @ moSubsystem m @ ''_'' @ moName m"

fun make_all :: "(metric_opts \<Rightarrow> 'r \<Rightarrow> 'r outcome) \<Rightarrow> metric_opts list \<Rightarrow> 'r \<Rightarrow> 'r outcome" where
  "make_all register [] reg = Returns reg"
| "make_all register (m # ms) reg =
     (case register m reg of Crashes e \<Rightarrow> Crashes e | Returns reg' \<Rightarrow> make_all register ms reg')"

definition NewCollector :: "(metric_opts \<Rightarrow> 'r \<Rightarrow> 'r outcome) \<Rightarrow> 'r \<Rightarrow> 'r outcome" where
  "NewCollector register reg = make_all register collector_metrics reg"

text \<open>
  A call goes to a field of the collector, of its kind and with as many values as the field's metric
  has labels.
\<close>

fun call_parts :: "metric_call \<Rightarrow> string \<times> metric_kind \<times> nat" where
  "call_parts (CounterAdd f _) = (f, CounterKind, 0)"
| "call_parts (CounterVecAdd f ls _) = (f, CounterVecKind, length ls)"
| "call_parts (Observe f _) = (f, HistogramKind, 0)"
| "call_parts (GaugeSet f _) = (f, GaugeKind, 0)"
| "call_parts (GaugeVecSet f ls _) = (f, GaugeVecKind, length ls)"

definition declared :: "metric_call \<Rightarrow> bool" where
  "declared call \<longleftrightarrow> call_parts call \<in> set (map (\<lambda>m. (moField m, moKind m, length (moLabels m))) collector_metrics)"

section \<open>Which calls panic\<close>

lemma fp_round_pos:
  assumes "0 < N" shows "0 < fp_round f64fmt N 1 0"
proof -
  define k where "k = nat (bit_length N - 1)"
  have "2 ^ k \<le> N" "N < 2 ^ Suc k"
    using bit_length_bounds [OF assms] by (simp_all add: k_def Suc_nat_eq_nat_zadd1)
  then have lead: "lead_exp N 1 = int k" using lead_exp_one [OF assms] by blast
  let ?lsb = "max (fp_emin f64fmt) (lead_exp N 1 + 0 - int (frac_bits f64fmt))"
  let ?t = "0 - ?lsb"
  let ?m = "if 0 \<le> ?t then rne (N * 2 ^ nat ?t) 1 else rne N (1 * 2 ^ nat (- ?t))"
  have "0 \<le> ?m" using assms by (auto intro!: rne_nonneg)
  moreover have "fp_emin f64fmt < ?lsb" by (simp add: lead fp_emin_def f64fmt_def)
  then have "0 < (?lsb - fp_emin f64fmt) * 2 ^ frac_bits f64fmt" by simp
  moreover have "0 < fp_inf f64fmt" by (simp add: fp_inf_pos)
  ultimately show ?thesis using assms unfolding fp_round_def Let_def by simp
qed

lemma f64_int_lift: "0 \<le> b \<Longrightarrow> b < 2 * fp_signbit f64fmt \<Longrightarrow> f64_int (f64_lift b) = b"
  by (simp add: f64_int_def f64_lift_def fp_signbit_def f64fmt_def uint_word_of_int)

text \<open>An integer converts to a negative value exactly when it is negative.\<close>

lemma f64_of_int_negative: "f64_lt (f64_of_int i) f64_zero \<longleftrightarrow> i < 0"
proof -
  let ?m = "\<lambda>i. fp_round f64fmt \<bar>i\<bar> 1 0"
  have r: "0 \<le> ?m i" "?m i \<le> fp_inf f64fmt" "?m i < fp_signbit f64fmt" for i
    using fp_round_range [OF wf_f64fmt, of "\<bar>i\<bar>" 1 0] fp_qnan_range [OF wf_f64fmt] by simp_all
  have b: "f64_int (f64_of_int i) = fp_sgn f64fmt (i < 0) (?m i)" for i
    unfolding f64_of_int_def fp_of_int_def using fp_sgn_range [OF r(1,3), of "i < 0" i] by (intro f64_int_lift) simp_all
  have k: "fp_key f64fmt (f64_int (f64_of_int i)) = (if i < 0 then - ?m i else ?m i)"
    and n: "\<not> fp_is_nan f64fmt (f64_int (f64_of_int i))" for i
    unfolding b using r [of i] by (simp_all add: fp_key_def fp_neg_sgn fp_mag_sgn fp_is_nan_def)
  have "?m 0 = 0" by (simp add: fp_round_def)
  then have "f64_lt (f64_of_int i) f64_zero \<longleftrightarrow> (if i < 0 then - ?m i else ?m i) < 0"
    using n k [of 0] by (simp add: f64_lt_def f64_zero_def fp_lt_def k)
  then show ?thesis using fp_round_pos [of "\<bar>i\<bar>"] r(1) [of i] by (cases "i < 0") auto
qed

lemma f64_one_not_negative [simp]: "\<not> f64_lt f64_one f64_zero"
  by (simp add: f64_one_def f64_of_int_negative)

text \<open>
  Counting something that is not negative is safe, and every method calls what the collector has; a
  batch with more failures than items asks a counter to go down.
\<close>

lemma declared_calls:
  "list_all declared (IncrementCounter name x)" "list_all declared (RecordLatency oper d)"
  "list_all declared (SetGauge name x)" "list_all declared (UpdateShardStatus sh node healthy)"
  "list_all declared (UpdateReplicationLag sh replica x)" "list_all declared (IncrementError oper e)"
  "list_all declared (RecordBatchOperation oper n d bad)"
  by (auto simp: IncrementCounter_def RecordLatency_def SetGauge_def UpdateShardStatus_def UpdateReplicationLag_def
      IncrementError_def RecordBatchOperation_def Let_def declared_def collector_metrics_def metric_def list_all_iff)

lemma IncrementCounter_safe:
  "0 \<le> n \<Longrightarrow> call \<in> set (IncrementCounter name (f64_of_int n)) \<Longrightarrow> \<not> call_panics call \<and> declared call"
  using declared_calls(1) [of name "f64_of_int n"]
  by (auto simp: IncrementCounter_def call_panics_def f64_of_int_negative split: if_splits)

lemma RecordLatency_safe: "call \<in> set (RecordLatency oper d) \<Longrightarrow> \<not> call_panics call \<and> declared call"
  using declared_calls(2) [of oper d] by (auto simp: RecordLatency_def call_panics_def split: if_splits)

lemma RecordBatch_panics: "(\<exists>call \<in> set (RecordBatchOperation oper n d failures). call_panics call) \<longleftrightarrow> n < failures"
  by (auto simp: RecordBatchOperation_def Let_def call_panics_def f64_of_int_negative)

section \<open>What is registered\<close>

lemma latency_increasing: "sorted_wrt f64_lt latency_buckets" by code_simp

lemma batch_increasing: "sorted_wrt f64_lt batch_buckets" by code_simp

lemma collector_buckets: "m \<in> set collector_metrics \<Longrightarrow> sorted_wrt f64_lt (moBuckets m)"
  using latency_increasing batch_increasing by (auto simp: collector_metrics_def metric_def)

lemma collector_names: "distinct (map full_name collector_metrics)"
  by (simp add: collector_metrics_def metric_def full_name_def)

text \<open>
  What is documented of \<open>promauto\<close>, over the names that a registry has: a histogram's buckets must
  increase; a metric under a new name is registered, and one under a name that is taken panics.
\<close>

locale prometheus =
  fixes register :: "metric_opts \<Rightarrow> 'r \<Rightarrow> 'r outcome" and names :: "'r \<Rightarrow> string set"
  assumes register_new: "sorted_wrt f64_lt (moBuckets m) \<Longrightarrow> full_name m \<notin> names reg \<Longrightarrow>
      \<exists>reg'. register m reg = Returns reg' \<and> names reg' = insert (full_name m) (names reg)"
    and register_taken: "full_name m \<in> names reg \<Longrightarrow> \<exists>e. register m reg = Crashes e"
begin

lemma make_all_result:
  assumes "\<And>m. m \<in> set ms \<Longrightarrow> sorted_wrt f64_lt (moBuckets m)" "distinct (map full_name ms)"
  shows "if full_name ` set ms \<inter> names reg = {}
    then \<exists>reg'. make_all register ms reg = Returns reg' \<and> names reg' = names reg \<union> full_name ` set ms
    else \<exists>e. make_all register ms reg = Crashes e"
  using assms
proof (induction ms arbitrary: reg)
  case (Cons m ms)
  show ?case
  proof (cases "full_name m \<in> names reg")
    case True
    then show ?thesis using register_taken [OF True] by auto
  next
    case False
    obtain reg' where r: "register m reg = Returns reg'" "names reg' = insert (full_name m) (names reg)"
      using register_new [OF _ False] Cons.prems(1) by auto
    have "full_name ` set ms \<inter> names reg' = full_name ` set ms \<inter> names reg" using Cons.prems(2) r(2) by auto
    then show ?thesis using Cons.IH [of reg'] Cons.prems False by (auto simp: r)
  qed
qed simp

lemma NewCollector_result:
  "if full_name ` set collector_metrics \<inter> names reg = {}
    then \<exists>reg'. NewCollector register reg = Returns reg' \<and> names reg' = names reg \<union> full_name ` set collector_metrics
    else \<exists>e. NewCollector register reg = Crashes e"
  unfolding NewCollector_def using collector_buckets collector_names by (rule make_all_result)

lemma NewCollector_Returns:
  assumes "NewCollector register reg = Returns reg'"
  shows "full_name ` set collector_metrics \<inter> names reg = {}" "names reg' = names reg \<union> full_name ` set collector_metrics"
  using NewCollector_result [of reg] assms by (auto split: if_splits)

lemma NewCollector_twice:
  assumes "NewCollector register reg = Returns reg'" shows "\<exists>e. NewCollector register reg' = Crashes e"
proof -
  have "collector_metrics \<noteq> []" by (simp add: collector_metrics_def)
  then have "full_name ` set collector_metrics \<inter> names reg' \<noteq> {}"
    using NewCollector_Returns(2) [OF assms] by (auto simp: neq_Nil_conv)
  then show ?thesis using NewCollector_result [of reg'] by (simp only: if_False)
qed

end

text \<open>A registry that is the list of its names meets the contract.\<close>

definition list_register :: "metric_opts \<Rightarrow> string list \<Rightarrow> string list outcome" where
  "list_register m taken =
     (if \<not> sorted_wrt f64_lt (moBuckets m) then Crashes ''histogram buckets must be in increasing order''
      else if full_name m \<in> set taken then Crashes ''duplicate metrics collector registration attempted''
      else Returns (taken @ [full_name m]))"

interpretation list_prometheus: prometheus list_register set
  by unfold_locales (auto simp: list_register_def)

end
