(* ===== verification/Vector_Service.thy ===== *)
theory Vector_Service
  imports Messages Metrics Shard_Manager Replication
begin

text \<open>
  \<open>internal/server/vector_service.go\<close>: the RPC handlers. The state is the shard manager, the
  replication manager, the table of indexes and the calls made on the metrics so far; each
  handler takes and returns it with the Redis world. What the runtime decides (clock readings,
  the order of map walks, of goroutines and of their results) is one parameter of a handler.
  The handlers run one at a time here; logging is left out.
\<close>

section \<open>State and runtime\<close>

record service =
  svShards :: shard_manager
  svReplication :: replication_manager
  svIndexes :: "(string, vector_index) gomap"
  svMetrics :: "metric_call list"

definition NewVectorService :: "shard_manager \<Rightarrow> replication_manager \<Rightarrow> service" where
  "NewVectorService sm rm = \<lparr>svShards = sm, svReplication = rm, svIndexes = [], svMetrics = []\<rparr>"

text \<open>
  \<open>rtNano i\<close> is the \<open>i\<close>-th reading of \<open>UnixNano\<close>, \<open>rtElapsed\<close> the time a deferred latency
  record measures, \<open>rtSearchTime\<close> the time at the end of a search.
\<close>

record rt =
  rtNano :: "nat \<Rightarrow> int"
  rtElapsed :: int
  rtSearchTime :: int
  rtClock :: clock
  rtReplicas :: replica_order
  rtGroups :: "(int \<times> stored_vector list) list \<Rightarrow> (int \<times> stored_vector list) list"
  rtIdGroups :: "(int \<times> string list) list \<Rightarrow> (int \<times> string list) list"
  rtShards :: shard_order
  rtResults :: "search_result list list \<Rightarrow> search_result list list"

definition rt_ok :: "rt \<Rightarrow> bool" where
  "rt_ok rt \<longleftrightarrow> is_order (rtReplicas rt) \<and> is_order (rtGroups rt) \<and> is_order (rtIdGroups rt)
     \<and> is_order (rtShards rt) \<and> is_order (rtResults rt)"

definition add_metrics :: "metric_call list \<Rightarrow> service \<Rightarrow> service" where
  "add_metrics calls sv = sv\<lparr>svMetrics := svMetrics sv @ calls\<rparr>"

text \<open>The deferred \<open>RecordLatency\<close>: on every way out of the handler.\<close>

definition timed :: "string \<Rightarrow> rt \<Rightarrow> 'r \<times> service \<times> 'w \<Rightarrow> 'r \<times> service \<times> 'w" where
  "timed operation rt p = (case p of (r, sv, w) \<Rightarrow> (r, add_metrics (RecordLatency operation (rtElapsed rt)) sv, w))"

section \<open>Shared pieces\<close>

definition index_not_found :: "string \<Rightarrow> string" where
  "index_not_found name = ''index '' @ name @ '' not found''"

definition mismatch :: "string \<Rightarrow> vector_index \<Rightarrow> float32 list \<Rightarrow> string" where
  "mismatch what index values =
     what @ '' dimension mismatch: expected '' @ fmt_d (xDimension index) @ '', got '' @ fmt_d (int (length values))"

definition stored_of :: "string \<Rightarrow> pb_vector \<Rightarrow> int \<Rightarrow> stored_vector" where
  "stored_of vid v t = \<lparr>vID = vid, vMetadata = pvMetadata v, vTimestamp = t, vValues = pvValues v\<rparr>"

definition pb_of :: "stored_vector \<Rightarrow> pb_vector" where
  "pb_of v = \<lparr>pvId = vID v, pvValues = vValues v, pvMetadata = vMetadata v, pvTimestamp = vTimestamp v\<rparr>"

section \<open>Insert\<close>

definition insert_failed :: "string \<Rightarrow> insert_response" where
  "insert_failed msg = \<lparr>ioSuccess = False, ioMessage = msg, ioVectorId = []\<rparr>"

text \<open>The handler up to its metrics, which \<open>StreamInsert\<close> repeats for each request.\<close>

definition insert_core :: "'w redis \<Rightarrow> rt \<Rightarrow> insert_request \<Rightarrow> service \<times> 'w \<Rightarrow> insert_response \<times> service \<times> 'w" where
  "insert_core exec rt req svw =
     (let sv = fst svw; w = snd svw; name = inIndexName req
      in case inVector req of
           None \<Rightarrow> (insert_failed ''vector is required'', sv, w)
         | Some v \<Rightarrow>
             if pvValues v = [] then (insert_failed ''vector is required'', sv, w)
             else case gm_get (svIndexes sv) name of
               None \<Rightarrow> (insert_failed (index_not_found name), sv, w)
             | Some index \<Rightarrow>
                 if int (length (pvValues v)) \<noteq> xDimension index
                 then (insert_failed (mismatch ''vector'' index (pvValues v)), sv, w)
                 else let storedVector = stored_of (pvId v) v (rtNano rt 0)
                      in case locate (svShards sv) (pvId v) of
                           Inl e \<Rightarrow> (insert_failed e, sv, w)
                         | Inr (shardID, adapter) \<Rightarrow>
                             (case StoreVector exec adapter name storedVector w of
                                (Some e, w') \<Rightarrow> (insert_failed e, sv, w')
                              | (None, w') \<Rightarrow>
                                  (case ReplicateInsert exec (rtClock rt) (rtReplicas rt) name storedVector shardID
                                          (svReplication sv, w') of
                                     (_, rm, w'') \<Rightarrow>
                                       (\<lparr>ioSuccess = True, ioMessage = ''vector inserted successfully'',
                                         ioVectorId = pvId v\<rparr>,
                                        sv\<lparr>svReplication := rm\<rparr>, w''))))"

definition Insert :: "'w redis \<Rightarrow> rt \<Rightarrow> insert_request \<Rightarrow> service \<times> 'w \<Rightarrow> insert_response \<times> service \<times> 'w" where
  "Insert exec rt req svw = timed ''insert'' rt
     (case insert_core exec rt req svw of
        (resp, sv, w) \<Rightarrow>
          (resp, if ioSuccess resp then add_metrics (IncrementCounter ''vectors_inserted'' f64_one) sv else sv, w))"

section \<open>BatchInsert\<close>

definition batch_failed :: "string \<Rightarrow> batch_insert_response" where
  "batch_failed msg = \<lparr>boSuccess = False, boMessage = msg, boInsertedCount = 0, boFailedIds = []\<rparr>"

text \<open>One vector of the request: to its shard's group, or among the failed.\<close>

definition group_vector :: "shard_manager \<Rightarrow> vector_index \<Rightarrow> rt \<Rightarrow> nat \<times> pb_vector
    \<Rightarrow> (int, stored_vector list) gomap \<times> string list \<Rightarrow> (int, stored_vector list) gomap \<times> string list" where
  "group_vector sm index rt iv gf =
     (let v = snd iv; groups = fst gf; failedIDs = snd gf
      in if int (length (pvValues v)) \<noteq> xDimension index then (groups, failedIDs @ [pvId v])
         else case GetShardForKey sm (pvId v) of
           Inl _ \<Rightarrow> (groups, failedIDs @ [pvId v])
         | Inr shardID \<Rightarrow> (append_group shardID (stored_of (pvId v) v (rtNano rt (fst iv))) groups, failedIDs))"

definition group_vectors :: "shard_manager \<Rightarrow> vector_index \<Rightarrow> rt \<Rightarrow> pb_vector list
    \<Rightarrow> (int, stored_vector list) gomap \<times> string list" where
  "group_vectors sm index rt vs = fold (group_vector sm index rt) (enumerate 0 vs) ([], [])"

text \<open>
  One shard's group: the body of the sequential loop and of the goroutine. \<open>Parallel\<close> decides
  only who chooses the order, which is arbitrary either way.
\<close>

definition store_group :: "'w redis \<Rightarrow> rt \<Rightarrow> string \<Rightarrow> int \<times> stored_vector list
    \<Rightarrow> nat \<times> string list \<times> service \<times> 'w \<Rightarrow> nat \<times> string list \<times> service \<times> 'w" where
  "store_group exec rt name g st =
     (case st of (inserted, failedIDs, sv, w) \<Rightarrow>
        let shardID = fst g; vs = snd g
        in case GetShardAdapter (svShards sv) shardID of
             Inl _ \<Rightarrow> (inserted, failedIDs @ map vID vs, sv, w)
           | Inr adapter \<Rightarrow>
               (case BatchStoreVectors exec adapter name vs w of
                  (Some _, w') \<Rightarrow> (inserted, failedIDs @ map vID vs, sv, w')
                | (None, w') \<Rightarrow>
                    (case ReplicateBatch exec (rtClock rt) (rtReplicas rt) name vs shardID (svReplication sv, w') of
                       (rm, w'') \<Rightarrow> (inserted + length vs, failedIDs, sv\<lparr>svReplication := rm\<rparr>, w''))))"

text \<open>The handler up to its metrics, with the number inserted.\<close>

definition batch_insert_core :: "'w redis \<Rightarrow> rt \<Rightarrow> batch_insert_request \<Rightarrow> service \<times> 'w
    \<Rightarrow> (batch_insert_response \<times> nat option) \<times> service \<times> 'w" where
  "batch_insert_core exec rt req svw =
     (let sv = fst svw; w = snd svw; name = biIndexName req
      in case gm_get (svIndexes sv) name of
           None \<Rightarrow> ((batch_failed (index_not_found name), None), sv, w)
         | Some index \<Rightarrow>
             (case group_vectors (svShards sv) index rt (biVectors req) of
                (shardGroups, failedIDs) \<Rightarrow>
                  (case fold (store_group exec rt name) (rtGroups rt shardGroups) (0, failedIDs, sv, w) of
                     (inserted, failedIDs', sv', w') \<Rightarrow>
                       ((\<lparr>boSuccess = inserted > 0, boMessage = ''inserted '' @ fmt_d (int inserted) @ '' vectors'',
                          boInsertedCount = int32_of (int inserted), boFailedIds = failedIDs'\<rparr>, Some inserted),
                        sv', w'))))"

definition BatchInsert :: "'w redis \<Rightarrow> rt \<Rightarrow> batch_insert_request \<Rightarrow> service \<times> 'w
    \<Rightarrow> batch_insert_response \<times> service \<times> 'w" where
  "BatchInsert exec rt req svw = timed ''batch_insert'' rt
     (case batch_insert_core exec rt req svw of
        ((resp, None), sv, w) \<Rightarrow> (resp, sv, w)
      | ((resp, Some inserted), sv, w) \<Rightarrow>
          (resp, add_metrics (IncrementCounter ''vectors_inserted'' (f64_of_int (int inserted))) sv, w))"

section \<open>Search\<close>

definition search_failed :: "string \<Rightarrow> search_response" where
  "search_failed msg = \<lparr>soSuccess = False, soMessage = msg, soResults = [], soSearchTimeMs = 0\<rparr>"

text \<open>The goroutines, one per shard; what fails is sent where nobody reads it.\<close>

fun search_shards :: "'w redis \<Rightarrow> shard_manager \<Rightarrow> string \<Rightarrow> float32 list \<Rightarrow> nat \<Rightarrow> (string, string) gomap
    \<Rightarrow> shard_info list \<Rightarrow> 'w \<Rightarrow> search_result list list \<times> 'w" where
  "search_shards exec sm name q topK flt [] w = ([], w)"
| "search_shards exec sm name q topK flt (shard # shards) w =
     (case GetShardAdapter sm (siID shard) of
        Inl _ \<Rightarrow> search_shards exec sm name q topK flt shards w
      | Inr adapter \<Rightarrow>
          (case SearchVectors exec adapter name q topK flt w of
             (Inl _, w') \<Rightarrow> search_shards exec sm name q topK flt shards w'
           | (Inr results, w') \<Rightarrow>
               (case search_shards exec sm name q topK flt shards w' of (rest, w'') \<Rightarrow> (results # rest, w''))))"

definition top_k :: "search_request \<Rightarrow> nat" where
  "top_k req = (if srTopK req \<le> 0 then 10 else nat (srTopK req))"

definition kept :: "search_request \<Rightarrow> search_result \<Rightarrow> bool" where
  "kept req r \<longleftrightarrow> \<not> (f32_lt f32_zero (srMinScore req) \<and> f32_lt (rScore r) (srMinScore req))"

definition pb_result :: "search_request \<Rightarrow> search_result \<Rightarrow> pb_search_result" where
  "pb_result req r =
     \<lparr>prId = rID r, prScore = rScore r,
      prVector = (if srIncludeMetadata req then map_option pb_of (rVector r) else None), prDistance = rDistance r\<rparr>"

text \<open>The handler up to its metrics; the ranking at its end is the one of \<open>SearchVectors\<close>.\<close>

definition search_core :: "'w redis \<Rightarrow> rt \<Rightarrow> search_request \<Rightarrow> service \<times> 'w \<Rightarrow> search_response \<times> service \<times> 'w" where
  "search_core exec rt req svw =
     (let sv = fst svw; w = snd svw; name = srIndexName req; q = srQueryVector req
      in case gm_get (svIndexes sv) name of
           None \<Rightarrow> (search_failed (index_not_found name), sv, w)
         | Some index \<Rightarrow>
             if int (length q) \<noteq> xDimension index then (search_failed (mismatch ''query vector'' index q), sv, w)
             else let shards = GetHealthyShards (rtShards rt) (svShards sv)
                  in if shards = [] then (search_failed ''no healthy shards available'', sv, w)
                     else (case search_shards exec (svShards sv) name q (top_k req) (srFilter req) shards w of
                             (results, w') \<Rightarrow>
                               let allResults = best_results (concat (rtResults rt results)) (top_k req)
                               in (\<lparr>soSuccess = True, soMessage = ''search completed'',
                                    soResults = map (pb_result req) (filter (kept req) allResults),
                                    soSearchTimeMs = 0\<rparr>, sv, w')))"

definition Search :: "'w redis \<Rightarrow> rt \<Rightarrow> search_request \<Rightarrow> service \<times> 'w \<Rightarrow> search_response \<times> service \<times> 'w" where
  "Search exec rt req svw = timed ''search'' rt
     (case search_core exec rt req svw of
        (resp, sv, w) \<Rightarrow>
          if soSuccess resp
          then (resp\<lparr>soSearchTimeMs := quot_trunc (rtSearchTime rt) 1000000\<rparr>,
                add_metrics (IncrementCounter ''searches'' f64_one) sv, w)
          else (resp, sv, w))"

section \<open>Get, Update, Delete\<close>

definition get_failed :: "string \<Rightarrow> get_response" where
  "get_failed msg = \<lparr>goSuccess = False, goMessage = msg, goVector = None\<rparr>"

definition Get :: "'w redis \<Rightarrow> get_request \<Rightarrow> service \<times> 'w \<Rightarrow> get_response \<times> service \<times> 'w" where
  "Get exec req svw =
     (let sv = fst svw; w = snd svw
      in case locate (svShards sv) (grVectorId req) of
           Inl e \<Rightarrow> (get_failed e, sv, w)
         | Inr (shardID, adapter) \<Rightarrow>
             (case GetVector exec adapter (grIndexName req) (grVectorId req) w of
                (Inl e, w') \<Rightarrow> (get_failed e, sv, w')
              | (Inr v, w') \<Rightarrow>
                  (\<lparr>goSuccess = True, goMessage = ''vector retrieved'', goVector = Some (pb_of v)\<rparr>, sv, w')))"

definition update_failed :: "string \<Rightarrow> update_response" where
  "update_failed msg = \<lparr>uoSuccess = False, uoMessage = msg\<rparr>"

text \<open>A request without a vector is dereferenced all the same.\<close>

definition Update :: "'w redis \<Rightarrow> rt \<Rightarrow> update_request \<Rightarrow> service \<times> 'w
    \<Rightarrow> (update_response \<times> service \<times> 'w) outcome" where
  "Update exec rt req svw =
     (let sv = fst svw; w = snd svw; name = urIndexName req; vid = urVectorId req
      in case gm_get (svIndexes sv) name of
           None \<Rightarrow> Returns (update_failed (index_not_found name), sv, w)
         | Some index \<Rightarrow>
             (case urVector req of
                None \<Rightarrow> Crashes ''nil pointer dereference''
              | Some v \<Rightarrow>
                  if int (length (pvValues v)) \<noteq> xDimension index
                  then Returns (update_failed (mismatch ''vector'' index (pvValues v)), sv, w)
                  else let storedVector = stored_of vid v (rtNano rt 0)
                       in case locate (svShards sv) vid of
                            Inl e \<Rightarrow> Returns (update_failed e, sv, w)
                          | Inr (shardID, adapter) \<Rightarrow>
                              (case DeleteVector exec adapter name vid w of
                                 (_, w1) \<Rightarrow>
                                   (case StoreVector exec adapter name storedVector w1 of
                                      (Some e, w2) \<Rightarrow> Returns (update_failed e, sv, w2)
                                    | (None, w2) \<Rightarrow>
                                        (case ReplicateUpdate exec (rtClock rt) (rtReplicas rt) name storedVector shardID
                                                (svReplication sv, w2) of
                                           (_, rm, w3) \<Rightarrow>
                                             Returns (\<lparr>uoSuccess = True, uoMessage = ''vector updated successfully''\<rparr>,
                                                      sv\<lparr>svReplication := rm\<rparr>, w3))))))"

definition delete_failed :: "string \<Rightarrow> delete_response" where
  "delete_failed msg = \<lparr>doSuccess = False, doMessage = msg\<rparr>"

definition Delete :: "'w redis \<Rightarrow> rt \<Rightarrow> delete_request \<Rightarrow> service \<times> 'w \<Rightarrow> delete_response \<times> service \<times> 'w" where
  "Delete exec rt req svw =
     (let sv = fst svw; w = snd svw; name = drIndexName req; vid = drVectorId req
      in case locate (svShards sv) vid of
           Inl e \<Rightarrow> (delete_failed e, sv, w)
         | Inr (shardID, adapter) \<Rightarrow>
             (case DeleteVector exec adapter name vid w of
                (Some e, w1) \<Rightarrow> (delete_failed e, sv, w1)
              | (None, w1) \<Rightarrow>
                  (case ReplicateDelete exec (rtClock rt) (rtReplicas rt) name vid shardID (svReplication sv, w1) of
                     (rm, w2) \<Rightarrow>
                       (\<lparr>doSuccess = True, doMessage = ''vector deleted successfully''\<rparr>,
                        add_metrics (IncrementCounter ''vectors_deleted'' f64_one) (sv\<lparr>svReplication := rm\<rparr>), w2))))"

section \<open>BatchDelete\<close>

text \<open>Ids by shard; an id without a shard is left out.\<close>

definition group_ids :: "shard_manager \<Rightarrow> string list \<Rightarrow> (int, string list) gomap" where
  "group_ids sm ids =
     fold (\<lambda>vid groups. case GetShardForKey sm vid of Inl _ \<Rightarrow> groups | Inr shardID \<Rightarrow> append_group shardID vid groups)
       ids []"

definition delete_group :: "'w redis \<Rightarrow> rt \<Rightarrow> string \<Rightarrow> int \<times> string list
    \<Rightarrow> nat \<times> service \<times> 'w \<Rightarrow> nat \<times> service \<times> 'w" where
  "delete_group exec rt name g st =
     (case st of (totalDeleted, sv, w) \<Rightarrow>
        let shardID = fst g; ids = snd g
        in case GetShardAdapter (svShards sv) shardID of
             Inl _ \<Rightarrow> (totalDeleted, sv, w)
           | Inr adapter \<Rightarrow>
               (case BatchDeleteVectors exec adapter name ids w of
                  (Inl _, w1) \<Rightarrow> (totalDeleted, sv, w1)
                | (Inr deleted, w1) \<Rightarrow>
                    (case ReplicateBatchDelete exec (rtClock rt) (rtReplicas rt) name ids shardID (svReplication sv, w1) of
                       (rm, w2) \<Rightarrow> (totalDeleted + deleted, sv\<lparr>svReplication := rm\<rparr>, w2))))"

definition BatchDelete :: "'w redis \<Rightarrow> rt \<Rightarrow> batch_delete_request \<Rightarrow> service \<times> 'w
    \<Rightarrow> batch_delete_response \<times> service \<times> 'w" where
  "BatchDelete exec rt req svw =
     (case fold (delete_group exec rt (bdIndexName req))
             (rtIdGroups rt (group_ids (svShards (fst svw)) (bdVectorIds req))) (0, svw) of
        (totalDeleted, sv, w) \<Rightarrow>
          (\<lparr>bxSuccess = totalDeleted > 0, bxMessage = ''deleted '' @ fmt_d (int totalDeleted) @ '' vectors'',
            bxDeletedCount = int32_of (int totalDeleted)\<rparr>,
           add_metrics (IncrementCounter ''vectors_deleted'' (f64_of_int (int totalDeleted))) sv, w))"

section \<open>Indexes\<close>

text \<open>Every shard whose adapter is to be had; what fails there is only logged.\<close>

definition on_shards :: "rt \<Rightarrow> shard_manager \<Rightarrow> (conn \<Rightarrow> 'w \<Rightarrow> string option \<times> 'w) \<Rightarrow> 'w \<Rightarrow> 'w" where
  "on_shards rt sm f w =
     fold (\<lambda>shard w. case GetShardAdapter sm (siID shard) of Inl _ \<Rightarrow> w | Inr adapter \<Rightarrow> snd (f adapter w))
       (GetAllShards (rtShards rt) sm) w"

definition CreateIndex :: "'w redis \<Rightarrow> rt \<Rightarrow> create_index_request \<Rightarrow> service \<times> 'w
    \<Rightarrow> create_index_response \<times> service \<times> 'w" where
  "CreateIndex exec rt req svw =
     (let sv = fst svw; w = snd svw; name = crIndexName req
      in if gm_get (svIndexes sv) name \<noteq> None
         then (\<lparr>coSuccess = False, coMessage = ''index '' @ name @ '' already exists''\<rparr>, sv, w)
         else let index = NewVectorIndex (rtNano rt 0) name (crDimension req) (crMetric req)
                            (crShardCount req) (crReplicaCount req)
              in case Validate index of
                   Some e \<Rightarrow> (\<lparr>coSuccess = False, coMessage = e\<rparr>, sv, w)
                 | None \<Rightarrow>
                     let index = index\<lparr>xOptions := fold (\<lambda>(k, v). gm_put k v) (crOptions req) (xOptions index)\<rparr>;
                         w' = on_shards rt (svShards sv) (\<lambda>adapter. adapter_CreateIndex exec adapter index) w
                     in (\<lparr>coSuccess = True, coMessage = ''index '' @ name @ '' created successfully''\<rparr>,
                         add_metrics (IncrementCounter ''indexes_created'' f64_one)
                           (sv\<lparr>svIndexes := gm_put name index (svIndexes sv)\<rparr>), w'))"

definition DropIndex :: "'w redis \<Rightarrow> rt \<Rightarrow> drop_index_request \<Rightarrow> service \<times> 'w
    \<Rightarrow> drop_index_response \<times> service \<times> 'w" where
  "DropIndex exec rt req svw =
     (let sv = fst svw; w = snd svw; name = diIndexName req
      in if gm_get (svIndexes sv) name = None
         then (\<lparr>dxSuccess = False, dxMessage = index_not_found name\<rparr>, sv, w)
         else (\<lparr>dxSuccess = True, dxMessage = ''index '' @ name @ '' dropped successfully''\<rparr>,
               add_metrics (IncrementCounter ''indexes_dropped'' f64_one)
                 (sv\<lparr>svIndexes := gm_del name (svIndexes sv)\<rparr>),
               on_shards rt (svShards sv) (\<lambda>adapter. adapter_DropIndex exec adapter name) w))"

section \<open>Statistics\<close>

definition shard_stat :: "'w redis \<Rightarrow> shard_manager \<Rightarrow> string \<Rightarrow> shard_info
    \<Rightarrow> (int, shard_stats) gomap \<times> int \<times> int \<times> 'w \<Rightarrow> (int, shard_stats) gomap \<times> int \<times> int \<times> 'w" where
  "shard_stat exec sm name shard st =
     (case st of (shardStats, totalVectors, totalMemory, w) \<Rightarrow>
        case GetShardAdapter sm (siID shard) of
          Inl _ \<Rightarrow> st
        | Inr adapter \<Rightarrow>
            (case GetVectorCount exec adapter name w of
               (Inl _, w') \<Rightarrow> (shardStats, totalVectors, totalMemory, w')
             | (Inr n, w') \<Rightarrow>
                 (gm_put (int32_of (siID shard))
                    \<lparr>ssShardId = int32_of (siID shard), ssVectorCount = n, ssStatus = siStatus shard,
                     ssReplicaNodes = siReplicas shard, ssMemoryUsageBytes = siMemoryUsage shard\<rparr> shardStats,
                  int64_of (totalVectors + n), int64_of (totalMemory + siMemoryUsage shard), w')))"

definition GetStats :: "'w redis \<Rightarrow> rt \<Rightarrow> get_stats_request \<Rightarrow> service \<times> 'w
    \<Rightarrow> get_stats_response \<times> service \<times> 'w" where
  "GetStats exec rt req svw =
     (let sv = fst svw; w = snd svw; name = gsIndexName req
      in case gm_get (svIndexes sv) name of
           None \<Rightarrow> (\<lparr>gxSuccess = False, gxMessage = index_not_found name, gxStats = None\<rparr>, sv, w)
         | Some index \<Rightarrow>
             (case fold (shard_stat exec (svShards sv) name) (GetAllShards (rtShards rt) (svShards sv)) ([], 0, 0, w) of
                (shardStats, totalVectors, totalMemory, w') \<Rightarrow>
                  (\<lparr>gxSuccess = True, gxMessage = ''stats retrieved'',
                    gxStats = Some \<lparr>isVectorCount = totalVectors, isDimension = int32_of (xDimension index),
                      isMetric = xMetric index, isShardCount = int32_of (xShardCount index),
                      isReplicaCount = int32_of (xReplicaCount index), isMemoryUsageBytes = totalMemory,
                      isShardStats = shardStats\<rparr>\<rparr>, sv, w')))"

section \<open>Streams\<close>

text \<open>
  A stream, as gRPC presents it: what successive \<open>Recv\<close> return, a request with an error that
  may be nil (when the list is over, \<open>io.EOF\<close>), and the error of the \<open>n\<close>-th \<open>Send\<close>.
\<close>

type_synonym 'r events = "('r \<times> string option) list"
type_synonym send_errors = "nat \<Rightarrow> string option"

text \<open>The loop the three handlers share: its two tests as they are written, then the body.\<close>

primrec stream_loop :: "('r \<Rightarrow> 's \<Rightarrow> string option \<times> 's) \<Rightarrow> 'r events \<Rightarrow> 's \<Rightarrow> string option \<times> 's" where
  "stream_loop body [] s = (Some ''EOF'', s)"
| "stream_loop body (received # rest) s =
     (let req = fst received; err = snd received
      in if err = None then (None, s)
         else if err \<noteq> None then (err, s)
         else (case body req s of
                 (Some e, s') \<Rightarrow> (Some e, s')
               | (None, s') \<Rightarrow> stream_loop body rest s'))"

text \<open>The counts, the responses sent so far, and the service.\<close>

record ('r, 'w) session =
  ssCount :: nat
  ssDone :: nat
  ssSent :: "'r list"
  ssService :: service
  ssWorld :: 'w

definition new_session :: "service \<times> 'w \<Rightarrow> ('r, 'w) session" where
  "new_session svw = \<lparr>ssCount = 0, ssDone = 0, ssSent = [], ssService = fst svw, ssWorld = snd svw\<rparr>"

definition send :: "send_errors \<Rightarrow> 'r \<Rightarrow> ('r, 'w) session \<Rightarrow> string option \<times> ('r, 'w) session" where
  "send errs resp st =
     (case errs (length (ssSent st)) of
        Some e \<Rightarrow> (Some e, st)
      | None \<Rightarrow> (None, st\<lparr>ssSent := ssSent st @ [resp]\<rparr>))"

definition stream_insert_body :: "'w redis \<Rightarrow> (nat \<Rightarrow> rt) \<Rightarrow> send_errors \<Rightarrow> insert_request
    \<Rightarrow> (insert_response, 'w) session \<Rightarrow> string option \<times> (insert_response, 'w) session" where
  "stream_insert_body exec rts errs req st =
     (case insert_core exec (rts (ssCount st)) req (ssService st, ssWorld st) of
        (resp, sv, w) \<Rightarrow>
          send errs resp (st\<lparr>ssCount := Suc (ssCount st),
            ssDone := ssDone st + (if ioSuccess resp then 1 else 0), ssService := sv, ssWorld := w\<rparr>))"

definition StreamInsert :: "'w redis \<Rightarrow> (nat \<Rightarrow> rt) \<Rightarrow> send_errors \<Rightarrow> insert_request events \<Rightarrow> service \<times> 'w
    \<Rightarrow> string option \<times> (insert_response, 'w) session" where
  "StreamInsert exec rts errs events svw =
     (case stream_loop (stream_insert_body exec rts errs) events (new_session svw) of
        (Some e, st) \<Rightarrow> (Some e, st)
      | (None, st) \<Rightarrow>
          (None, st\<lparr>ssService := add_metrics (IncrementCounter ''vectors_inserted'' (f64_of_int (int (ssDone st))))
             (ssService st)\<rparr>))"

definition stream_search_body :: "'w redis \<Rightarrow> (nat \<Rightarrow> rt) \<Rightarrow> send_errors \<Rightarrow> search_request
    \<Rightarrow> (search_response, 'w) session \<Rightarrow> string option \<times> (search_response, 'w) session" where
  "stream_search_body exec rts errs req st =
     (case search_core exec (rts (ssCount st)) req (ssService st, ssWorld st) of
        (resp, sv, w) \<Rightarrow>
          (case send errs resp (st\<lparr>ssCount := Suc (ssCount st), ssService := sv, ssWorld := w\<rparr>) of
             (Some e, st') \<Rightarrow> (Some e, st')
           | (None, st') \<Rightarrow>
               (None, if soSuccess resp
                      then st'\<lparr>ssService := add_metrics (IncrementCounter ''searches'' f64_one) (ssService st')\<rparr>
                      else st')))"

definition StreamSearch :: "'w redis \<Rightarrow> (nat \<Rightarrow> rt) \<Rightarrow> send_errors \<Rightarrow> search_request events \<Rightarrow> service \<times> 'w
    \<Rightarrow> string option \<times> (search_response, 'w) session" where
  "StreamSearch exec rts errs events svw = stream_loop (stream_search_body exec rts errs) events (new_session svw)"

definition stream_batch_body :: "'w redis \<Rightarrow> (nat \<Rightarrow> rt) \<Rightarrow> send_errors \<Rightarrow> batch_insert_request
    \<Rightarrow> (batch_insert_response, 'w) session \<Rightarrow> string option \<times> (batch_insert_response, 'w) session" where
  "stream_batch_body exec rts errs req st =
     (case batch_insert_core exec (rts (ssCount st)) req (ssService st, ssWorld st) of
        ((resp, inserted), sv, w) \<Rightarrow>
          (case send errs resp (st\<lparr>ssCount := ssCount st + length (biVectors req),
                   ssDone := ssDone st + (case inserted of None \<Rightarrow> 0 | Some n \<Rightarrow> n), ssService := sv, ssWorld := w\<rparr>) of
             (Some e, st') \<Rightarrow> (Some e, st')
           | (None, st') \<Rightarrow>
               (None, case inserted of
                  None \<Rightarrow> st'
                | Some n \<Rightarrow> st'\<lparr>ssService := add_metrics (IncrementCounter ''vectors_inserted'' (f64_of_int (int n)))
                    (ssService st')\<rparr>)))"

definition StreamBatchInsert :: "'w redis \<Rightarrow> (nat \<Rightarrow> rt) \<Rightarrow> send_errors \<Rightarrow> batch_insert_request events \<Rightarrow> service \<times> 'w
    \<Rightarrow> string option \<times> (batch_insert_response, 'w) session" where
  "StreamBatchInsert exec rts errs events svw = stream_loop (stream_batch_body exec rts errs) events (new_session svw)"

end
