(* ===== verification/Service_Laws.thy ===== *)
theory Service_Laws
  imports Vector_Service
begin

text \<open>
  What the handlers keep: the documents they do not name, the shard manager, the invariants
  of the replication manager and of the index table, and a metrics log without a call that
  panics. One relation between the state before and after a handler carries it all; the
  service with its shards is then shown to be a vector store, like a single adapter.
\<close>

section \<open>Documents a pipeline spares\<close>

definition spares :: "string \<Rightarrow> redis_cmd list \<Rightarrow> bool" where
  "spares K cmds \<longleftrightarrow> DEL K \<notin> set cmds \<and> (\<forall>x. SET K x \<notin> set cmds)"

text \<open>The document under \<open>K\<close> is the same in every database.\<close>

definition same_doc :: "('w \<Rightarrow> string \<Rightarrow> int \<Rightarrow> db) \<Rightarrow> string \<Rightarrow> 'w \<Rightarrow> 'w \<Rightarrow> bool" where
  "same_doc store K w w' \<longleftrightarrow> (\<forall>a d. dbDocs (store w' a d) K = dbDocs (store w a d) K)"

lemma same_doc_refl [simp]: "same_doc store K w w"
  by (simp add: same_doc_def)

lemma same_doc_trans: "same_doc store K a b \<Longrightarrow> same_doc store K b c \<Longrightarrow> same_doc store K a c"
  by (simp add: same_doc_def)

lemma same_doc_fold: "(\<And>x s. x \<in> set xs \<Longrightarrow> same_doc store K (p s) (p (f x s))) \<Longrightarrow> same_doc store K (p s) (p (fold f xs s))"
  by (rule fold_preorder [where R = "\<lambda>a b. same_doc store K (p a) (p b)"]) (auto intro: same_doc_trans)

lemma spares_store: "vector_key i (vID v) \<noteq> vector_key j b \<Longrightarrow> spares (vector_key j b) (store_commands i v d)"
  by (auto simp: spares_def store_commands_def)

lemma spares_batch: "\<forall>v \<in> set vs. vector_key i (vID v) \<noteq> vector_key j b \<Longrightarrow> spares (vector_key j b) (batch_commands i vs)"
  using spares_store [of i _ j b] unfolding spares_def batch_commands_def by (fastforce split: sum.splits)

context redis_service
begin

lemma exec_spares: "spares K cmds \<Longrightarrow> exec c cmds w = (r, w') \<Longrightarrow> same_doc store K w w'"
  unfolding same_doc_def using exec_docs [of c cmds w r w'] by (fastforce simp: spares_def doc_written_def split: option.splits)

lemma exec_error_spares: "spares K cmds \<Longrightarrow> same_doc store K w (snd (exec_error (exec c cmds w)))"
  using exec_spares [of K cmds c w] by (cases "exec c cmds w"; cases "fst (exec c cmds w)") (auto simp: exec_error_def)

lemma StoreVector_spares:
  "vector_key i (vID v) \<noteq> vector_key j b \<Longrightarrow> same_doc store (vector_key j b) w (snd (StoreVector exec c i v w))"
  by (auto simp: StoreVector_def spares_store exec_error_spares split: sum.split)

lemma BatchStore_spares:
  "\<forall>v \<in> set vs. vector_key i (vID v) \<noteq> vector_key j b \<Longrightarrow>
   same_doc store (vector_key j b) w (snd (BatchStoreVectors exec c i vs w))"
  by (simp add: BatchStoreVectors_def spares_batch exec_error_spares)

lemma DeleteVector_spares:
  "vector_key i a \<noteq> vector_key j b \<Longrightarrow> same_doc store (vector_key j b) w (snd (DeleteVector exec c i a w))"
  unfolding DeleteVector_def by (rule exec_error_spares) (auto simp: spares_def)

lemma read_spares:
  assumes "spares K [cmd]"
  shows "exec c [cmd] w = (r, w') \<Longrightarrow> same_doc store K w w'"
  using exec_spares [OF assms] by blast

lemma GetVector_spares: "same_doc store K w (snd (GetVector exec c i a w))"
  using exec_spares [of K "[GET (vector_key i a)]" c w]
  by (auto simp: GetVector_def spares_def split: prod.splits sum.splits list.splits redis_reply.splits)

lemma GetAllVectorIDs_spares: "same_doc store K w (snd (GetAllVectorIDs exec c i w))"
  using exec_spares [of K "[ZREVRANGE (ids_key i)]" c w]
  by (auto simp: GetAllVectorIDs_def spares_def split: prod.splits sum.splits list.splits redis_reply.splits)

lemma GetVectorCount_spares: "same_doc store K w (snd (GetVectorCount exec c i w))"
  using exec_spares [of K "[ZCARD (ids_key i)]" c w]
  by (auto simp: GetVectorCount_def spares_def split: prod.splits sum.splits list.splits redis_reply.splits)

lemma BatchDelete_spares:
  assumes "\<forall>a \<in> set ids. vector_key i a \<noteq> vector_key j b"
  shows "same_doc store (vector_key j b) w (snd (BatchDeleteVectors exec c i ids w))"
proof -
  have "spares (vector_key j b) (map (\<lambda>id. DEL (vector_key i id)) ids)" using assms by (auto simp: spares_def)
  from exec_spares [OF this, of c w] show ?thesis
    by (auto simp: BatchDeleteVectors_def split: prod.splits sum.splits)
qed

lemma CreateIndex_spares: "same_doc store (vector_key j b) w (snd (adapter_CreateIndex exec c x w))"
  unfolding adapter_CreateIndex_def by (rule exec_error_spares) (auto simp: spares_def)

lemma DropIndex_spares: "same_doc store (vector_key j b) w (snd (adapter_DropIndex exec c i w))"
  unfolding adapter_DropIndex_def by (rule exec_error_spares) (auto simp: spares_def)

lemma search_scan_spares: "same_doc store K w (snd (search_scan exec c i q flt ids w))"
proof (induction ids arbitrary: w)
  case (Cons vid ids)
  obtain r w1 where g: "GetVector exec c i vid w = (r, w1)" by fastforce
  have "same_doc store K w w1" using GetVector_spares [of K w c i vid] g by simp
  from same_doc_trans [OF this Cons.IH] g show ?case by (auto split: sum.splits prod.splits)
qed simp

lemma SearchVectors_spares: "same_doc store K w (snd (SearchVectors exec c i q k flt w))"
proof -
  obtain r w1 where g: "GetAllVectorIDs exec c i w = (r, w1)" by fastforce
  have "same_doc store K w w1" using GetAllVectorIDs_spares [of K w c i] g by simp
  from this same_doc_trans [OF this search_scan_spares] g show ?thesis
    by (auto simp: SearchVectors_def split: sum.splits prod.splits) (metis snd_conv)
qed

section \<open>Replication spares what the write spares\<close>

lemma ReplicateInsert_spares:
  assumes "vector_key i (vID v) \<noteq> vector_key j b" "ReplicateInsert exec now order i v s (m, w) = (e, m', w')"
  shows "same_doc store (vector_key j b) w w'"
  unfolding same_doc_def using ReplicateInsert_docs [OF assms(2), of _ _ j b] assms(1) by metis

lemma ReplicateBatch_spares:
  assumes "\<forall>v \<in> set vs. vector_key i (vID v) \<noteq> vector_key j b"
  shows "same_doc store (vector_key j b) (snd mw) (snd (ReplicateBatch exec now order i vs s mw))"
  unfolding ReplicateBatch_def
proof (rule same_doc_fold [where p = snd])
  fix r and mw :: "replication_manager \<times> 'w"
  show "same_doc store (vector_key j b) (snd mw) (snd (batch_replica exec now i vs s r mw))"
    using BatchStore_spares [OF assms, of "snd mw"]
    by (auto simp: batch_replica_def Let_def split: option.split prod.split) (metis snd_conv)+
qed

lemma ReplicateDelete_spares:
  assumes "vector_key i a \<noteq> vector_key j b"
  shows "same_doc store (vector_key j b) (snd mw) (snd (ReplicateDelete exec now order i a s mw))"
  unfolding ReplicateDelete_def
proof (rule same_doc_fold [where p = snd])
  fix r and mw :: "replication_manager \<times> 'w"
  show "same_doc store (vector_key j b) (snd mw) (snd (delete_replica exec now i a s r mw))"
    using DeleteVector_spares [OF assms, of "snd mw"]
    by (auto simp: delete_replica_def Let_def split: option.split prod.split) (metis snd_conv)+
qed

lemma ReplicateBatchDelete_spares:
  assumes "\<forall>a \<in> set ids. vector_key i a \<noteq> vector_key j b"
  shows "same_doc store (vector_key j b) (snd mw) (snd (ReplicateBatchDelete exec now order i ids s mw))"
  unfolding ReplicateBatchDelete_def
proof (rule same_doc_fold [where p = snd])
  fix r and mw :: "replication_manager \<times> 'w"
  show "same_doc store (vector_key j b) (snd mw) (snd (batch_delete_replica exec now i ids s r mw))"
    using BatchDelete_spares [OF assms, of "snd mw"]
    by (auto simp: batch_delete_replica_def Let_def split: option.split prod.split sum.split) (metis snd_conv)+
qed

text \<open>A health check only reads.\<close>

lemma performHealthCheck_spares: "same_doc store K w (snd (performHealthCheck exec order now sm w))"
proof -
  have "same_doc store K (snd smw) (snd (check_shard exec now i smw))" for i smw
  proof (cases "gm_get (smShards (fst smw)) i")
    case (Some shard)
    note s = this
    show ?thesis
    proof (cases "gm_get (smAdapters (fst smw)) i")
      case (Some c)
      obtain r w1 where g: "GetVectorCount exec c ''_health_check'' (snd smw) = (r, w1)" by fastforce
      have "same_doc store K (snd smw) w1" using GetVectorCount_spares [of K "snd smw" c] g by (metis snd_conv)
      with s Some g show ?thesis by (cases r) (simp_all add: check_shard_def Let_def)
    qed (simp add: s check_shard_def Let_def)
  qed (simp add: check_shard_def Let_def)
  then show ?thesis unfolding performHealthCheck_def using same_doc_fold [of _ store K snd "check_shard exec now" "(sm, w)"] by auto
qed

end
section \<open>What a handler keeps\<close>

definition metrics_ok :: "service \<Rightarrow> bool" where
  "metrics_ok sv \<longleftrightarrow> (\<forall>call \<in> set (svMetrics sv). \<not> call_panics call \<and> declared call)"

definition indexes_ok :: "service \<Rightarrow> bool" where
  "indexes_ok sv \<longleftrightarrow> gm_ok (svIndexes sv)
     \<and> (\<forall>name index. gm_get (svIndexes sv) name = Some index \<longrightarrow> index_ok index \<and> xName index = name)"

definition service_ok :: "service \<Rightarrow> bool" where
  "service_ok sv \<longleftrightarrow> manager_ok (svShards sv) \<and> rep_ok (svReplication sv) \<and> indexes_ok sv \<and> metrics_ok sv"

text \<open>The service part, and with it the document under one key.\<close>

definition kept_by :: "service \<Rightarrow> service \<Rightarrow> bool" where
  "kept_by sv sv' \<longleftrightarrow> svShards sv' = svShards sv \<and> steady (svReplication sv) (svReplication sv')
     \<and> (metrics_ok sv \<longrightarrow> metrics_ok sv') \<and> (indexes_ok sv \<longrightarrow> indexes_ok sv')"

definition handles :: "('w \<Rightarrow> string \<Rightarrow> int \<Rightarrow> db) \<Rightarrow> string \<Rightarrow> service \<times> 'w \<Rightarrow> service \<times> 'w \<Rightarrow> bool" where
  "handles store K s s' \<longleftrightarrow> kept_by (fst s) (fst s') \<and> same_doc store K (snd s) (snd s')"

lemma kept_by_refl [simp]: "kept_by sv sv"
  by (simp add: kept_by_def)

lemma kept_by_trans: "kept_by a b \<Longrightarrow> kept_by b c \<Longrightarrow> kept_by a c"
  unfolding kept_by_def using steady_trans by auto

lemma handles_refl [simp]: "handles store K s s"
  by (simp add: handles_def)

lemma handles_trans: "handles store K a b \<Longrightarrow> handles store K b c \<Longrightarrow> handles store K a c"
  unfolding handles_def by (auto intro: kept_by_trans same_doc_trans)

lemma handles_fold:
  "(\<And>x s. x \<in> set xs \<Longrightarrow> handles store K (p s) (p (f x s))) \<Longrightarrow> handles store K (p s) (p (fold f xs s))"
  by (rule fold_preorder [where R = "\<lambda>a b. handles store K (p a) (p b)"]) (auto intro: handles_trans)

lemma kept_by_ok: "kept_by sv sv' \<Longrightarrow> service_ok sv \<Longrightarrow> service_ok sv'"
  unfolding kept_by_def service_ok_def steady_def by (elim conjE) (simp only: simp_thms)

text \<open>Recording calls that do not panic, on metrics that there are; replacing the replication manager by a steady successor.\<close>

lemma kept_by_metrics:
  assumes "\<And>call. call \<in> set calls \<Longrightarrow> \<not> call_panics call \<and> declared call"
  shows "kept_by sv (add_metrics calls sv)"
  unfolding kept_by_def using assms by (auto simp: add_metrics_def metrics_ok_def indexes_ok_def)

lemma kept_by_count [simp]: "kept_by sv (add_metrics (IncrementCounter name (f64_of_int (int n))) sv)"
  by (rule kept_by_metrics) (rule IncrementCounter_safe [of "int n"], simp_all)

lemma kept_by_count_one [simp]: "kept_by sv (add_metrics (IncrementCounter name f64_one) sv)"
  unfolding f64_one_def by (rule kept_by_metrics) (rule IncrementCounter_safe [of 1], simp_all)

lemma kept_by_latency [simp]: "kept_by sv (add_metrics (RecordLatency oper d) sv)"
  by (rule kept_by_metrics) (rule RecordLatency_safe)

lemma kept_by_replication: "steady (svReplication sv) rm \<Longrightarrow> kept_by sv (sv\<lparr>svReplication := rm\<rparr>)"
  unfolding kept_by_def by (simp add: metrics_ok_def indexes_ok_def)

lemma handles_metrics: "handles store K s (r, w) \<Longrightarrow> kept_by r r' \<Longrightarrow> handles store K s (r', w)"
  unfolding handles_def by (auto intro: kept_by_trans)

lemma handles_timed:
  "handles store K s (snd p) \<Longrightarrow> handles store K s (snd (timed oper rt p))"
  unfolding timed_def by (cases p) (auto intro: handles_metrics)

context redis_service
begin

text \<open>A write that spares the document, followed by its replication.\<close>

lemma insert_core_handles:
  assumes "\<And>v. inVector req = Some v \<Longrightarrow> vector_key (inIndexName req) (pvId v) \<noteq> vector_key j b"
  shows "handles store (vector_key j b) s (snd (insert_core exec rt req s))"
proof (cases "\<exists>v index shardID c. inVector req = Some v \<and> pvValues v \<noteq> [] \<and> gm_get (svIndexes (fst s)) (inIndexName req) = Some index
    \<and> int (length (pvValues v)) = xDimension index \<and> locate (svShards (fst s)) (pvId v) = Inr (shardID, c)")
  case False
  then show ?thesis
    by (auto simp: insert_core_def Let_def split: option.split sum.split prod.split)
next
  case True
  then obtain v index shardID c where v: "inVector req = Some v" "pvValues v \<noteq> []"
    "gm_get (svIndexes (fst s)) (inIndexName req) = Some index" "int (length (pvValues v)) = xDimension index"
    "locate (svShards (fst s)) (pvId v) = Inr (shardID, c)" by blast
  define sv where "sv = stored_of (pvId v) v (rtNano rt 0)"
  have key: "vector_key (inIndexName req) (vID sv) \<noteq> vector_key j b"
    using assms [OF v(1)] by (simp add: sv_def stored_of_def)
  obtain e w1 where st: "StoreVector exec c (inIndexName req) sv (snd s) = (e, w1)" by fastforce
  have d1: "same_doc store (vector_key j b) (snd s) w1" using StoreVector_spares [OF key, of "snd s" c] st by simp
  obtain e2 rm w2 where r: "ReplicateInsert exec (rtClock rt) (rtReplicas rt) (inIndexName req) sv shardID (svReplication (fst s), w1) = (e2, rm, w2)"
    by (cases rule: prod_cases3)
  have d2: "same_doc store (vector_key j b) w1 w2" by (rule ReplicateInsert_spares [OF key r])
  have k: "kept_by (fst s) ((fst s)\<lparr>svReplication := rm\<rparr>)" using steady_ReplicateInsert [OF r] by (rule kept_by_replication)
  show ?thesis
    using v st r d1 same_doc_trans [OF d1 d2] k
    by (cases e) (simp_all add: insert_core_def Let_def handles_def flip: sv_def)
qed

lemma Insert_handles:
  assumes "\<And>v. inVector req = Some v \<Longrightarrow> vector_key (inIndexName req) (pvId v) \<noteq> vector_key j b"
  shows "handles store (vector_key j b) s (snd (Insert exec rt req s))"
  unfolding Insert_def
  by (rule handles_timed) (use insert_core_handles [OF assms, of s rt] in \<open>auto split: prod.split intro: handles_metrics\<close>)

lemma store_group_handles:
  assumes "\<forall>v \<in> set (snd g). vector_key i (vID v) \<noteq> vector_key j b"
  shows "handles store (vector_key j b) (snd (snd st)) (snd (snd (store_group exec rt i g st)))"
proof -
  obtain n f sv w where st: "st = (n, f, sv, w)" by (cases st rule: prod_cases4)
  show ?thesis
  proof (cases "GetShardAdapter (svShards sv) (fst g)")
    case (Inr c)
    obtain e w1 where s1: "BatchStoreVectors exec c i (snd g) w = (e, w1)" by fastforce
    have d1: "same_doc store (vector_key j b) w w1" using BatchStore_spares [OF assms, of w c] s1 by simp
    let ?r = "ReplicateBatch exec (rtClock rt) (rtReplicas rt) i (snd g) (fst g) (svReplication sv, w1)"
    obtain rm w2 where r: "?r = (rm, w2)" by fastforce
    have d2: "same_doc store (vector_key j b) w1 w2"
      using ReplicateBatch_spares [OF assms, of "(svReplication sv, w1)"] r by (metis snd_conv)
    have k: "kept_by sv (sv\<lparr>svReplication := rm\<rparr>)"
      using steady_ReplicateBatch [of "(svReplication sv, w1)"] r by (metis fst_conv kept_by_replication)
    show ?thesis
      using Inr s1 r d1 same_doc_trans [OF d1 d2] k by (cases e) (simp_all add: st store_group_def Let_def handles_def)
  qed (simp add: st store_group_def Let_def)
qed

end
section \<open>Groups by shard\<close>

definition all_groups :: "('a \<Rightarrow> bool) \<Rightarrow> ('k, 'a list) gomap \<Rightarrow> bool" where
  "all_groups P groups \<longleftrightarrow> (\<forall>g \<in> set groups. \<forall>x \<in> set (snd g). P x)"

lemma set_gm_put: "set (gm_put k v m) \<subseteq> insert (k, v) (set m)"
  by (induction m) auto

lemma all_groups_append:
  assumes "all_groups P groups" "P x"
  shows "all_groups P (append_group k x groups)"
proof -
  have "\<forall>y \<in> set (group_of groups k). P y"
    using assms(1) map_of_SomeD [of groups k] by (cases "gm_get groups k") (fastforce simp: group_of_def all_groups_def)+
  then show ?thesis
    using assms set_gm_put [of k "group_of groups k @ [x]" groups] by (fastforce simp: all_groups_def append_group_def)
qed

lemma all_groups_order: "is_order f \<Longrightarrow> all_groups P (f groups) \<longleftrightarrow> all_groups P groups"
  by (simp add: all_groups_def is_order_set)

lemma group_vectors_ids:
  assumes "\<forall>v \<in> set vs. P (pvId v)"
  shows "all_groups (\<lambda>v. P (vID v)) (fst (group_vectors sm index rt vs))"
proof -
  have "\<forall>iv \<in> set ivs. P (pvId (snd iv)) \<Longrightarrow> all_groups (\<lambda>v. P (vID v)) (fst gf)
      \<Longrightarrow> all_groups (\<lambda>v. P (vID v)) (fst (fold (group_vector sm index rt) ivs gf))" for ivs gf
  proof (induction ivs arbitrary: gf)
    case (Cons iv ivs)
    from Cons.prems have "all_groups (\<lambda>v. P (vID v)) (fst (group_vector sm index rt iv gf))"
      by (auto simp: group_vector_def Let_def stored_of_def split: sum.split intro: all_groups_append)
    with Cons show ?case by simp
  qed simp
  moreover have "\<forall>iv \<in> set (enumerate 0 vs). P (pvId (snd iv))"
    using assms by (auto simp: enumerate_eq_zip dest!: set_zip_rightD)
  moreover have "all_groups (\<lambda>v. P (vID v)) (fst ([], []))" by (simp add: all_groups_def)
  ultimately show ?thesis unfolding group_vectors_def by blast
qed

lemma group_ids_from:
  assumes "\<forall>a \<in> set ids. P a"
  shows "all_groups P (group_ids sm ids)"
proof -
  have "\<forall>a \<in> set ids. P a \<Longrightarrow> all_groups P groups \<Longrightarrow> all_groups P (fold (\<lambda>vid groups. case GetShardForKey sm vid of
      Inl _ \<Rightarrow> groups | Inr shardID \<Rightarrow> append_group shardID vid groups) ids groups)" for groups
    by (induction ids arbitrary: groups) (auto split: sum.split intro: all_groups_append)
  moreover have "all_groups P []" by (simp add: all_groups_def)
  ultimately show ?thesis using assms unfolding group_ids_def by blast
qed

section \<open>Every handler keeps it\<close>

context redis_service
begin

lemma batch_insert_core_handles:
  assumes order: "is_order (rtGroups rt)"
    and keys: "\<forall>v \<in> set (biVectors req). vector_key (biIndexName req) (pvId v) \<noteq> vector_key j b"
  shows "handles store (vector_key j b) s (snd (batch_insert_core exec rt req s))"
proof (cases "gm_get (svIndexes (fst s)) (biIndexName req)")
  case (Some index)
  obtain groups failedIDs where g: "group_vectors (svShards (fst s)) index rt (biVectors req) = (groups, failedIDs)"
    by fastforce
  let ?gs = "rtGroups rt groups"
  let ?st = "(0 :: nat, failedIDs, fst s, snd s)"
  have all: "all_groups (\<lambda>v. vector_key (biIndexName req) (vID v) \<noteq> vector_key j b) ?gs"
    using group_vectors_ids [OF keys, of "svShards (fst s)" index rt] g by (simp add: all_groups_order [OF order])
  have "handles store (vector_key j b) (snd (snd ?st)) (snd (snd (fold (store_group exec rt (biIndexName req)) ?gs ?st)))"
    by (rule handles_fold [where p = "\<lambda>st. snd (snd st)"], rule store_group_handles)
      (use all in \<open>simp add: all_groups_def\<close>)
  then show ?thesis
    using Some g by (auto simp: batch_insert_core_def Let_def split: prod.splits)
qed (simp add: batch_insert_core_def Let_def)

lemma BatchInsert_handles:
  assumes "is_order (rtGroups rt)"
    "\<forall>v \<in> set (biVectors req). vector_key (biIndexName req) (pvId v) \<noteq> vector_key j b"
  shows "handles store (vector_key j b) s (snd (BatchInsert exec rt req s))"
  unfolding BatchInsert_def
  by (rule handles_timed)
    (use batch_insert_core_handles [OF assms, of s] in \<open>auto split: prod.split option.split intro: handles_metrics\<close>)

lemma search_shards_spares: "same_doc store K w (snd (search_shards exec sm i q k flt shards w))"
proof (induction shards arbitrary: w)
  case (Cons shard shards)
  show ?case
  proof (cases "GetShardAdapter sm (siID shard)")
    case (Inl e)
    with Cons show ?thesis by simp
  next
    case (Inr c)
    obtain r w1 where g: "SearchVectors exec c i q k flt w = (r, w1)" by fastforce
    have "same_doc store K w w1" using SearchVectors_spares [of K w c i q k flt] g by simp
    from same_doc_trans [OF this Cons.IH] Inr g show ?thesis by (auto split: sum.splits prod.splits)
  qed
qed simp

lemma search_core_handles: "handles store K s (snd (search_core exec rt req s))"
  using search_shards_spares [of K "snd s" "svShards (fst s)" "srIndexName req" "srQueryVector req" "top_k req" "srFilter req"
      "GetHealthyShards (rtShards rt) (svShards (fst s))"]
  by (auto simp: search_core_def Let_def handles_def split: option.split prod.split)

lemma Search_handles: "handles store K s (snd (Search exec rt req s))"
  unfolding Search_def
  by (rule handles_timed) (use search_core_handles [of K s rt req] in \<open>auto split: prod.split intro: handles_metrics\<close>)

lemma Get_handles: "handles store K s (snd (Get exec req s))"
proof (cases "locate (svShards (fst s)) (grVectorId req)")
  case (Inr sc)
  obtain shardID c where sc: "sc = (shardID, c)" by fastforce
  obtain r w1 where g: "GetVector exec c (grIndexName req) (grVectorId req) (snd s) = (r, w1)" by fastforce
  have "same_doc store K (snd s) w1" using GetVector_spares [of K "snd s" c] g by (metis snd_conv)
  with Inr sc g show ?thesis by (cases r) (simp_all add: Get_def Let_def handles_def)
qed (simp add: Get_def Let_def)

lemma Update_handles:
  assumes "vector_key (urIndexName req) (urVectorId req) \<noteq> vector_key j b" "Update exec rt req s = Returns (resp, s')"
  shows "handles store (vector_key j b) s s'"
proof (cases "\<exists>v index shardID c. urVector req = Some v \<and> gm_get (svIndexes (fst s)) (urIndexName req) = Some index
    \<and> int (length (pvValues v)) = xDimension index \<and> locate (svShards (fst s)) (urVectorId req) = Inr (shardID, c)")
  case False
  then have "s' = s" using assms(2)
    by (cases s) (auto simp: Update_def Let_def split: option.splits sum.splits prod.splits if_splits)
  then show ?thesis by simp
next
  case True
  then obtain v index shardID c where v: "urVector req = Some v"
    "gm_get (svIndexes (fst s)) (urIndexName req) = Some index" "int (length (pvValues v)) = xDimension index"
    "locate (svShards (fst s)) (urVectorId req) = Inr (shardID, c)" by blast
  define sv where "sv = stored_of (urVectorId req) v (rtNano rt 0)"
  have key: "vector_key (urIndexName req) (vID sv) \<noteq> vector_key j b" using assms(1) by (simp add: sv_def stored_of_def)
  obtain e0 w0 where dl: "DeleteVector exec c (urIndexName req) (urVectorId req) (snd s) = (e0, w0)" by fastforce
  have d0: "same_doc store (vector_key j b) (snd s) w0" using DeleteVector_spares [OF assms(1), of "snd s" c] dl by simp
  obtain e w1 where st: "StoreVector exec c (urIndexName req) sv w0 = (e, w1)" by fastforce
  have d1: "same_doc store (vector_key j b) (snd s) w1"
    using StoreVector_spares [OF key, of w0 c] st same_doc_trans [OF d0] by (metis snd_conv)
  obtain e2 rm w2 where r: "ReplicateUpdate exec (rtClock rt) (rtReplicas rt) (urIndexName req) sv shardID (svReplication (fst s), w1) = (e2, rm, w2)"
    by (cases rule: prod_cases3)
  have d2: "same_doc store (vector_key j b) w1 w2" by (rule ReplicateInsert_spares [OF key r [unfolded ReplicateUpdate_def]])
  have k: "kept_by (fst s) ((fst s)\<lparr>svReplication := rm\<rparr>)"
    using steady_ReplicateInsert [OF r [unfolded ReplicateUpdate_def]] by (rule kept_by_replication)
  have s': "s' = (if e = None then ((fst s)\<lparr>svReplication := rm\<rparr>, w2) else (fst s, w1))"
    using assms(2) v dl st r by (cases e) (simp_all add: Update_def Let_def flip: sv_def)
  show ?thesis unfolding s' using d1 same_doc_trans [OF d1 d2] k by (simp add: handles_def)
qed

lemma Delete_handles:
  assumes "vector_key (drIndexName req) (drVectorId req) \<noteq> vector_key j b"
  shows "handles store (vector_key j b) s (snd (Delete exec rt req s))"
proof (cases "locate (svShards (fst s)) (drVectorId req)")
  case (Inr sc)
  obtain shardID c where sc: "sc = (shardID, c)" by fastforce
  obtain e w1 where dl: "DeleteVector exec c (drIndexName req) (drVectorId req) (snd s) = (e, w1)" by fastforce
  have d1: "same_doc store (vector_key j b) (snd s) w1" using DeleteVector_spares [OF assms, of "snd s" c] dl by simp
  obtain rm w2 where r: "ReplicateDelete exec (rtClock rt) (rtReplicas rt) (drIndexName req) (drVectorId req) shardID (svReplication (fst s), w1) = (rm, w2)"
    by fastforce
  have d2: "same_doc store (vector_key j b) w1 w2"
    using ReplicateDelete_spares [OF assms, of "(svReplication (fst s), w1)"] r by (metis snd_conv)
  have "steady (svReplication (fst s)) rm"
    using steady_ReplicateDelete [of "(svReplication (fst s), w1)"] r by (metis fst_conv)
  then have k: "kept_by (fst s) (add_metrics (IncrementCounter ''vectors_deleted'' f64_one) ((fst s)\<lparr>svReplication := rm\<rparr>))"
    by (rule kept_by_trans [OF kept_by_replication kept_by_count_one])
  show ?thesis
    using Inr sc dl r d1 same_doc_trans [OF d1 d2] k by (cases e) (simp_all add: Delete_def Let_def handles_def)
qed (simp add: Delete_def Let_def)

lemma delete_group_handles:
  assumes "\<forall>a \<in> set (snd g). vector_key i a \<noteq> vector_key j b"
  shows "handles store (vector_key j b) (snd st) (snd (delete_group exec rt i g st))"
proof -
  obtain n sv w where st: "st = (n, sv, w)" by (cases st rule: prod_cases3)
  show ?thesis
  proof (cases "GetShardAdapter (svShards sv) (fst g)")
    case (Inr c)
    obtain e w1 where s1: "BatchDeleteVectors exec c i (snd g) w = (e, w1)" by fastforce
    have d1: "same_doc store (vector_key j b) w w1" using BatchDelete_spares [OF assms, of w c] s1 by simp
    obtain rm w2 where r: "ReplicateBatchDelete exec (rtClock rt) (rtReplicas rt) i (snd g) (fst g) (svReplication sv, w1) = (rm, w2)"
      by fastforce
    have d2: "same_doc store (vector_key j b) w1 w2"
      using ReplicateBatchDelete_spares [OF assms, of "(svReplication sv, w1)"] r by (metis snd_conv)
    have k: "kept_by sv (sv\<lparr>svReplication := rm\<rparr>)"
      using steady_ReplicateBatchDelete [of "(svReplication sv, w1)"] r by (metis fst_conv kept_by_replication)
    show ?thesis
      using Inr s1 r d1 same_doc_trans [OF d1 d2] k by (cases e) (simp_all add: st delete_group_def Let_def handles_def)
  qed (simp add: st delete_group_def Let_def)
qed

lemma BatchDelete_handles:
  assumes order: "is_order (rtIdGroups rt)"
    and keys: "\<forall>a \<in> set (bdVectorIds req). vector_key (bdIndexName req) a \<noteq> vector_key j b"
  shows "handles store (vector_key j b) s (snd (BatchDelete exec rt req s))"
proof -
  let ?gs = "rtIdGroups rt (group_ids (svShards (fst s)) (bdVectorIds req))"
  have "all_groups (\<lambda>a. vector_key (bdIndexName req) a \<noteq> vector_key j b) ?gs"
    using group_ids_from [OF keys] by (simp add: all_groups_order [OF order])
  then have all: "\<forall>g \<in> set ?gs. \<forall>a \<in> set (snd g). vector_key (bdIndexName req) a \<noteq> vector_key j b"
    by (simp add: all_groups_def)
  have "handles store (vector_key j b) (snd (0 :: nat, s)) (snd (fold (delete_group exec rt (bdIndexName req)) ?gs (0, s)))"
    by (rule handles_fold [where p = snd], rule delete_group_handles) (use all in simp)
  then show ?thesis by (auto simp: BatchDelete_def split: prod.split intro: handles_metrics)
qed

lemma on_shards_spares:
  assumes "\<And>c w. same_doc store K w (snd (f c w))"
  shows "same_doc store K w (on_shards rt sm f w)"
  unfolding on_shards_def using assms
  by (intro same_doc_fold [where p = "\<lambda>w. w"]) (auto split: sum.split)

lemma CreateIndex_handles: "handles store (vector_key j b) s (snd (CreateIndex exec rt req s))"
proof (cases "gm_get (svIndexes (fst s)) (crIndexName req) = None \<and> Validate (NewVectorIndex (rtNano rt 0) (crIndexName req)
    (crDimension req) (crMetric req) (crShardCount req) (crReplicaCount req)) = None")
  case False
  then show ?thesis by (auto simp: CreateIndex_def Let_def split: option.split)
next
  case True
  let ?x = "NewVectorIndex (rtNano rt 0) (crIndexName req) (crDimension req) (crMetric req) (crShardCount req) (crReplicaCount req)"
  define x where "x = ?x\<lparr>xOptions := fold (\<lambda>(k, v). gm_put k v) (crOptions req) (xOptions ?x)\<rparr>"
  have "index_ok ?x" using True Validate_iff by blast
  then have x: "index_ok x" "xName x = crIndexName req" by (simp_all add: x_def index_ok_def NewVectorIndex_def)
  have "kept_by (fst s) ((fst s)\<lparr>svIndexes := gm_put (crIndexName req) x (svIndexes (fst s))\<rparr>)"
    using x by (auto simp: kept_by_def metrics_ok_def indexes_ok_def gomap_simps)
  then have k: "kept_by (fst s) (add_metrics (IncrementCounter ''indexes_created'' f64_one)
      ((fst s)\<lparr>svIndexes := gm_put (crIndexName req) x (svIndexes (fst s))\<rparr>))" by (rule kept_by_trans) simp
  have "same_doc store (vector_key j b) (snd s) (on_shards rt (svShards (fst s)) (\<lambda>c. adapter_CreateIndex exec c x) (snd s))"
    by (rule on_shards_spares) (rule CreateIndex_spares)
  with k True show ?thesis by (simp add: CreateIndex_def Let_def handles_def flip: x_def)
qed

lemma DropIndex_handles: "handles store (vector_key j b) s (snd (DropIndex exec rt req s))"
proof -
  have "kept_by (fst s) ((fst s)\<lparr>svIndexes := gm_del (diIndexName req) (svIndexes (fst s))\<rparr>)"
    by (auto simp: kept_by_def metrics_ok_def indexes_ok_def gomap_simps split: if_splits)
  then have k: "kept_by (fst s) (add_metrics (IncrementCounter ''indexes_dropped'' f64_one)
      ((fst s)\<lparr>svIndexes := gm_del (diIndexName req) (svIndexes (fst s))\<rparr>))" by (rule kept_by_trans) simp
  have "same_doc store (vector_key j b) (snd s)
      (on_shards rt (svShards (fst s)) (\<lambda>c. adapter_DropIndex exec c (diIndexName req)) (snd s))"
    by (rule on_shards_spares) (rule DropIndex_spares)
  with k show ?thesis by (simp add: DropIndex_def Let_def handles_def)
qed

lemma shard_stat_spares: "same_doc store K (snd (snd (snd st))) (snd (snd (snd (shard_stat exec sm i shard st))))"
proof -
  obtain m v mem w where st: "st = (m, v, mem, w)" by (cases st rule: prod_cases4)
  show ?thesis
  proof (cases "GetShardAdapter sm (siID shard)")
    case (Inr c)
    obtain r w1 where g: "GetVectorCount exec c i w = (r, w1)" by fastforce
    have "same_doc store K w w1" using GetVectorCount_spares [of K w c i] g by simp
    with Inr g show ?thesis by (cases r) (simp_all add: shard_stat_def st)
  qed (simp add: shard_stat_def st)
qed

lemma GetStats_handles: "handles store K s (snd (GetStats exec rt req s))"
  using same_doc_fold [of "GetAllShards (rtShards rt) (svShards (fst s))" store K "\<lambda>st. snd (snd (snd st))"
      "shard_stat exec (svShards (fst s)) (gsIndexName req)" "([], 0, 0, snd s)", OF shard_stat_spares]
  by (auto simp: GetStats_def Let_def handles_def split: option.split prod.split)

end
end
