(* ===== verification/Service_Store.thy ===== *)
theory Service_Store
  imports Service_Laws
begin

text \<open>
  The service with its shards satisfies the same contract as a single adapter, \<open>vector_store\<close>:
  what \<open>Insert\<close> stores \<open>Get\<close> returns, and nothing disturbs it but a handler that names the same
  key. The step relation \<open>service_step\<close> lets every handler and both health loops happen in any
  order; invariants and documents are followed along it. A search over all shards returns the
  best of what they hold.
\<close>

section \<open>What a successful insert has done\<close>

lemma Insert_success:
  assumes "Insert exec rt req s = (resp, s')" "ioSuccess resp"
  obtains v index n c w1 e rm w2 where
    "inVector req = Some v" "pvValues v \<noteq> []" "gm_get (svIndexes (fst s)) (inIndexName req) = Some index"
    "int (length (pvValues v)) = xDimension index" "locate (svShards (fst s)) (pvId v) = Inr (n, c)"
    "StoreVector exec c (inIndexName req) (stored_of (pvId v) v (rtNano rt 0)) (snd s) = (None, w1)"
    "ReplicateInsert exec (rtClock rt) (rtReplicas rt) (inIndexName req) (stored_of (pvId v) v (rtNano rt 0)) n
       (svReplication (fst s), w1) = (e, rm, w2)"
    "svReplication (fst s') = rm" "snd s' = w2" "svShards (fst s') = svShards (fst s)" "ioVectorId resp = pvId v"
proof -
  obtain r0 sv0 w0 where core: "insert_core exec rt req s = (r0, sv0, w0)" by (cases rule: prod_cases3)
  from assms have r0: "r0 = resp" "snd s' = w0" "svReplication (fst s') = svReplication sv0" "svShards (fst s') = svShards sv0"
    by (auto simp: Insert_def core timed_def add_metrics_def split: if_splits)
  have "\<exists>v index n c w1 e rm w2. inVector req = Some v \<and> pvValues v \<noteq> []
    \<and> gm_get (svIndexes (fst s)) (inIndexName req) = Some index \<and> int (length (pvValues v)) = xDimension index
    \<and> locate (svShards (fst s)) (pvId v) = Inr (n, c)
    \<and> StoreVector exec c (inIndexName req) (stored_of (pvId v) v (rtNano rt 0)) (snd s) = (None, w1)
    \<and> ReplicateInsert exec (rtClock rt) (rtReplicas rt) (inIndexName req) (stored_of (pvId v) v (rtNano rt 0)) n
       (svReplication (fst s), w1) = (e, rm, w2)
    \<and> sv0 = (fst s)\<lparr>svReplication := rm\<rparr> \<and> w0 = w2 \<and> ioVectorId r0 = pvId v"
    using core assms(2) unfolding r0(1) [symmetric]
    by (auto simp: insert_core_def Let_def insert_failed_def
        split: option.splits sum.splits prod.splits if_splits)
  then show thesis using that r0 by auto
qed

section \<open>The service is a vector store\<close>

text \<open>The document the service keeps for an id: the one on the id's shard, wherever its adapter leads.\<close>

definition svc_doc :: "('w \<Rightarrow> string \<Rightarrow> int \<Rightarrow> db) \<Rightarrow> service \<times> 'w \<Rightarrow> string \<Rightarrow> string \<Rightarrow> json option" where
  "svc_doc store s i a =
     (case GetShardForKey (svShards (fst s)) a of
        Inl _ \<Rightarrow> None
      | Inr n \<Rightarrow> (case shard_home (svShards (fst s)) n of
            None \<Rightarrow> None
          | Some c \<Rightarrow> dbDocs (store (snd s) (cAddr c) (cDB c)) (vector_key i a)))"

definition service_put :: "'w redis \<Rightarrow> rt \<Rightarrow> string \<Rightarrow> stored_vector \<Rightarrow> service \<times> 'w \<Rightarrow> string option \<times> service \<times> 'w" where
  "service_put exec rt i v s =
     (case Insert exec (rt\<lparr>rtNano := (\<lambda>_. vTimestamp v)\<rparr>) \<lparr>inIndexName = i, inVector = Some (pb_of v)\<rparr> s of
        (resp, s') \<Rightarrow> (if ioSuccess resp then None else Some (ioMessage resp), s'))"

definition service_get :: "'w redis \<Rightarrow> string \<Rightarrow> string \<Rightarrow> service \<times> 'w \<Rightarrow> stored_vector res \<times> service \<times> 'w" where
  "service_get exec i a s =
     (case Get exec \<lparr>grIndexName = i, grVectorId = a\<rparr> s of
        (resp, s') \<Rightarrow> (case goVector resp of
           None \<Rightarrow> Inl (goMessage resp) | Some v \<Rightarrow> Inr (stored_of (pvId v) v (pvTimestamp v)), s'))"

definition service_del :: "'w redis \<Rightarrow> rt \<Rightarrow> string \<Rightarrow> string \<Rightarrow> service \<times> 'w \<Rightarrow> string option \<times> service \<times> 'w" where
  "service_del exec rt i a s =
     (case Delete exec rt \<lparr>drIndexName = i, drVectorId = a\<rparr> s of
        (resp, s') \<Rightarrow> (if doSuccess resp then None else Some (doMessage resp), s'))"

lemma stored_pb [simp]: "stored_of (vID v) (pb_of v) (vTimestamp v) = v" "pvId (pb_of v) = vID v"
  "pvTimestamp (pb_of v) = vTimestamp v"
  by (simp_all add: stored_of_def pb_of_def)

lemma locate_home: "locate sm a = Inr (n, c) \<Longrightarrow> GetShardForKey sm a = Inr n \<and> shard_home sm n = Some c"
  by (auto simp: locate_Inr GetShardAdapter_def shard_home_def split: option.splits if_splits)

lemma handles_doc: "handles store (vector_key j b) s s' \<Longrightarrow> svc_doc store s' j b = svc_doc store s j b"
  by (auto simp: handles_def kept_by_def same_doc_def svc_doc_def split: sum.split option.split)

lemma Get_success:
  assumes "Get exec req s = (resp, s')" "goVector resp = Some pv"
  obtains n c v where "locate (svShards (fst s)) (grVectorId req) = Inr (n, c)"
    "GetVector exec c (grIndexName req) (grVectorId req) (snd s) = (Inr v, snd s')" "pv = pb_of v" "fst s' = fst s"
  using assms
  by (auto simp: Get_def Let_def get_failed_def split: sum.splits prod.splits)

context redis_service
begin

text \<open>Deletes that are replicated never bring a document back.\<close>

lemma DeleteVector_gone:
  assumes "DeleteVector exec c i a w = (e, w')" "dbDocs (store w x y) K = None"
  shows "dbDocs (store w' x y) K = None"
proof -
  let ?cmds = "[DEL (vector_key i a), DEL (metadata_key i a), ZREM (ids_key i) a]"
  obtain r where "exec c ?cmds w = (r, w')"
    using assms(1) by (auto simp: DeleteVector_def exec_error_def split: prod.splits sum.splits)
  from exec_docs [OF this, of x y K] assms(2) show ?thesis by (auto simp: doc_written_def split: option.splits)
qed

lemma ReplicateDelete_gone:
  assumes "dbDocs (store (snd mw) x y) K = None"
  shows "dbDocs (store (snd (ReplicateDelete exec now order i a s mw)) x y) K = None"
proof -
  let ?R = "\<lambda>p q :: replication_manager \<times> 'w. dbDocs (store (snd p) x y) K = None \<longrightarrow> dbDocs (store (snd q) x y) K = None"
  have "?R mw (delete_replica exec now i a s r mw)" for r mw
    using DeleteVector_gone [of _ i a "snd mw" _ _ x y K]
    by (auto simp: delete_replica_def Let_def split: option.split prod.split)
  then have "?R mw (ReplicateDelete exec now order i a s mw)"
    unfolding ReplicateDelete_def by (intro fold_preorder [where R = ?R]) auto
  with assms show ?thesis by blast
qed

end

sublocale redis_service \<subseteq> service: vector_store "service_put exec rt" "service_get exec" "service_del exec rt"
  "svc_doc store" for rt
proof
  fix i v s s'
  assume "service_put exec rt i v s = (None, s')"
  then obtain resp where "Insert exec (rt\<lparr>rtNano := (\<lambda>_. vTimestamp v)\<rparr>) \<lparr>inIndexName = i, inVector = Some (pb_of v)\<rparr> s = (resp, s')"
    "ioSuccess resp" by (auto simp: service_put_def split: prod.splits if_splits)
  then obtain n c w1 e rm w2 where loc: "locate (svShards (fst s)) (vID v) = Inr (n, c)"
    and st: "StoreVector exec c i v (snd s) = (None, w1)"
    and rep: "ReplicateInsert exec (rtClock rt) (rtReplicas rt) i v n (svReplication (fst s), w1) = (e, rm, w2)"
    and s': "snd s' = w2" "svShards (fst s') = svShards (fst s)"
    by (rule Insert_success) auto
  obtain d where d: "ToBytes v = Inr d" "dbDocs (dbase w1 c) (vector_key i (vID v)) = Some d"
    using adapter.put_doc [OF st] by blast
  have "dbDocs (dbase w2 c) (vector_key i (vID v)) = Some d"
    using ReplicateInsert_docs [OF rep, of "cAddr c" "cDB c" i "vID v"] d by auto
  with d(1) show "\<exists>d. ToBytes v = Inr d \<and> svc_doc store s' i (vID v) = Some d"
    using locate_home [OF loc] s' by (simp add: svc_doc_def)
next
  fix i v s s' j a
  assume "service_put exec rt i v s = (None, s')" "vector_key j a \<noteq> vector_key i (vID v)"
  then show "svc_doc store s' j a = svc_doc store s j a"
    using Insert_handles [of "\<lparr>inIndexName = i, inVector = Some (pb_of v)\<rparr>" j a s "rt\<lparr>rtNano := (\<lambda>_. vTimestamp v)\<rparr>"]
    by (intro handles_doc) (auto simp: service_put_def split: prod.splits)
next
  fix i a s v s'
  assume g: "service_get exec i a s = (Inr v, s')"
  then obtain resp pv where r: "Get exec \<lparr>grIndexName = i, grVectorId = a\<rparr> s = (resp, s')" "goVector resp = Some pv"
    "v = stored_of (pvId pv) pv (pvTimestamp pv)"
    by (auto simp: service_get_def split: prod.splits option.splits)
  from r(1,2) show "\<exists>d. svc_doc store s i a = Some d \<and> VectorFromBytes d = Inr v"
  proof (rule Get_success)
    fix n c v0
    assume "locate (svShards (fst s)) (grVectorId \<lparr>grIndexName = i, grVectorId = a\<rparr>) = Inr (n, c)"
      "GetVector exec c (grIndexName \<lparr>grIndexName = i, grVectorId = a\<rparr>) (grVectorId \<lparr>grIndexName = i, grVectorId = a\<rparr>) (snd s) = (Inr v0, snd s')"
      "pv = pb_of v0" "fst s' = fst s"
    then show ?thesis
      using adapter.get_doc [of c i a "snd s" v0 "snd s'"] locate_home [of "svShards (fst s)" a n c] r(3)
      by (simp add: svc_doc_def)
  qed
  show "svc_doc store s' = svc_doc store s"
    using Get_handles [of "vector_key j b" s "\<lparr>grIndexName = i, grVectorId = a\<rparr>" for j b] r(1)
    by (intro ext handles_doc) simp
next
  fix i a s s'
  assume "service_del exec rt i a s = (None, s')"
  then obtain resp where r: "Delete exec rt \<lparr>drIndexName = i, drVectorId = a\<rparr> s = (resp, s')" "doSuccess resp"
    by (auto simp: service_del_def split: prod.splits if_splits)
  then obtain n c w1 where loc: "locate (svShards (fst s)) a = Inr (n, c)"
    and dl: "DeleteVector exec c i a (snd s) = (None, w1)"
    and s': "snd s' = snd (ReplicateDelete exec (rtClock rt) (rtReplicas rt) i a n (svReplication (fst s), w1))"
      "svShards (fst s') = svShards (fst s)"
    by (auto simp: Delete_def Let_def delete_failed_def add_metrics_def split: sum.splits prod.splits option.splits)
  have "dbDocs (dbase w1 c) (vector_key i a) = None" by (rule adapter.del_doc [OF dl])
  then have "dbDocs (dbase (snd s') c) (vector_key i a) = None"
    unfolding s'(1) by (intro ReplicateDelete_gone) simp
  then show "svc_doc store s' i a = None"
    using locate_home [OF loc] s'(2) by (simp add: svc_doc_def)
next
  fix i a s s' j b
  assume "service_del exec rt i a s = (None, s')" "vector_key j b \<noteq> vector_key i a"
  then show "svc_doc store s' j b = svc_doc store s j b"
    using Delete_handles [of "\<lparr>drIndexName = i, drVectorId = a\<rparr>" j b s rt]
    by (intro handles_doc) (auto simp: service_del_def split: prod.splits)
qed

interpretation mem_service: vector_store "service_put mem_exec rt" "service_get mem_exec" "service_del mem_exec rt"
  "svc_doc mem_store" for rt
  by (rule mem.service.vector_store_axioms)

section \<open>The service as a state machine\<close>

text \<open>
  Everything that happens to the service, as long as no handler names the key \<open>K\<close>: the
  handlers in any order, the health loops of the shards and of the replicas, and promotions of
  replicas. The streaming handlers process nothing and are left out.
\<close>

inductive service_step :: "'w redis \<Rightarrow> string \<Rightarrow> service \<times> 'w \<Rightarrow> service \<times> 'w \<Rightarrow> bool" for exec K where
  insert: "Insert exec rt req s = (resp, s') \<Longrightarrow>
    (\<And>v. inVector req = Some v \<Longrightarrow> vector_key (inIndexName req) (pvId v) \<noteq> K) \<Longrightarrow> service_step exec K s s'"
| batch: "BatchInsert exec rt req s = (bresp, s') \<Longrightarrow> rt_ok rt \<Longrightarrow>
    (\<forall>v \<in> set (biVectors req). vector_key (biIndexName req) (pvId v) \<noteq> K) \<Longrightarrow> service_step exec K s s'"
| search: "Search exec rt req s = (sresp, s') \<Longrightarrow> service_step exec K s s'"
| get: "Get exec req s = (gresp, s') \<Longrightarrow> service_step exec K s s'"
| update: "Update exec rt req s = Returns (uresp, s') \<Longrightarrow>
    vector_key (urIndexName req) (urVectorId req) \<noteq> K \<Longrightarrow> service_step exec K s s'"
| delete: "Delete exec rt req s = (dresp, s') \<Longrightarrow>
    vector_key (drIndexName req) (drVectorId req) \<noteq> K \<Longrightarrow> service_step exec K s s'"
| batch_delete: "BatchDelete exec rt req s = (xresp, s') \<Longrightarrow> rt_ok rt \<Longrightarrow>
    (\<forall>a \<in> set (bdVectorIds req). vector_key (bdIndexName req) a \<noteq> K) \<Longrightarrow> service_step exec K s s'"
| create: "CreateIndex exec rt req s = (cresp, s') \<Longrightarrow> service_step exec K s s'"
| drop: "DropIndex exec rt req s = (iresp, s') \<Longrightarrow> service_step exec K s s'"
| stats: "GetStats exec rt req s = (tresp, s') \<Longrightarrow> service_step exec K s s'"
| health: "performHealthCheck exec iorder now (svShards sv) w = (sm', w') \<Longrightarrow>
    service_step exec K (sv, w) (sv\<lparr>svShards := sm'\<rparr>, w')"
| replica_health: "service_step exec K (sv, w) (sv\<lparr>svReplication := checkReplicaHealth iorder age (svReplication sv)\<rparr>, w)"
| promote: "PromoteReplica n a (svReplication sv) = (e, rm') \<Longrightarrow>
    service_step exec K (sv, w) (sv\<lparr>svReplication := rm'\<rparr>, w)"

inductive_cases service_stepE: "service_step exec K s s'"

lemma service_ok_replication:
  "service_ok sv \<Longrightarrow> rep_ok rm \<Longrightarrow> service_ok (sv\<lparr>svReplication := rm\<rparr>)"
  by (simp add: service_ok_def indexes_ok_def metrics_ok_def)

lemma service_ok_shards:
  "service_ok sv \<Longrightarrow> manager_ok sm \<Longrightarrow> service_ok (sv\<lparr>svShards := sm\<rparr>)"
  by (simp add: service_ok_def indexes_ok_def metrics_ok_def)

lemma svc_doc_world: "same_doc store (vector_key j b) w w' \<Longrightarrow> svc_doc store (sv, w') j b = svc_doc store (sv, w) j b"
  by (auto simp: svc_doc_def same_doc_def split: sum.split option.split)

lemma svc_doc_routing: "same_routing (svShards sv) (svShards sv') \<Longrightarrow> svc_doc store (sv', w) j b = svc_doc store (sv, w) j b"
  using GetShardForKey_same_routing [of "svShards sv" "svShards sv'" b]
  by (simp add: svc_doc_def shard_home_def same_routing_def cong: sum.case_cong option.case_cong)

lemma svc_doc_replication: "svc_doc store (sv\<lparr>svReplication := rm\<rparr>, w) j b = svc_doc store (sv, w) j b"
  by (simp add: svc_doc_def cong: sum.case_cong option.case_cong)

context redis_service
begin

lemma handles_step: "handles store (vector_key j b) s s' \<Longrightarrow> service_ok (fst s) \<Longrightarrow>
    service_ok (fst s') \<and> svc_doc store s' j b = svc_doc store s j b"
  using handles_doc kept_by_ok unfolding handles_def by metis

lemma service_step_ok:
  "service_step exec (vector_key j b) s s' \<Longrightarrow> service_ok (fst s) \<Longrightarrow>
   service_ok (fst s') \<and> svc_doc store s' j b = svc_doc store s j b"
proof (induction rule: service_step.induct)
  case (insert rt req s resp s')
  then show ?case using handles_step Insert_handles [of req j b s rt] by simp
next
  case (batch rt req s bresp s')
  then show ?case using handles_step BatchInsert_handles [of rt req j b s] by (simp add: rt_ok_def)
next
  case (search rt req s sresp s')
  then show ?case using handles_step Search_handles [of "vector_key j b" s rt req] by simp
next
  case (get req s gresp s')
  then show ?case using handles_step Get_handles [of "vector_key j b" s req] by simp
next
  case (update rt req s uresp s')
  then show ?case using handles_step Update_handles [of req j b rt s uresp s'] by simp
next
  case (delete rt req s dresp s')
  then show ?case using handles_step Delete_handles [of req j b s rt] by simp
next
  case (batch_delete rt req s xresp s')
  then show ?case using handles_step BatchDelete_handles [of rt req j b s] by (simp add: rt_ok_def)
next
  case (create rt req s cresp s')
  then show ?case using handles_step CreateIndex_handles [of j b s rt req] by simp
next
  case (drop rt req s iresp s')
  then show ?case using handles_step DropIndex_handles [of j b s rt req] by simp
next
  case (stats rt req s tresp s')
  then show ?case using handles_step GetStats_handles [of "vector_key j b" s rt req] by simp
next
  case (health iorder now sv w sm' w')
  have m: "manager_ok (svShards sv)" using health.prems by (simp add: service_ok_def)
  have "shard_step exec (svShards sv) sm'" using health.hyps by (rule shard_step.health)
  from manager_step_ok [OF m this] have k: "manager_ok sm'" "same_routing (svShards sv) sm'" by simp_all
  have "same_doc store (vector_key j b) w w'"
    using performHealthCheck_spares [of "vector_key j b" w iorder now "svShards sv"] health.hyps by simp
  then have "svc_doc store (sv\<lparr>svShards := sm'\<rparr>, w') j b = svc_doc store (sv, w) j b"
    using svc_doc_world svc_doc_routing [of sv "sv\<lparr>svShards := sm'\<rparr>"] k(2) by (metis service.select_convs(1) service.update_convs(1) service.surjective)
  then show ?case using service_ok_shards [of sv sm'] health.prems k(1) by simp
next
  case (replica_health sv w iorder age)
  then have "rep_ok (svReplication sv)" by (simp add: service_ok_def)
  then have "rep_ok (checkReplicaHealth iorder age (svReplication sv))"
    using steady_checkReplicaHealth [of "svReplication sv" iorder age] by (simp add: steady_def)
  with replica_health show ?case by (simp add: service_ok_replication svc_doc_replication)
next
  case (promote n a sv e rm' w)
  then have "rep_ok rm'" using PromoteReplica_ok by (auto simp: service_ok_def)
  with promote show ?case by (simp add: service_ok_replication svc_doc_replication)
qed

lemma service_steps_ok:
  "(service_step exec (vector_key j b))\<^sup>*\<^sup>* s s' \<Longrightarrow> service_ok (fst s) \<Longrightarrow>
   service_ok (fst s') \<and> svc_doc store s' j b = svc_doc store s j b"
proof (induction rule: rtranclp_induct)
  case (step y z)
  with service_step_ok [OF step.hyps(2)] show ?case by simp
qed simp

text \<open>A stored vector stays readable, whatever else happens that does not name its key.\<close>

lemma durable:
  assumes ok: "service_ok (fst s)" and put: "service_put exec rt i v s = (None, s1)"
    and steps: "(service_step exec (vector_key i (vID v)))\<^sup>*\<^sup>* s1 s2"
    and v: "vector_ok v" and get: "service_get exec i (vID v) s2 = (Inr v', s3)"
  shows "v' = v\<lparr>vMetadata := sort_key fst (vMetadata v)\<rparr>"
proof -
  obtain d where d: "ToBytes v = Inr d" "svc_doc store s1 i (vID v) = Some d" using service.put_doc [OF put] by blast
  have "kept_by (fst s) (fst s1)"
  proof -
    have "\<exists>j b. vector_key i (vID v) \<noteq> vector_key j b"
      by (rule exI [of _ i], rule exI [of _ "CHR ''x'' # vID v"]) simp
    then obtain j b where "vector_key i (vID v) \<noteq> vector_key j b" by blast
    then have "handles store (vector_key j b) s (snd (service_put exec rt i v s))"
      using Insert_handles [of "\<lparr>inIndexName = i, inVector = Some (pb_of v)\<rparr>" j b s "rt\<lparr>rtNano := (\<lambda>_. vTimestamp v)\<rparr>"]
      by (auto simp: service_put_def split: prod.splits)
    with put show ?thesis by (simp add: handles_def)
  qed
  then have ok1: "service_ok (fst s1)" using ok by (rule kept_by_ok)
  have "svc_doc store s2 i (vID v) = Some d" using service_steps_ok [OF steps ok1] d(2) by simp
  moreover obtain d' where "svc_doc store s2 i (vID v) = Some d'" "VectorFromBytes d' = Inr v'"
    using service.get_doc [OF get] by blast
  ultimately show ?thesis using VectorFromBytes_ToBytes [OF v d(1)] by simp
qed

end

section \<open>A search over all shards\<close>

text \<open>The results of the shards a search asks: the candidates of each shard's database.\<close>

definition shard_candidates :: "('w \<Rightarrow> string \<Rightarrow> int \<Rightarrow> db) \<Rightarrow> 'w \<Rightarrow> shard_manager \<Rightarrow> search_request \<Rightarrow> shard_info
    \<Rightarrow> search_result multiset" where
  "shard_candidates store w sm req shard =
     (case GetShardAdapter sm (siID shard) of
        Inl _ \<Rightarrow> {#}
      | Inr c \<Rightarrow> all_candidates (store w (cAddr c) (cDB c)) (srIndexName req) (srQueryVector req) (srFilter req))"

definition reachable_shards :: "('w \<Rightarrow> conn \<Rightarrow> bool) \<Rightarrow> 'w \<Rightarrow> shard_manager \<Rightarrow> shard_info list \<Rightarrow> bool" where
  "reachable_shards up w sm shards \<longleftrightarrow>
     (\<forall>shard \<in> set shards. \<forall>c. GetShardAdapter sm (siID shard) = Inr c \<longrightarrow> up w c)"

text \<open>Two shards with adapters have different databases.\<close>

definition apart :: "shard_manager \<Rightarrow> shard_info list \<Rightarrow> bool" where
  "apart sm shards \<longleftrightarrow> distinct (map siID shards) \<and>
     (\<forall>i j c d. i \<noteq> j \<longrightarrow> GetShardAdapter sm i = Inr c \<longrightarrow> GetShardAdapter sm j = Inr d \<longrightarrow>
        (cAddr c, cDB c) \<noteq> (cAddr d, cDB d))"

context redis_up
begin

lemma search_shards_results:
  "reachable_shards up w sm shards \<Longrightarrow> apart sm shards \<Longrightarrow>
   \<exists>Rs w'. search_shards exec sm (srIndexName req) (srQueryVector req) k (srFilter req) shards w = (Rs, w')
     \<and> list_all2 (is_topk f32_lt rScore k)
         (map (shard_candidates store w sm req) (filter (\<lambda>sh. \<exists>c. GetShardAdapter sm (siID sh) = Inr c) shards)) (map mset Rs)"
proof (induction shards arbitrary: w)
  case (Cons shard shards)
  show ?case
  proof (cases "GetShardAdapter sm (siID shard)")
    case (Inl e)
    with Cons show ?thesis by (simp add: reachable_shards_def apart_def)
  next
    case (Inr c)
    have "up w c" using Cons.prems(1) Inr by (simp add: reachable_shards_def)
    from SearchVectors_topk [OF this, of "srIndexName req" "srQueryVector req" k "srFilter req"] obtain rs w1 where
      s: "SearchVectors exec c (srIndexName req) (srQueryVector req) k (srFilter req) w = (Inr rs, w1)"
      and u: "\<forall>c'. up w c' \<longrightarrow> up w1 c'"
      and other: "\<forall>c'. (cAddr c', cDB c') \<noteq> (cAddr c, cDB c) \<longrightarrow> dbase w1 c' = dbase w c'"
      and top: "is_topk f32_lt rScore k (all_candidates (dbase w c) (srIndexName req) (srQueryVector req) (srFilter req)) (mset rs)"
      by blast
    have r1: "reachable_shards up w1 sm shards" "apart sm shards"
      using Cons.prems u by (simp_all add: reachable_shards_def apart_def)
    have "shard_candidates store w1 sm req sh = shard_candidates store w sm req sh" if sh: "sh \<in> set shards" for sh
    proof -
      have "siID sh \<in> siID ` set shards" using sh by (rule imageI)
      then have "siID sh \<noteq> siID shard" using Cons.prems(2) by (auto simp: apart_def)
      then have "GetShardAdapter sm (siID sh) = Inr d \<Longrightarrow> dbase w1 d = dbase w d" for d
        using Cons.prems(2) Inr other unfolding apart_def by blast
      then show ?thesis by (simp add: shard_candidates_def split: sum.split)
    qed
    then have eq: "map (shard_candidates store w1 sm req) (filter (\<lambda>sh. \<exists>c. GetShardAdapter sm (siID sh) = Inr c) shards)
        = map (shard_candidates store w sm req) (filter (\<lambda>sh. \<exists>c. GetShardAdapter sm (siID sh) = Inr c) shards)" by simp
    from Cons.IH [OF r1] obtain Rs w2 where
      ih: "search_shards exec sm (srIndexName req) (srQueryVector req) k (srFilter req) shards w1 = (Rs, w2)"
      "list_all2 (is_topk f32_lt rScore k)
         (map (shard_candidates store w1 sm req) (filter (\<lambda>sh. \<exists>c. GetShardAdapter sm (siID sh) = Inr c) shards)) (map mset Rs)"
      by blast
    note tl = ih(2) [unfolded eq]
    have "search_shards exec sm (srIndexName req) (srQueryVector req) k (srFilter req) (shard # shards) w = (rs # Rs, w2)"
      using Inr s ih(1) by simp
    moreover have "filter (\<lambda>sh. \<exists>c. GetShardAdapter sm (siID sh) = Inr c) (shard # shards)
        = shard # filter (\<lambda>sh. \<exists>c. GetShardAdapter sm (siID sh) = Inr c) shards" using Inr by simp
    moreover have "is_topk f32_lt rScore k (shard_candidates store w sm req shard) (mset rs)"
      using top Inr by (simp add: shard_candidates_def)
    ultimately show ?thesis using tl by (intro exI [of _ "rs # Rs"] exI [of _ w2]) (simp only: list.map list_all2_Cons simp_thms)
  qed
qed simp

end

lemma GetShardAdapter_active_only: "GetShardAdapter sm (siID sh) = Inr c \<Longrightarrow> \<exists>s. gm_get (smShards sm) (siID sh) = Some s"
  by (auto simp: GetShardAdapter_def split: option.splits)

text \<open>What a manager in order offers a search: all its active shards, each with an adapter.\<close>

lemma healthy_shards:
  assumes ok: "shards_ok n sm" and order: "is_order order" and sh: "sh \<in> set (GetHealthyShards order sm)"
  shows "\<exists>c. GetShardAdapter sm (siID sh) = Inr c" "gm_get (smShards sm) (siID sh) = Some sh"
proof -
  have "sh \<in> snd ` set (smShards sm)" and act: "siStatus sh = ''active''"
    using sh by (auto simp: GetHealthyShards_def is_order_set [OF order])
  then obtain i where "(i, sh) \<in> set (smShards sm)" by force
  then have g: "gm_get (smShards sm) i = Some sh" using ok by (simp add: shards_ok_def gm_ok_def)
  moreover have "siID sh = i" using ok g by (simp add: shards_ok_def)
  ultimately show "gm_get (smShards sm) (siID sh) = Some sh" by simp
  then show "\<exists>c. GetShardAdapter sm (siID sh) = Inr c" using GetShardAdapter_active [OF ok _ act] by blast
qed

lemma healthy_apart:
  assumes ok: "manager_ok sm" and order: "is_order order"
  shows "apart sm (GetHealthyShards order sm)"
proof -
  note sh = manager_ok_shards [OF ok]
  have "distinct (map fst (smShards sm))" "\<forall>p \<in> set (smShards sm). siID (snd p) = fst p"
    using sh by (auto simp: shards_ok_def gm_ok_def)
  moreover from this have "map siID (map snd (smShards sm)) = map fst (smShards sm)" by simp
  ultimately have "distinct (map siID (map snd (smShards sm)))" by (simp only:)
  then have "distinct (map siID (order (map snd (smShards sm))))" by (simp add: is_order_distinct_map [OF order] del: map_map)
  then have "distinct (map siID (GetHealthyShards order sm))" unfolding GetHealthyShards_def by (rule distinct_map_filter)
  moreover have "i \<noteq> j \<Longrightarrow> GetShardAdapter sm i = Inr c \<Longrightarrow> GetShardAdapter sm j = Inr d \<Longrightarrow>
      (cAddr c, cDB c) \<noteq> (cAddr d, cDB d)" for i j c d
    using shards.apart [OF ok] by blast
  ultimately show ?thesis unfolding apart_def by blast
qed

lemma mset_concat_order: "is_order f \<Longrightarrow> mset (concat (f xss)) = mset (concat xss)"
  by (simp add: mset_concat sum_mset_sum_list [symmetric] is_order_mset)

text \<open>The candidates of all the shards a search asks.\<close>

definition service_candidates :: "('w \<Rightarrow> string \<Rightarrow> int \<Rightarrow> db) \<Rightarrow> rt \<Rightarrow> search_request \<Rightarrow> service \<times> 'w \<Rightarrow> search_result multiset" where
  "service_candidates store rt req s =
     sum_list (map (shard_candidates store (snd s) (svShards (fst s)) req) (GetHealthyShards (rtShards rt) (svShards (fst s))))"

context redis_up
begin

lemma search_core_topk:
  assumes ok: "manager_ok (svShards (fst s))" and rt: "rt_ok rt"
    and idx: "gm_get (svIndexes (fst s)) (srIndexName req) = Some index" "int (length (srQueryVector req)) = xDimension index"
    and sh: "GetHealthyShards (rtShards rt) (svShards (fst s)) \<noteq> []"
      "reachable_shards up (snd s) (svShards (fst s)) (GetHealthyShards (rtShards rt) (svShards (fst s)))"
    and nan: "\<forall>x \<in># service_candidates store rt req s. \<not> f32_is_nan (rScore x)"
  shows "\<exists>rs w'. search_core exec rt req s =
      (\<lparr>soSuccess = True, soMessage = ''search completed'', soResults = map (pb_result req) (filter (kept req) rs),
        soSearchTimeMs = 0\<rparr>, fst s, w')
    \<and> is_topk f32_lt rScore (top_k req) (service_candidates store rt req s) (mset rs)
    \<and> descending f32_lt rScore rs"
proof -
  let ?sm = "svShards (fst s)" and ?shards = "GetHealthyShards (rtShards rt) (svShards (fst s))"
  have order: "is_order (rtShards rt)" "is_order (rtResults rt)" using rt by (simp_all add: rt_ok_def)
  from search_shards_results [OF sh(2) healthy_apart [OF ok order(1)], of req "top_k req"] obtain Rs w' where
    e: "search_shards exec ?sm (srIndexName req) (srQueryVector req) (top_k req) (srFilter req) ?shards (snd s) = (Rs, w')"
    and all: "list_all2 (is_topk f32_lt rScore (top_k req))
         (map (shard_candidates store (snd s) ?sm req) (filter (\<lambda>sh. \<exists>c. GetShardAdapter ?sm (siID sh) = Inr c) ?shards)) (map mset Rs)"
    by blast
  have "filter (\<lambda>sh. \<exists>c. GetShardAdapter ?sm (siID sh) = Inr c) ?shards = ?shards"
    using healthy_shards(1) [OF manager_ok_shards [OF ok] order(1)] by (simp add: filter_id_conv)
  note all = all [unfolded this]
  define rs where "rs = best_results (concat (rtResults rt Rs)) (top_k req)"
  have "mset (concat (rtResults rt Rs)) = sum_list (map mset Rs)"
    by (subst mset_concat_order [OF order(2)]) (rule mset_concat)
  then have top: "is_topk f32_lt rScore (top_k req) (sum_list (map mset Rs)) (mset rs)"
    using best_results_topk [of "top_k req" "concat (rtResults rt Rs)"] by (simp add: rs_def)
  have "\<forall>x \<in># sum_list (map mset Rs). \<not> f32_is_nan (rScore x)"
    using nan f32.topk_parts [OF all] unfolding service_candidates_def by (meson mset_subset_eqD)
  from f32.topk_merge [OF all top this]
  have "is_topk f32_lt rScore (top_k req) (service_candidates store rt req s) (mset rs)" by (simp add: service_candidates_def)
  moreover have "search_core exec rt req s =
      (\<lparr>soSuccess = True, soMessage = ''search completed'', soResults = map (pb_result req) (filter (kept req) rs),
        soSearchTimeMs = 0\<rparr>, fst s, w')"
    using idx sh(1) e by (simp add: search_core_def Let_def rs_def)
  moreover have "descending f32_lt rScore rs" by (simp add: rs_def best_results_descending)
  ultimately show ?thesis by blast
qed

end
end
