(* ===== verification/Service_Refinement.thy ===== *)
theory Service_Refinement
  imports Service_Store
begin

text \<open>
  The service against its specification, a map from index and id to a vector: what each
  handler does to that map. Then the runs of the service that name anything at all, the
  bookkeeping of a batch, searches of shards that do not answer, and the streaming loop.
\<close>

section \<open>The service as a map\<close>

text \<open>What the service holds for an index and an id: the document, decoded.\<close>

definition svc_vec :: "('w \<Rightarrow> string \<Rightarrow> int \<Rightarrow> db) \<Rightarrow> service \<times> 'w \<Rightarrow> string \<Rightarrow> string \<Rightarrow> stored_vector option" where
  "svc_vec store s i a =
     (case svc_doc store s i a of
        None \<Rightarrow> None | Some d \<Rightarrow> (case VectorFromBytes d of Inl _ \<Rightarrow> None | Inr v \<Rightarrow> Some v))"

text \<open>A vector as it comes back: its metadata in key order.\<close>

definition canonical :: "stored_vector \<Rightarrow> stored_vector" where
  "canonical v = v\<lparr>vMetadata := sort_key fst (vMetadata v)\<rparr>"

lemma canonical_parts [simp]: "vID (canonical v) = vID v" "vValues (canonical v) = vValues v"
  "vTimestamp (canonical v) = vTimestamp v"
  by (simp_all add: canonical_def)

lemma canonical_metadata: "vector_ok v \<Longrightarrow> gm_get (vMetadata (canonical v)) k = gm_get (vMetadata v) k"
  by (simp add: canonical_def vector_ok_def text_ok_def map_of_sort_key)

text \<open>A request to insert, as a write of the vector it makes.\<close>

lemma insert_core_nano:
  "insert_core exec (rt\<lparr>rtNano := (\<lambda>_. rtNano rt 0)\<rparr>) \<lparr>inIndexName = i, inVector = Some (pb_of (stored_of (pvId v) v t))\<rparr> s
   = insert_core exec rt \<lparr>inIndexName = i, inVector = Some v\<rparr> s"
  by (simp add: insert_core_def pb_of_def stored_of_def Let_def cong: if_cong option.case_cong sum.case_cong)

lemma Insert_as_put:
  assumes "Insert exec rt req s = (resp, s')" "inVector req = Some v"
  shows "service_put exec rt (inIndexName req) (stored_of (pvId v) v (rtNano rt 0)) s
    = (if ioSuccess resp then None else Some (ioMessage resp), s')"
proof -
  have req: "req = \<lparr>inIndexName = inIndexName req, inVector = Some v\<rparr>" using assms(2) by (cases req) simp
  have "Insert exec (rt\<lparr>rtNano := (\<lambda>_. rtNano rt 0)\<rparr>)
      \<lparr>inIndexName = inIndexName req, inVector = Some (pb_of (stored_of (pvId v) v (rtNano rt 0)))\<rparr> s = (resp, s')"
    using assms(1) by (subst (asm) req) (simp add: Insert_def insert_core_nano timed_def)
  then show ?thesis by (simp add: service_put_def stored_of_def)
qed

lemma Get_as_get:
  assumes "Get exec req s = (resp, s')" "goVector resp = Some pv"
  shows "service_get exec (grIndexName req) (grVectorId req) s = (Inr (stored_of (pvId pv) pv (pvTimestamp pv)), s')"
  using assms by (cases req) (simp add: service_get_def)

lemma Get_fails: "Get exec req s = (resp, s') \<Longrightarrow> goSuccess resp \<longleftrightarrow> goVector resp \<noteq> None"
  by (auto simp: Get_def Let_def get_failed_def split: sum.splits prod.splits)

lemma Update_success:
  assumes u: "Update exec rt req s = Returns (resp, s')" "uoSuccess resp" and v: "urVector req = Some v"
  obtains n c w1 w2 e rm w3 where "locate (svShards (fst s)) (urVectorId req) = Inr (n, c)"
    "StoreVector exec c (urIndexName req) (stored_of (urVectorId req) v (rtNano rt 0)) w1 = (None, w2)"
    "ReplicateInsert exec (rtClock rt) (rtReplicas rt) (urIndexName req) (stored_of (urVectorId req) v (rtNano rt 0)) n
       (svReplication (fst s), w2) = (e, rm, w3)"
    "s' = ((fst s)\<lparr>svReplication := rm\<rparr>, w3)"
proof -
  define sv where "sv = stored_of (urVectorId req) v (rtNano rt 0)"
  note def = Update_def Let_def update_failed_def sv_def [symmetric]
  obtain index where idx: "gm_get (svIndexes (fst s)) (urIndexName req) = Some index"
    using u by (cases "gm_get (svIndexes (fst s)) (urIndexName req)") (auto simp: def)
  have dim: "int (length (pvValues v)) = xDimension index"
    using u idx v by (cases "int (length (pvValues v)) = xDimension index") (auto simp: def)
  obtain n c where loc: "locate (svShards (fst s)) (urVectorId req) = Inr (n, c)"
    using u idx v dim by (cases "locate (svShards (fst s)) (urVectorId req)") (auto simp: def)
  obtain e0 w1 where dl: "DeleteVector exec c (urIndexName req) (urVectorId req) (snd s) = (e0, w1)" by fastforce
  obtain e1 w2 where st: "StoreVector exec c (urIndexName req) sv w1 = (e1, w2)" by fastforce
  have e1: "e1 = None" using u idx v dim loc dl st by (cases e1) (auto simp: def)
  obtain e rm w3 where rep: "ReplicateInsert exec (rtClock rt) (rtReplicas rt) (urIndexName req) sv n
      (svReplication (fst s), w2) = (e, rm, w3)" by (cases rule: prod_cases3)
  have "s' = ((fst s)\<lparr>svReplication := rm\<rparr>, w3)"
    using u idx v dim loc dl st rep by (simp add: def e1 ReplicateUpdate_def)
  then show thesis using that loc st rep by (simp add: sv_def e1)
qed

section \<open>Every step, whatever it names\<close>

text \<open>Anything that happens to the service: for some key that it does not name, it is a step.\<close>

definition service_run :: "'w redis \<Rightarrow> service \<times> 'w \<Rightarrow> service \<times> 'w \<Rightarrow> bool" where
  "service_run exec s s' \<longleftrightarrow> (\<exists>K. service_step exec K s s')"

lemma fresh_key: "finite S \<Longrightarrow> \<exists>j b. vector_key j b \<notin> S"
proof -
  assume S: "finite S"
  have "infinite (range (vector_key []))"
    using finite_imageD [of "vector_key []" UNIV] infinite_UNIV_listI by (auto simp: inj_on_def)
  then show ?thesis using S finite_subset [of "range (vector_key [])" S] by auto
qed

lemma service_step_fresh: "service_step exec K s s' \<Longrightarrow> \<exists>j b. service_step exec (vector_key j b) s s'"
proof (induction rule: service_step.induct)
  case (insert rt req s resp s')
  have "finite (set_option (inVector req))" by (cases "inVector req") simp_all
  then obtain j b where "vector_key j b \<notin> (\<lambda>v. vector_key (inIndexName req) (pvId v)) ` set_option (inVector req)"
    using fresh_key [OF finite_imageI] by meson
  then have "\<And>v. inVector req = Some v \<Longrightarrow> vector_key (inIndexName req) (pvId v) \<noteq> vector_key j b" by auto
  with insert show ?case by (blast intro: service_step.insert)
next
  case (batch rt req s bresp s')
  obtain j b where "vector_key j b \<notin> (\<lambda>v. vector_key (biIndexName req) (pvId v)) ` set (biVectors req)"
    using fresh_key [OF finite_imageI [OF finite_set]] by meson
  then have "\<forall>v \<in> set (biVectors req). vector_key (biIndexName req) (pvId v) \<noteq> vector_key j b" by (metis imageI)
  with batch show ?case by (blast intro: service_step.batch)
next
  case (update rt req s uresp s')
  obtain j b where "vector_key j b \<notin> {vector_key (urIndexName req) (urVectorId req)}"
    using fresh_key [of "{vector_key (urIndexName req) (urVectorId req)}"] by blast
  with update show ?case by (metis insertI1 service_step.update)
next
  case (delete rt req s dresp s')
  obtain j b where "vector_key j b \<notin> {vector_key (drIndexName req) (drVectorId req)}"
    using fresh_key [of "{vector_key (drIndexName req) (drVectorId req)}"] by blast
  with delete show ?case by (metis insertI1 service_step.delete)
next
  case (batch_delete rt req s xresp s')
  obtain j b where "vector_key j b \<notin> vector_key (bdIndexName req) ` set (bdVectorIds req)"
    using fresh_key [OF finite_imageI [OF finite_set]] by meson
  then have "\<forall>a \<in> set (bdVectorIds req). vector_key (bdIndexName req) a \<noteq> vector_key j b" by (metis imageI)
  with batch_delete show ?case by (blast intro: service_step.batch_delete)
qed (blast intro: service_step.intros)+

context redis_service
begin

lemma service_runs_ok: "(service_run exec)\<^sup>*\<^sup>* s s' \<Longrightarrow> service_ok (fst s) \<Longrightarrow> service_ok (fst s')"
proof (induction rule: rtranclp_induct)
  case (step y z)
  then obtain K where "service_step exec K y z" by (auto simp: service_run_def)
  then obtain j b where "service_step exec (vector_key j b) y z" using service_step_fresh by meson
  then show ?case using service_step_ok step.IH step.prems by meson
qed simp

lemma svc_vec_doc: "svc_doc store s i a = svc_doc store s' i a \<Longrightarrow> svc_vec store s i a = svc_vec store s' i a"
  by (simp add: svc_vec_def)

lemma put_vec:
  assumes "service_put exec rt i v s = (None, s')" "vector_ok v"
  shows "svc_vec store s' i (vID v) = Some (canonical v)"
  using service.put_doc [OF assms(1)] VectorFromBytes_ToBytes [OF assms(2)] by (auto simp: svc_vec_def canonical_def)

lemma get_vec:
  assumes "service_get exec i a s = (Inr v, s')"
  shows "svc_vec store s i a = Some v" "svc_vec store s' = svc_vec store s"
  using service.get_doc [OF assms] service.get_frame [OF assms] by (auto simp: svc_vec_def fun_eq_iff)

lemma Insert_vec:
  assumes "Insert exec rt req s = (resp, s')" "inVector req = Some v" "ioSuccess resp"
    "vector_ok (stored_of (pvId v) v (rtNano rt 0))"
  shows "svc_vec store s' (inIndexName req) (pvId v) = Some (canonical (stored_of (pvId v) v (rtNano rt 0)))"
  using put_vec [OF _ assms(4)] Insert_as_put [OF assms(1,2)] assms(3) by (simp add: stored_of_def)

lemma Get_vec:
  assumes "Get exec req s = (resp, s')" "goVector resp = Some pv"
  shows "svc_vec store s (grIndexName req) (grVectorId req) = Some (stored_of (pvId pv) pv (pvTimestamp pv))"
  by (rule get_vec [OF Get_as_get [OF assms]])

text \<open>An update stores the new vector even when the deletion before it failed.\<close>

lemma Update_vec:
  assumes u: "Update exec rt req s = Returns (resp, s')" "uoSuccess resp" and v: "urVector req = Some v"
    and ok: "vector_ok (stored_of (urVectorId req) v (rtNano rt 0))"
  shows "svc_vec store s' (urIndexName req) (urVectorId req) = Some (canonical (stored_of (urVectorId req) v (rtNano rt 0)))"
proof -
  let ?v = "stored_of (urVectorId req) v (rtNano rt 0)" and ?i = "urIndexName req"
  obtain n c w1 w2 e rm w3 where loc: "locate (svShards (fst s)) (urVectorId req) = Inr (n, c)"
    and st: "StoreVector exec c ?i ?v w1 = (None, w2)"
    and rep: "ReplicateInsert exec (rtClock rt) (rtReplicas rt) ?i ?v n (svReplication (fst s), w2) = (e, rm, w3)"
    and s': "s' = ((fst s)\<lparr>svReplication := rm\<rparr>, w3)"
    by (rule Update_success [OF u v])
  have id: "vID ?v = urVectorId req" by (simp add: stored_of_def)
  obtain d where d: "ToBytes ?v = Inr d" "dbDocs (dbase w2 c) (vector_key ?i (vID ?v)) = Some d"
    using adapter.put_doc [OF st] by blast
  have "dbDocs (dbase w3 c) (vector_key ?i (vID ?v)) = Some d"
    using ReplicateInsert_docs [OF rep, of "cAddr c" "cDB c" ?i "vID ?v"] d by auto
  then have "svc_doc store s' ?i (urVectorId req) = Some d"
    using locate_home [OF loc] s' id by (simp add: svc_doc_def)
  then show ?thesis using VectorFromBytes_ToBytes [OF ok d(1)] by (simp add: svc_vec_def canonical_def)
qed

lemma Update_frame:
  assumes "Update exec rt req s = Returns (resp, s')" "vector_key j b \<noteq> vector_key (urIndexName req) (urVectorId req)"
  shows "svc_vec store s' j b = svc_vec store s j b"
  using assms Update_handles [of req j b rt s resp s'] by (intro svc_vec_doc handles_doc) auto

lemma Insert_frame:
  assumes "Insert exec rt req s = (resp, s')" "inVector req = Some v" "vector_key j b \<noteq> vector_key (inIndexName req) (pvId v)"
  shows "svc_vec store s' j b = svc_vec store s j b"
  using Insert_handles [of req j b s rt] assms by (intro svc_vec_doc handles_doc) auto

lemma Delete_vec:
  assumes "Delete exec rt req s = (resp, s')" "doSuccess resp"
  shows "svc_vec store s' (drIndexName req) (drVectorId req) = None"
  using service.del_doc [of rt "drIndexName req" "drVectorId req" s s'] assms
  by (cases req) (simp add: svc_vec_def service_del_def)

lemma Delete_frame:
  assumes "Delete exec rt req s = (resp, s')" "vector_key j b \<noteq> vector_key (drIndexName req) (drVectorId req)"
  shows "svc_vec store s' j b = svc_vec store s j b"
  using Delete_handles [of req j b s rt] assms by (intro svc_vec_doc handles_doc) auto

lemma steps_vec:
  assumes "(service_step exec (vector_key j b))\<^sup>*\<^sup>* s s'" "service_ok (fst s)"
  shows "svc_vec store s' j b = svc_vec store s j b" "service_ok (fst s')"
  using service_steps_ok [OF assms] by (simp_all add: svc_vec_def)

lemma Insert_ok:
  assumes "Insert exec rt req s = (resp, s')" "service_ok (fst s)"
  shows "service_ok (fst s')"
proof -
  have "service_step exec [] s s'" by (rule service_step.insert [OF assms(1)]) (simp add: vector_key_def)
  then have "service_run exec s s'" by (auto simp: service_run_def)
  then show ?thesis using service_runs_ok assms(2) by (meson r_into_rtranclp)
qed

end

section \<open>What becomes of a batch\<close>

definition group_ids_mset :: "(int \<times> stored_vector list) list \<Rightarrow> string multiset" where
  "group_ids_mset groups = mset (concat (map (\<lambda>g. map vID (snd g)) groups))"

lemma mset_concat_map: "mset (concat (map f xs)) = (\<Sum>x \<in># mset xs. mset (f x))"
  by (induction xs) simp_all

lemma group_ids_order: "is_order f \<Longrightarrow> group_ids_mset (f groups) = group_ids_mset groups"
  unfolding group_ids_mset_def mset_concat_map by (simp add: is_order_mset)

lemma group_ids_append: "group_ids_mset (append_group k v groups) = add_mset (vID v) (group_ids_mset groups)"
proof -
  have "group_ids_mset (gm_put k (group_of groups k @ [v]) groups) = add_mset (vID v) (group_ids_mset groups)"
    by (induction groups) (auto simp: group_ids_mset_def group_of_def)
  then show ?thesis by (simp add: append_group_def)
qed

text \<open>Every vector of the request is in a group or among the failed.\<close>

lemma group_vectors_accounts:
  "case fold (group_vector sm index rt) ivs (groups, bad) of (groups', bad') \<Rightarrow>
     group_ids_mset groups' + mset bad' = group_ids_mset groups + mset bad + mset (map (pvId \<circ> snd) ivs)"
proof (induction ivs arbitrary: groups bad)
  case (Cons iv ivs)
  obtain g1 b1 where step: "group_vector sm index rt iv (groups, bad) = (g1, b1)" by fastforce
  have "group_ids_mset g1 + mset b1 = group_ids_mset groups + mset bad + {#pvId (snd iv)#}"
    using step by (auto simp: group_vector_def Let_def group_ids_append stored_of_def split: if_splits sum.splits)
  then show ?case using Cons.IH [of g1 b1] step by (auto simp: split: prod.splits)
qed simp

lemma store_group_ids:
  assumes "store_group exec rt i g (n, bad, sv, w) = (n', bad', sv', w')"
  shows "\<exists>I. mset bad + mset (map vID (snd g)) = I + mset bad' - {#} \<and> n' = n + size I"
proof (cases "bad' = bad")
  case True
  then show ?thesis using assms
    by (intro exI [of _ "mset (map vID (snd g))"])
       (auto simp: store_group_def Let_def split: sum.splits prod.splits option.splits)
next
  case False
  then show ?thesis using assms
    by (intro exI [of _ "{#}"])
       (auto simp: store_group_def Let_def split: sum.splits prod.splits option.splits)
qed

lemma store_groups_ids:
  "fold (store_group exec rt i) gs (n, bad, sv, w) = (n', bad', sv', w') \<Longrightarrow>
   \<exists>I. group_ids_mset gs + mset bad = I + mset bad' \<and> n' = n + size I"
proof (induction gs arbitrary: n bad sv w)
  case Nil
  then show ?case by (simp add: group_ids_mset_def)
next
  case (Cons g gs)
  obtain n1 b1 sv1 w1 where step: "store_group exec rt i g (n, bad, sv, w) = (n1, b1, sv1, w1)"
    by (cases rule: prod_cases4)
  obtain I where I: "group_ids_mset gs + mset b1 = I + mset bad'" "n' = n1 + size I"
    using Cons.IH [of n1 b1 sv1 w1] Cons.prems step by auto
  obtain J where J: "mset bad + mset (map vID (snd g)) = J + mset b1" "n1 = n + size J"
    using store_group_ids [OF step] by auto
  have "group_ids_mset (g # gs) + mset bad = group_ids_mset gs + (mset bad + mset (map vID (snd g)))"
    by (simp add: group_ids_mset_def)
  also have "\<dots> = (group_ids_mset gs + mset b1) + J" unfolding J(1) by (simp add: ac_simps)
  also have "\<dots> = (I + J) + mset bad'" unfolding I(1) by (simp add: ac_simps)
  finally have "group_ids_mset (g # gs) + mset bad = (I + J) + mset bad'" .
  then show ?case using I(2) J(2) by (intro exI [of _ "I + J"]) simp
qed

lemma batch_insert_core_ids:
  assumes order: "is_order (rtGroups rt)"
    and core: "batch_insert_core exec rt req s = ((resp, Some n), s')"
  shows "\<exists>I. mset (map pvId (biVectors req)) = I + mset (boFailedIds resp) \<and> n = size I
    \<and> boInsertedCount resp = int32_of (int n) \<and> boSuccess resp = (0 < n)"
proof -
  obtain index where idx: "gm_get (svIndexes (fst s)) (biIndexName req) = Some index"
    using core by (cases "gm_get (svIndexes (fst s)) (biIndexName req)") (auto simp: batch_insert_core_def Let_def)
  obtain groups bad where gr: "group_vectors (svShards (fst s)) index rt (biVectors req) = (groups, bad)" by fastforce
  obtain n' bad' sv' w' where st: "fold (store_group exec rt (biIndexName req)) (rtGroups rt groups) (0, bad, s) = (n', bad', sv', w')"
    by (cases rule: prod_cases4)
  have resp: "n = n'" "boFailedIds resp = bad'" "boInsertedCount resp = int32_of (int n')" "boSuccess resp = (0 < n')"
    using core by (auto simp: batch_insert_core_def Let_def idx gr st)
  have "group_ids_mset groups + mset bad = mset (map pvId (biVectors req))"
    using group_vectors_accounts [where sm = "svShards (fst s)" and index = index and rt = rt and ivs = "enumerate 0 (biVectors req)"
        and groups = "[]" and bad = "[]"] gr
    by (simp add: group_vectors_def group_ids_mset_def flip: map_map)
  moreover obtain I where "group_ids_mset (rtGroups rt groups) + mset bad = I + mset bad'" "n' = 0 + size I"
    using store_groups_ids [of exec rt "biIndexName req" "rtGroups rt groups" 0 bad "fst s" "snd s" n' bad' sv' w'] st by auto
  ultimately show ?thesis using resp by (auto simp: group_ids_order [OF order])
qed

section \<open>Searching shards that do not answer\<close>

lemma search_shards_down:
  assumes "\<And>c cmds w. cmds \<noteq> [] \<Longrightarrow> \<exists>e. exec c cmds w = (Inl e, w)"
  shows "search_shards exec sm i q k flt shards w = ([], w)"
proof (induction shards)
  case (Cons sh shards)
  show ?case
  proof (cases "GetShardAdapter sm (siID sh)")
    case (Inr c)
    obtain e where "exec c [ZREVRANGE (ids_key i)] w = (Inl e, w)" using assms by blast
    then have "SearchVectors exec c i q k flt w = (Inl e, w)" by (simp add: SearchVectors_def GetAllVectorIDs_def)
    then show ?thesis using Cons Inr by simp
  qed (use Cons in simp)
qed simp

section \<open>Streams\<close>

text \<open>The loop leaves at the first request it receives: its body never runs.\<close>

lemma stream_loop_idle:
  "stream_loop body events st = (if events = [] then Some ''EOF'' else snd (hd events), st)"
  by (cases events) auto

section \<open>The specification\<close>

text \<open>A call on one vector, what comes back, and what that may do to the map.\<close>

type_synonym vector_map = "string \<Rightarrow> string \<Rightarrow> stored_vector option"

datatype vector_call =
    CallInsert insert_request
  | CallUpdate update_request
  | CallDelete delete_request
  | CallGet get_request

datatype vector_reply =
    Stored string stored_vector
  | Removed string string
  | Found string string stored_vector
  | Refused string string

definition elsewhere :: "string \<Rightarrow> string \<Rightarrow> vector_map \<Rightarrow> vector_map \<Rightarrow> bool" where
  "elsewhere i a m m' \<longleftrightarrow> (\<forall>j b. vector_key j b \<noteq> vector_key i a \<longrightarrow> m' j b = m j b)"

fun spec_step :: "vector_reply \<Rightarrow> vector_map \<Rightarrow> vector_map \<Rightarrow> bool" where
  "spec_step (Stored i v) m m' \<longleftrightarrow> m' i (vID v) = Some (canonical v) \<and> elsewhere i (vID v) m m'"
| "spec_step (Removed i a) m m' \<longleftrightarrow> m' i a = None \<and> elsewhere i a m m'"
| "spec_step (Found i a v) m m' \<longleftrightarrow> m i a = Some v \<and> m' = m"
| "spec_step (Refused i a) m m' \<longleftrightarrow> elsewhere i a m m'"

text \<open>The handlers, as answers to such calls.\<close>

fun perform :: "'w redis \<Rightarrow> rt \<Rightarrow> vector_call \<Rightarrow> service \<times> 'w \<Rightarrow> (vector_reply \<times> service \<times> 'w) outcome" where
  "perform exec rt (CallInsert req) s =
     (case Insert exec rt req s of (resp, s') \<Rightarrow>
        Returns (case inVector req of
            None \<Rightarrow> Refused (inIndexName req) []
          | Some v \<Rightarrow> if ioSuccess resp then Stored (inIndexName req) (stored_of (pvId v) v (rtNano rt 0))
                      else Refused (inIndexName req) (pvId v), s'))"
| "perform exec rt (CallUpdate req) s =
     (case Update exec rt req s of
        Crashes e \<Rightarrow> Crashes e
      | Returns (resp, s') \<Rightarrow>
          Returns (case urVector req of
              None \<Rightarrow> Refused (urIndexName req) (urVectorId req)
            | Some v \<Rightarrow> if uoSuccess resp then Stored (urIndexName req) (stored_of (urVectorId req) v (rtNano rt 0))
                        else Refused (urIndexName req) (urVectorId req), s'))"
| "perform exec rt (CallDelete req) s =
     (case Delete exec rt req s of (resp, s') \<Rightarrow>
        Returns (if doSuccess resp then Removed (drIndexName req) (drVectorId req)
                 else Refused (drIndexName req) (drVectorId req), s'))"
| "perform exec rt (CallGet req) s =
     (case Get exec req s of (resp, s') \<Rightarrow>
        Returns (case goVector resp of
            None \<Rightarrow> Refused (grIndexName req) (grVectorId req)
          | Some v \<Rightarrow> Found (grIndexName req) (grVectorId req) (stored_of (pvId v) v (pvTimestamp v)), s'))"

context redis_service
begin

lemma handles_elsewhere:
  assumes "\<And>j b. vector_key j b \<noteq> vector_key i a \<Longrightarrow> handles store (vector_key j b) s s'"
  shows "elsewhere i a (svc_vec store s) (svc_vec store s')"
  unfolding elsewhere_def using assms by (intro allI impI svc_vec_doc handles_doc)

lemma perform_insert:
  assumes "perform exec rt (CallInsert req) s = Returns (reply, s')" "\<And>i v. reply = Stored i v \<Longrightarrow> vector_ok v"
  shows "spec_step reply (svc_vec store s) (svc_vec store s')"
proof -
  obtain resp where r: "Insert exec rt req s = (resp, s')" using assms(1) by (auto split: prod.splits)
  define a where "a = (case inVector req of None \<Rightarrow> [] | Some v \<Rightarrow> pvId v)"
  have other: "elsewhere (inIndexName req) a (svc_vec store s) (svc_vec store s')"
  proof (rule handles_elsewhere)
    fix j b
    assume "vector_key j b \<noteq> vector_key (inIndexName req) a"
    then show "handles store (vector_key j b) s s'"
      using Insert_handles [of req j b s rt] r by (simp add: a_def) (metis option.simps(5))
  qed
  show ?thesis
  proof (cases "\<exists>v. inVector req = Some v \<and> ioSuccess resp")
    case True
    then obtain v where v: "inVector req = Some v" "ioSuccess resp" by blast
    have reply: "reply = Stored (inIndexName req) (stored_of (pvId v) v (rtNano rt 0))" using assms(1) r v by simp
    show ?thesis using Insert_vec [OF r v assms(2) [OF reply]] other
      by (simp add: reply a_def v) (simp add: stored_of_def)
  next
    case False
    then have "reply = Refused (inIndexName req) a" using assms(1) r by (auto simp: a_def split: option.splits)
    then show ?thesis using other by simp
  qed
qed

lemma perform_update:
  assumes "perform exec rt (CallUpdate req) s = Returns (reply, s')" "\<And>i v. reply = Stored i v \<Longrightarrow> vector_ok v"
  shows "spec_step reply (svc_vec store s) (svc_vec store s')"
proof -
  obtain resp where r: "Update exec rt req s = Returns (resp, s')" using assms(1) by (auto split: outcome.splits prod.splits)
  have other: "elsewhere (urIndexName req) (urVectorId req) (svc_vec store s) (svc_vec store s')"
    using Update_handles [OF _ r] by (intro handles_elsewhere) auto
  show ?thesis
  proof (cases "\<exists>v. urVector req = Some v \<and> uoSuccess resp")
    case True
    then obtain v where v: "uoSuccess resp" "urVector req = Some v" by blast
    have reply: "reply = Stored (urIndexName req) (stored_of (urVectorId req) v (rtNano rt 0))" using assms(1) r v by simp
    show ?thesis using Update_vec [OF r v assms(2) [OF reply]] other by (simp add: reply) (simp add: stored_of_def)
  next
    case False
    then have "reply = Refused (urIndexName req) (urVectorId req)" using assms(1) r by (auto split: option.splits)
    then show ?thesis using other by simp
  qed
qed

lemma perform_delete:
  assumes "perform exec rt (CallDelete req) s = Returns (reply, s')"
  shows "spec_step reply (svc_vec store s) (svc_vec store s')"
proof -
  obtain resp where r: "Delete exec rt req s = (resp, s')" using assms by (auto split: prod.splits)
  have other: "elsewhere (drIndexName req) (drVectorId req) (svc_vec store s) (svc_vec store s')"
    using Delete_handles [of req _ _ s rt] r by (intro handles_elsewhere) auto
  then show ?thesis using Delete_vec [OF r] assms r by (auto split: if_splits)
qed

lemma perform_get:
  assumes "perform exec rt (CallGet req) s = Returns (reply, s')"
  shows "spec_step reply (svc_vec store s) (svc_vec store s')"
proof -
  obtain resp where r: "Get exec req s = (resp, s')" using assms by (auto split: prod.splits)
  have other: "elsewhere (grIndexName req) (grVectorId req) (svc_vec store s) (svc_vec store s')"
    using Get_handles [of _ s req] r by (intro handles_elsewhere) auto
  show ?thesis
  proof (cases "goVector resp")
    case (Some v)
    then show ?thesis using assms r Get_vec [OF r Some] get_vec(2) [OF Get_as_get [OF r Some]] by auto
  qed (use other assms r in auto)
qed

lemma perform_refines:
  assumes "perform exec rt call s = Returns (reply, s')" "\<And>i v. reply = Stored i v \<Longrightarrow> vector_ok v"
  shows "spec_step reply (svc_vec store s) (svc_vec store s')"
proof (cases call)
  case (CallInsert req)
  then show ?thesis using assms by (intro perform_insert) simp_all
next
  case (CallUpdate req)
  then show ?thesis using assms by (intro perform_update) simp_all
next
  case (CallDelete req)
  then show ?thesis using assms by (intro perform_delete) simp_all
next
  case (CallGet req)
  then show ?thesis using assms by (intro perform_get) simp_all
qed

end

section \<open>Laws of requests\<close>

lemma CreateIndex_effect:
  defines "x rt req \<equiv> NewVectorIndex (rtNano rt 0) (crIndexName req) (crDimension req) (crMetric req) (crShardCount req) (crReplicaCount req)"
  shows "coSuccess (fst (CreateIndex exec rt req s)) \<longleftrightarrow> gm_get (svIndexes (fst s)) (crIndexName req) = None \<and> index_ok (x rt req)"
    "gm_get (svIndexes (fst (snd (CreateIndex exec rt req s)))) =
      (if gm_get (svIndexes (fst s)) (crIndexName req) = None \<and> index_ok (x rt req)
       then (gm_get (svIndexes (fst s)))(crIndexName req \<mapsto>
         (x rt req)\<lparr>xOptions := fold (\<lambda>(k, v). gm_put k v) (crOptions req) (xOptions (x rt req))\<rparr>)
       else gm_get (svIndexes (fst s)))"
  unfolding x_def Validate_iff [symmetric]
  by (auto simp: CreateIndex_def Let_def add_metrics_def fun_eq_iff gm_get_put split: option.split)

lemma DropIndex_effect:
  "dxSuccess (fst (DropIndex exec rt req s)) \<longleftrightarrow> gm_get (svIndexes (fst s)) (diIndexName req) \<noteq> None"
  "gm_get (svIndexes (fst (snd (DropIndex exec rt req s)))) = (gm_get (svIndexes (fst s)))(diIndexName req := None)"
  by (auto simp: DropIndex_def Let_def add_metrics_def fun_eq_iff gm_get_del)

context redis_service
begin

lemma durable_get:
  assumes "service_ok (fst s)"
    "Insert exec rt req s = (resp, s1)" "ioSuccess resp" "inVector req = Some v"
    "vector_ok (stored_of (pvId v) v (rtNano rt 0))"
    "(service_step exec (vector_key (inIndexName req) (pvId v)))\<^sup>*\<^sup>* s1 s2"
    "Get exec \<lparr>grIndexName = inIndexName req, grVectorId = pvId v\<rparr> s2 = (gresp, s3)" "goSuccess gresp"
  obtains g where "goVector gresp = Some g" "pvId g = pvId v" "pvValues g = pvValues v" "pvTimestamp g = rtNano rt 0"
    "\<And>k. gm_get (pvMetadata g) k = gm_get (pvMetadata v) k"
proof -
  let ?v = "stored_of (pvId v) v (rtNano rt 0)"
  obtain g where g: "goVector gresp = Some g" using Get_fails [OF assms(7)] assms(8) by auto
  have "service_ok (fst s1)" by (rule Insert_ok [OF assms(2,1)])
  then have "svc_vec store s2 (inIndexName req) (pvId v) = Some (canonical ?v)"
    using steps_vec(1) [OF assms(6)] Insert_vec [OF assms(2,4,3,5)] by simp
  then have e: "canonical ?v = stored_of (pvId g) g (pvTimestamp g)"
    using Get_vec [OF assms(7) g] by simp
  have "pvId g = vID (canonical ?v)" "pvValues g = vValues (canonical ?v)" "pvTimestamp g = vTimestamp (canonical ?v)"
    "pvMetadata g = vMetadata (canonical ?v)" unfolding e by (simp_all add: stored_of_def)
  then show thesis using that [OF g] canonical_metadata [OF assms(5)] by (simp add: stored_of_def)
qed

end

end
