(* ===== verification/Service_Availability.thy ===== *)
theory Service_Availability
  imports Service_Refinement
begin

text \<open>
  What the handlers do when the servers answer: a valid insert reaches its shard and is read back,
  and the statistics count what the shards' databases hold.
\<close>

section \<open>Writes that reach their server\<close>

context redis_up
begin

lemma StoreVector_up:
  assumes "up w c" "\<forall>x \<in> set (vValues v). f32_finite x"
  shows "\<exists>w'. StoreVector exec c i v w = (None, w')"
proof -
  obtain d where d: "ToBytes v = Inr d" using assms(2) ToBytes_Inr_iff by blast
  obtain rs w' where "exec c (store_commands i v d) w = (Inr rs, w')" using up_exec [OF assms(1)] by blast
  then have "StoreVector exec c i v w = (None, w')" by (simp add: StoreVector_None d)
  then show ?thesis by blast
qed

lemma StoreVector_keeps_up: "StoreVector exec c i v w = (e, w') \<Longrightarrow> up w c' \<Longrightarrow> up w' c'"
  by (auto simp: StoreVector_def exec_error_def split: sum.splits prod.splits dest: up_keep)

lemma ReplicateInsert_keeps_up:
  assumes "ReplicateInsert exec now order i v n (rm, w) = (e, rm', w')" "up w c"
  shows "up w' c"
proof -
  let ?f = "insert_replica exec now i v n"
  have step: "up (snd (snd (?f r emw))) c" if u: "up (snd (snd emw)) c" for r emw
  proof (cases "gm_get (rmAdapters (fst (snd emw))) (rnAddress r)")
    case (Some adapter)
    obtain e1 w1 where st: "StoreVector exec adapter i v (snd (snd emw)) = (e1, w1)" by fastforce
    have "up w1 c" by (rule StoreVector_keeps_up [OF st u])
    then show ?thesis using Some st by (cases e1) (simp_all add: insert_replica_def Let_def)
  qed (use u in \<open>simp add: insert_replica_def Let_def\<close>)
  have "up (snd (snd emw)) c \<Longrightarrow> up (snd (snd (fold ?f rs emw))) c" for rs emw
    by (rule fold_invariant [where Q = "\<lambda>_. True" and P = "\<lambda>emw. up (snd (snd emw)) c"]) (simp_all add: step)
  from this [of "(0, rm, w)"] assms show ?thesis
    by (simp add: ReplicateInsert_def split: prod.splits) (metis snd_conv)
qed

lemma GetVector_up:
  assumes "up w c" "dbDocs (dbase w c) (vector_key i a) = Some d"
  shows "\<exists>w'. GetVector exec c i a w = (VectorFromBytes d, w')"
proof -
  obtain rs w' where e: "exec c [GET (vector_key i a)] w = (Inr rs, w')" using up_exec [OF assms(1)] by blast
  with get_reply [OF e] assms(2) show ?thesis by (simp add: GetVector_def)
qed

text \<open>A valid insert to a shard that answers succeeds, and is read back.\<close>

lemma Insert_available:
  assumes v: "inVector req = Some v" "pvValues v \<noteq> []" "vector_ok (stored_of (pvId v) v (rtNano rt 0))"
    and idx: "gm_get (svIndexes (fst s)) (inIndexName req) = Some index" "int (length (pvValues v)) = xDimension index"
    and loc: "locate (svShards (fst s)) (pvId v) = Inr (n, c)" "up (snd s) c"
  shows "ioSuccess (fst (Insert exec rt req s))
    \<and> (\<exists>g. goSuccess (fst (Get exec \<lparr>grIndexName = inIndexName req, grVectorId = pvId v\<rparr> (snd (Insert exec rt req s))))
        \<and> goVector (fst (Get exec \<lparr>grIndexName = inIndexName req, grVectorId = pvId v\<rparr> (snd (Insert exec rt req s)))) = Some g
        \<and> pvId g = pvId v \<and> pvValues g = pvValues v)"
proof -
  let ?v = "stored_of (pvId v) v (rtNano rt 0)" and ?i = "inIndexName req"
  have id: "vID ?v = pvId v" "vValues ?v = pvValues v" by (simp_all add: stored_of_def)
  have "\<forall>x \<in> set (vValues ?v). f32_finite x" using v(3) by (simp add: vector_ok_def)
  then obtain w1 where st: "StoreVector exec c ?i ?v (snd s) = (None, w1)" using StoreVector_up [OF loc(2)] by blast
  obtain e rm w2 where rep: "ReplicateInsert exec (rtClock rt) (rtReplicas rt) ?i ?v n (svReplication (fst s), w1) = (e, rm, w2)"
    by (rule prod_cases3)
  have core: "insert_core exec rt req s = (\<lparr>ioSuccess = True, ioMessage = ''vector inserted successfully'', ioVectorId = pvId v\<rparr>,
      (fst s)\<lparr>svReplication := rm\<rparr>, w2)"
    using v(1,2) idx loc(1) st rep by (simp add: insert_core_def Let_def)
  then have ok: "ioSuccess (fst (Insert exec rt req s))" by (simp add: Insert_def timed_def)
  have after: "snd (snd (Insert exec rt req s)) = w2" "svShards (fst (snd (Insert exec rt req s))) = svShards (fst s)"
    using core by (simp_all add: Insert_def timed_def add_metrics_def)
  obtain d where d: "ToBytes ?v = Inr d" "dbDocs (dbase w1 c) (vector_key ?i (vID ?v)) = Some d"
    using adapter.put_doc [OF st] by blast
  have doc: "dbDocs (dbase w2 c) (vector_key ?i (pvId v)) = Some d"
    using ReplicateInsert_docs [OF rep, of "cAddr c" "cDB c" ?i "vID ?v"] d id by auto
  have "up w2 c" using ReplicateInsert_keeps_up [OF rep] StoreVector_keeps_up [OF st] loc(2) by blast
  then obtain w3 where g: "GetVector exec c ?i (pvId v) w2 = (VectorFromBytes d, w3)" using GetVector_up doc by blast
  have "VectorFromBytes d = Inr (?v\<lparr>vMetadata := sort_key fst (vMetadata ?v)\<rparr>)" by (rule VectorFromBytes_ToBytes [OF v(3) d(1)])
  then show ?thesis using ok g loc(1) after id by (simp add: Get_def Let_def pb_of_def)
qed

end

section \<open>Statistics\<close>

definition shard_count :: "('w \<Rightarrow> string \<Rightarrow> int \<Rightarrow> db) \<Rightarrow> 'w \<Rightarrow> shard_manager \<Rightarrow> string \<Rightarrow> shard_info \<Rightarrow> int" where
  "shard_count store w sm name shard =
     (case GetShardAdapter sm (siID shard) of
        Inl _ \<Rightarrow> 0
      | Inr c \<Rightarrow> int (card (dom (dbSets (store w (cAddr c) (cDB c)) (ids_key name)))))"

text \<open>The entries of the shards with an adapter, and the total, which wraps around.\<close>

definition put_stats :: "(shard_info \<Rightarrow> int) \<Rightarrow> shard_manager \<Rightarrow> shard_info \<Rightarrow> (int, shard_stats) gomap \<Rightarrow> (int, shard_stats) gomap" where
  "put_stats f sm shard stats =
     (case GetShardAdapter sm (siID shard) of
        Inl _ \<Rightarrow> stats
      | Inr _ \<Rightarrow> gm_put (int32_of (siID shard))
          \<lparr>ssShardId = int32_of (siID shard), ssVectorCount = f shard, ssStatus = siStatus shard,
           ssReplicaNodes = siReplicas shard, ssMemoryUsageBytes = siMemoryUsage shard\<rparr> stats)"

lemma int64_of_add: "int64_of (int64_of a + b) = int64_of (a + b)"
proof -
  have "take_bit 64 (signed_take_bit 63 a + b) = take_bit 64 (a + b)"
    using take_bit_add [of 64 "signed_take_bit 63 a" b] take_bit_add [of 64 a b] by (simp add: take_bit_signed_take_bit)
  then show ?thesis unfolding int64_of_def by (simp add: signed_take_bit_eq_iff_take_bit_eq)
qed

context redis_up
begin

lemma GetVectorCount_up:
  assumes "up w c"
  shows "\<exists>w'. GetVectorCount exec c name w = (Inr (int (card (dom (dbSets (dbase w c) (ids_key name))))), w')
    \<and> store w' = store w \<and> (\<forall>c'. up w c' \<longrightarrow> up w' c')"
proof -
  obtain rs w' where e: "exec c [ZCARD (ids_key name)] w = (Inr rs, w')" using up_exec [OF assms] by blast
  note z = zcard_reply [OF e]
  have "store w' a d = store w a d" for a d
    using z exec_frame [OF e, of a d] by (cases "(a, d) = (cAddr c, cDB c)") auto
  moreover have "GetVectorCount exec c name w = (Inr (int (card (dom (dbSets (dbase w c) (ids_key name))))), w')"
    using e z by (simp add: GetVectorCount_def)
  ultimately show ?thesis using up_keep [OF e] by (auto simp: fun_eq_iff)
qed

lemma shard_stats_counts:
  assumes "reachable_shards up w sm shards" "int64_of t = t"
  shows "\<exists>m w'. fold (shard_stat exec sm name) shards (stats, t, memory, w)
    = (fold (put_stats (shard_count store w sm name) sm) shards stats,
       int64_of (t + sum_list (map (shard_count store w sm name) shards)), m, w')"
  using assms
proof (induction shards arbitrary: stats t memory w)
  case (Cons shard shards)
  show ?case
  proof (cases "GetShardAdapter sm (siID shard)")
    case (Inl e)
    then show ?thesis using Cons by (simp add: shard_stat_def put_stats_def reachable_shards_def shard_count_def)
  next
    case (Inr c)
    have "up w c" using Cons.prems(1) Inr by (simp add: reachable_shards_def)
    from GetVectorCount_up [OF this, of name] obtain w1 where
      n: "GetVectorCount exec c name w = (Inr (shard_count store w sm name shard), w1)" and
      same: "store w1 = store w" and u: "\<forall>c'. up w c' \<longrightarrow> up w1 c'"
      using Inr by (auto simp: shard_count_def)
    have "reachable_shards up w1 sm shards" using Cons.prems(1) u by (simp add: reachable_shards_def)
    moreover have "int64_of (int64_of (t + shard_count store w sm name shard)) = int64_of (t + shard_count store w sm name shard)"
      by (simp add: int64_of_def)
    moreover have "shard_count store w1 sm name = shard_count store w sm name" by (rule ext) (simp add: shard_count_def same split: sum.split)
    moreover obtain m where "shard_stat exec sm name shard (stats, t, memory, w)
      = (put_stats (shard_count store w sm name) sm shard stats, int64_of (t + shard_count store w sm name shard), m, w1)"
      using Inr n by (auto simp: shard_stat_def put_stats_def)
    ultimately show ?thesis
      using Cons.IH [of w1 "int64_of (t + shard_count store w sm name shard)" "put_stats (shard_count store w sm name) sm shard stats" m]
      by (simp add: int64_of_add add.assoc)
  qed
qed simp

lemma GetStats_counts:
  assumes "gm_get (svIndexes (fst s)) (gsIndexName req) = Some index"
    "reachable_shards up (snd s) (svShards (fst s)) (GetAllShards (rtShards rt) (svShards (fst s)))"
  shows "\<exists>st. gxSuccess (fst (GetStats exec rt req s)) \<and> gxStats (fst (GetStats exec rt req s)) = Some st
    \<and> isVectorCount st = int64_of (sum_list (map (shard_count store (snd s) (svShards (fst s)) (gsIndexName req))
        (GetAllShards (rtShards rt) (svShards (fst s)))))
    \<and> isShardStats st = fold (put_stats (shard_count store (snd s) (svShards (fst s)) (gsIndexName req)) (svShards (fst s)))
        (GetAllShards (rtShards rt) (svShards (fst s))) []"
proof -
  have "int64_of 0 = 0" by (simp add: int64_of_def)
  from shard_stats_counts [OF assms(2) this, of "gsIndexName req" "[]" 0] assms(1) show ?thesis
    by (auto simp: GetStats_def Let_def)
qed

end

lemma put_stats_other: "int32_of (siID shard) \<noteq> k \<Longrightarrow> gm_get (put_stats f sm shard stats) k = gm_get stats k"
  by (auto simp: put_stats_def gomap_simps split: sum.split)

lemma fold_put_stats_other:
  "k \<notin> (\<lambda>shard. int32_of (siID shard)) ` set shards \<Longrightarrow> gm_get (fold (put_stats f sm) shards stats) k = gm_get stats k"
  by (induction shards arbitrary: stats) (auto simp: put_stats_other)

lemma fold_put_stats:
  assumes "distinct (map (\<lambda>shard. int32_of (siID shard)) shards)" "shard \<in> set shards" "GetShardAdapter sm (siID shard) = Inr c"
  shows "gm_get (fold (put_stats f sm) shards stats) (int32_of (siID shard)) = Some
    \<lparr>ssShardId = int32_of (siID shard), ssVectorCount = f shard, ssStatus = siStatus shard,
     ssReplicaNodes = siReplicas shard, ssMemoryUsageBytes = siMemoryUsage shard\<rparr>"
  using assms(1,2)
proof (induction shards arbitrary: stats)
  case (Cons s shards)
  show ?case
  proof (cases "shard = s")
    case True
    then have "int32_of (siID shard) \<notin> (\<lambda>shard. int32_of (siID shard)) ` set shards" using Cons.prems(1) by auto
    from fold_put_stats_other [OF this] have "gm_get (fold (put_stats f sm) (s # shards) stats) (int32_of (siID shard))
      = gm_get (put_stats f sm s stats) (int32_of (siID shard))" by simp
    also have "gm_get (put_stats f sm s stats) (int32_of (siID shard)) = Some
      \<lparr>ssShardId = int32_of (siID shard), ssVectorCount = f shard, ssStatus = siStatus shard,
       ssReplicaNodes = siReplicas shard, ssMemoryUsageBytes = siMemoryUsage shard\<rparr>"
      using True assms(3) by (simp add: put_stats_def gomap_simps)
    finally show ?thesis .
  qed (use Cons in auto)
qed simp

text \<open>A shard manager in order lists each of its shards once, under a number that an \<open>int32\<close> holds.\<close>

lemma all_shards_ids:
  assumes "manager_ok sm" "is_order order"
  shows "distinct (map (\<lambda>shard. int32_of (siID shard)) (GetAllShards order sm))"
    "shard \<in> set (GetAllShards order sm) \<Longrightarrow> int32_of (siID shard) = siID shard"
proof -
  note sh = manager_ok_shards [OF assms(1)]
  have ids: "distinct (map fst (smShards sm))" "\<forall>p \<in> set (smShards sm). siID (snd p) = fst p"
    using sh by (auto simp: shards_ok_def gm_ok_def)
  then have "map siID (map snd (smShards sm)) = map fst (smShards sm)" by simp
  then have "distinct (map siID (map snd (smShards sm)))" using ids by (simp only:)
  then have d: "distinct (map siID (GetAllShards order sm))"
    unfolding GetAllShards_def by (simp only: is_order_distinct_map [OF assms(2)])
  have r: "int32_of (siID shard) = siID shard" if s: "shard \<in> set (GetAllShards order sm)" for shard
  proof -
    have "shard \<in> snd ` set (smShards sm)" using s by (simp add: GetAllShards_def is_order_set [OF assms(2)])
    then obtain i where i: "(i, shard) \<in> set (smShards sm)" by force
    then have "siID shard = i" using ids(2) by force
    moreover have "gm_get (smShards sm) i = Some shard" using sh i by (simp add: shards_ok_def gm_ok_def)
    then have "i \<in> dom (gm_get (smShards sm))" by blast
    then have "i \<in> int ` {..<nat (cfShardCount (smConfig sm))}" using sh by (simp add: shards_ok_def)
    ultimately show ?thesis using assms(1) by (intro int32_of_id) (auto simp: manager_ok_def)
  qed
  have "map (\<lambda>shard. int32_of (siID shard)) (GetAllShards order sm) = map siID (GetAllShards order sm)"
    by (rule map_cong [OF refl r])
  with d show "distinct (map (\<lambda>shard. int32_of (siID shard)) (GetAllShards order sm))" by (simp only:)
  show "shard \<in> set (GetAllShards order sm) \<Longrightarrow> int32_of (siID shard) = siID shard" by (rule r)
qed

end
