(* ===== verification/Concurrent_Writes.thy ===== *)
theory Concurrent_Writes
  imports Service_Availability
begin

text \<open>
  Writes that overlap. The handlers of \<open>vector_service.go\<close> hold no lock between writing on the
  shard's server and copying to the replicas, and \<open>Update\<close> none between its deletion and its store;
  the replication runs a goroutine for each replica. Here a handler past its checks is a thread,
  \<open>write_step\<close> moves one thread by one pipeline, one turn of the loop over the replicas or one
  goroutine, and the runs of any number of handlers for one shard are the closure of that relation.
  A goroutine's pipeline and its notes in the manager's tables are one step; the clock it reads is arbitrary.
  The handlers of \<open>Vector_Service\<close>, which run to their end, are runs of one thread
  (\<open>insert_core_thread\<close>, \<open>Update_thread\<close>, \<open>Delete_thread\<close>). \<open>primary_ok\<close> and \<open>replica_ok\<close> are the
  invariants of the shard's document and of a replica's; \<open>diverging_run\<close> parts the two.
  \<open>total_weight\<close> is the measure that every step lowers.
\<close>

section \<open>Writes\<close>

datatype write_op = Put stored_vector | Del string

primrec op_id :: "write_op \<Rightarrow> string" where
  "op_id (Put v) = vID v"
| "op_id (Del a) = a"

text \<open>The pipeline of a write on one server, and what a replica's goroutine does with it.\<close>

primrec op_write :: "'w redis \<Rightarrow> conn \<Rightarrow> string \<Rightarrow> write_op \<Rightarrow> 'w \<Rightarrow> string option \<times> 'w" where
  "op_write exec c i (Put v) w = StoreVector exec c i v w"
| "op_write exec c i (Del a) w = DeleteVector exec c i a w"

primrec op_copy :: "'w redis \<Rightarrow> clock \<Rightarrow> string \<Rightarrow> write_op \<Rightarrow> int \<Rightarrow> replica_node \<Rightarrow> replication_manager \<times> 'w
    \<Rightarrow> replication_manager \<times> 'w" where
  "op_copy exec now i (Put v) n r mw = snd (insert_replica exec now i v n r (0, mw))"
| "op_copy exec now i (Del a) n r mw = delete_replica exec now i a n r mw"

text \<open>What a write leaves as the document of its key.\<close>

primrec op_doc :: "write_op \<Rightarrow> json option \<Rightarrow> bool" where
  "op_doc (Put v) d \<longleftrightarrow> (\<exists>x. ToBytes v = Inr x \<and> d = Some x)"
| "op_doc (Del a) d \<longleftrightarrow> d = None"

primrec op_finite :: "write_op \<Rightarrow> bool" where
  "op_finite (Put v) \<longleftrightarrow> (\<forall>x \<in> set (vValues v). f32_finite x)"
| "op_finite (Del a) \<longleftrightarrow> True"

section \<open>Threads and steps\<close>

text \<open>
  A handler past its checks. An update first deletes (\<open>Updating\<close>, then \<open>Cleared\<close>); every handler
  writes on the shard's server and then replicates: the loop over the replicas launches a goroutine
  for each that is eligible when the loop reaches it (\<open>Copying\<close>: the index the loop is at, the
  goroutines running), and the handler answers when the loop is through and no goroutine is left.
\<close>

datatype write_thread = Updating stored_vector | Cleared stored_vector | Writing write_op
  | Copying write_op nat "replica_node list" | Finished write_op | Refused write_op

inductive write_step :: "'w redis \<Rightarrow> string \<Rightarrow> int \<Rightarrow> conn
    \<Rightarrow> write_thread list \<times> replication_manager \<times> 'w \<Rightarrow> write_thread list \<times> replication_manager \<times> 'w \<Rightarrow> bool"
  for exec i n c where
  clear: "k < length ts \<Longrightarrow> ts ! k = Updating v \<Longrightarrow> DeleteVector exec c i (vID v) w = (e, w') \<Longrightarrow>
    write_step exec i n c (ts, m, w) (ts[k := Cleared v], m, w')"
| restore: "k < length ts \<Longrightarrow> ts ! k = Cleared v \<Longrightarrow> StoreVector exec c i v w = (None, w') \<Longrightarrow>
    write_step exec i n c (ts, m, w) (ts[k := Copying (Put v) 0 []], m, w')"
| lose: "k < length ts \<Longrightarrow> ts ! k = Cleared v \<Longrightarrow> StoreVector exec c i v w = (Some e, w') \<Longrightarrow>
    write_step exec i n c (ts, m, w) (ts[k := Refused (Put v)], m, w')"
| perform: "k < length ts \<Longrightarrow> ts ! k = Writing p \<Longrightarrow> op_write exec c i p w = (None, w') \<Longrightarrow>
    write_step exec i n c (ts, m, w) (ts[k := Copying p 0 []], m, w')"
| refuse: "k < length ts \<Longrightarrow> ts ! k = Writing p \<Longrightarrow> op_write exec c i p w = (Some e, w') \<Longrightarrow>
    write_step exec i n c (ts, m, w) (ts[k := Refused p], m, w')"
| launch: "k < length ts \<Longrightarrow> ts ! k = Copying p j rs \<Longrightarrow> j < length (group_of (rmReplicas m) n) \<Longrightarrow>
    r = group_of (rmReplicas m) n ! j \<Longrightarrow>
    write_step exec i n c (ts, m, w) (ts[k := Copying p (Suc j) (if eligible r then rs @ [r] else rs)], m, w)"
| copy: "k < length ts \<Longrightarrow> ts ! k = Copying p j rs \<Longrightarrow> r \<in> set rs \<Longrightarrow>
    op_copy exec now i p n r (m, w) = (m', w') \<Longrightarrow>
    write_step exec i n c (ts, m, w) (ts[k := Copying p j (remove1 r rs)], m', w')"
| finish: "k < length ts \<Longrightarrow> ts ! k = Copying p (length (group_of (rmReplicas m) n)) [] \<Longrightarrow>
    write_step exec i n c (ts, m, w) (ts[k := Finished p], m, w)"

section \<open>An atomic replication is one of the runs\<close>

lemma update_same: "ts ! k = x \<Longrightarrow> ts[k := x] = ts"
  by auto

lemma copy_run:
  "mset order = mset rs \<Longrightarrow> k < length ts \<Longrightarrow> ts ! k = Copying p j rs \<Longrightarrow>
   (write_step exec i n c)\<^sup>*\<^sup>* (ts, m, w) (ts[k := Copying p j []], fold (op_copy exec now i p n) order (m, w))"
proof (induction order arbitrary: rs ts m w)
  case Nil
  then show ?case by (simp add: update_same)
next
  case (Cons r order)
  obtain m1 w1 where e: "op_copy exec now i p n r (m, w) = (m1, w1)" by fastforce
  have r: "r \<in> set rs" "mset order = mset (remove1 r rs)"
    using Cons.prems(1) by (metis list.set_intros(1) mset_eq_setD) (metis Cons.prems(1) mset_remove1 remove1.simps(2))
  let ?ts = "ts[k := Copying p j (remove1 r rs)]"
  have "write_step exec i n c (ts, m, w) (?ts, m1, w1)"
    by (rule write_step.copy [OF Cons.prems(2,3) r(1) e])
  also have "(write_step exec i n c)\<^sup>*\<^sup>* (?ts, m1, w1) (?ts[k := Copying p j []], fold (op_copy exec now i p n) order (m1, w1))"
    by (rule Cons.IH [OF r(2)]) (use Cons.prems(2) in simp_all)
  finally show ?case by (simp add: e)
qed

lemma launch_run:
  "d = length (group_of (rmReplicas m) n) - j \<Longrightarrow> j \<le> length (group_of (rmReplicas m) n) \<Longrightarrow> k < length ts \<Longrightarrow>
   ts ! k = Copying p j rs \<Longrightarrow>
   (write_step exec i n c)\<^sup>*\<^sup>* (ts, m, w) (ts[k := Copying p (length (group_of (rmReplicas m) n))
      (rs @ filter eligible (drop j (group_of (rmReplicas m) n)))], m, w)"
proof (induction d arbitrary: j rs ts)
  case 0
  then show ?case by (simp add: update_same)
next
  case (Suc d)
  let ?g = "group_of (rmReplicas m) n"
  have j: "j < length ?g" using Suc.prems(1) by simp
  let ?ts = "ts[k := Copying p (Suc j) (if eligible (?g ! j) then rs @ [?g ! j] else rs)]"
  have "write_step exec i n c (ts, m, w) (?ts, m, w)"
    by (rule write_step.launch [OF Suc.prems(3,4) j refl])
  also have "(write_step exec i n c)\<^sup>*\<^sup>* (?ts, m, w) (?ts[k := Copying p (length ?g)
      ((if eligible (?g ! j) then rs @ [?g ! j] else rs) @ filter eligible (drop (Suc j) ?g))], m, w)"
    by (rule Suc.IH) (use Suc.prems j in simp_all)
  finally show ?case using Cons_nth_drop_Suc [OF j, symmetric] by (cases "eligible (?g ! j)") simp_all
qed

definition replicas_for :: "replication_manager \<Rightarrow> int \<Rightarrow> replica_node list" where
  "replicas_for m n = filter eligible (group_of (rmReplicas m) n)"

lemma replicate_run:
  assumes k: "k < length ts" "ts ! k = Copying p 0 []" and order: "is_order order"
    and group: "length (group_of (rmReplicas m') n) = length (group_of (rmReplicas m) n)"
    and e: "fold (op_copy exec now i p n) (order (replicas_for m n)) (m, w) = (m', w')"
  shows "(write_step exec i n c)\<^sup>*\<^sup>* (ts, m, w) (ts[k := Finished p], m', w')"
proof -
  let ?l = "length (group_of (rmReplicas m) n)"
  let ?t1 = "ts[k := Copying p ?l (replicas_for m n)]" and ?t2 = "ts[k := Copying p ?l []]"
  have "(write_step exec i n c)\<^sup>*\<^sup>* (ts, m, w) (?t1, m, w)"
    using launch_run [OF refl _ k, of m n exec i c w] by (simp add: replicas_for_def)
  moreover have "(write_step exec i n c)\<^sup>*\<^sup>* (?t1, m, w) (?t1[k := Copying p ?l []], m', w')"
    unfolding e [symmetric] by (rule copy_run [OF is_order_mset [OF order]]) (use k in simp_all)
  moreover have "write_step exec i n c (?t2, m', w') (?t2[k := Finished p], m', w')"
    by (rule write_step.finish) (use k group in simp_all)
  ultimately show ?thesis by simp
qed

section \<open>What a write and a copy do\<close>

text \<open>Replicas whose databases are not the shard's own.\<close>

definition foreign :: "conn \<Rightarrow> replication_manager \<Rightarrow> bool" where
  "foreign c m \<longleftrightarrow> (\<forall>a c'. gm_get (rmAdapters m) a = Some c' \<longrightarrow> (cAddr c', cDB c') \<noteq> (cAddr c, cDB c))"

lemma foreign_adapters: "rmAdapters m' = rmAdapters m \<Longrightarrow> foreign c m' = foreign c m"
  by (simp add: foreign_def)

lemma failed_log [simp]: "failed n a (logReplication t n' oper k b m) \<longleftrightarrow> failed n a m"
  by (simp add: failed_def)

lemma failed_update_other:
  assumes "\<And>r. rnAddress (f r) = rnAddress r" "\<And>r. rnAddress r = b \<Longrightarrow> a \<noteq> b \<or> rnStatus (f r) = rnStatus r"
  shows "failed s a (update_replica s b f m) \<longleftrightarrow> failed s a m"
proof -
  have "(\<exists>r \<in> set (update_first (\<lambda>r. rnAddress r = b) f rs). rnAddress r = a \<and> rnStatus r = ''failed'')
      \<longleftrightarrow> (\<exists>r \<in> set rs. rnAddress r = a \<and> rnStatus r = ''failed'')" for rs
    by (induction rs) (use assms in auto)
  then show ?thesis by (simp add: failed_def update_replica_group)
qed

lemma failed_sync [simp]: "failed n a (updateReplicaSync t n b m) \<longleftrightarrow> failed n a m"
  unfolding updateReplicaSync_def by (rule failed_update_other) simp_all

lemma failed_mark_other: "a \<noteq> b \<Longrightarrow> failed n a (markReplicaFailed n b m) \<longleftrightarrow> failed n a m"
  unfolding markReplicaFailed_def by (rule failed_update_other) simp_all

lemma adapters_log [simp]: "rmAdapters (logReplication t n oper k b m) = rmAdapters m"
  by (simp add: logReplication_def Let_def)

lemma adapters_note [simp]:
  "rmAdapters (updateReplicaSync t n a m) = rmAdapters m" "rmAdapters (markReplicaFailed n a m) = rmAdapters m"
  by (simp_all add: updateReplicaSync_def markReplicaFailed_def update_replica_rest)

text \<open>A goroutine writes on its replica's server, and marks no replica but its own as failed, only when that fails.\<close>

lemma op_copy_cases:
  assumes "op_copy exec now i p n r (m, w) = (m', w')"
  shows "rmAdapters m' = rmAdapters m \<and>
    (case gm_get (rmAdapters m) (rnAddress r) of
       None \<Rightarrow> w' = w \<and> m' = m
     | Some adapter \<Rightarrow> \<exists>e. op_write exec adapter i p w = (e, w')
         \<and> (\<forall>a. e = None \<or> a \<noteq> rnAddress r \<longrightarrow> failed n a m' = failed n a m))"
proof (cases p)
  case (Put v)
  then show ?thesis
    using assms by (auto simp: insert_replica_def Let_def failed_mark_other split: option.splits prod.splits)
next
  case (Del a)
  then show ?thesis
    using assms by (auto simp: delete_replica_def Let_def split: option.splits prod.splits)
qed

lemma steady_op_copy: "steady (fst mw) (fst (op_copy exec now i p n r mw))"
proof (cases p)
  case (Put v)
  then show ?thesis using steady_insert_replica [of "(0, mw)" exec now i v n r] by simp
next
  case (Del a)
  then show ?thesis by (simp add: delete_replica_def Let_def split: option.split prod.split)
qed

lemma steady_copies: "steady m (fst (fold (op_copy exec now i p n) rs (m, w)))"
  using steady_fold [where p = fst and s = "(m, w)", OF steady_op_copy] by simp

lemma steady_group_length: "steady m m' \<Longrightarrow> rep_ok m \<Longrightarrow> length (group_of (rmReplicas m') n) = length (group_of (rmReplicas m) n)"
  by (metis evolves_def list_all2_lengthD steady_def)

context redis_service
begin

lemma op_write_doc: "op_write exec c i p w = (None, w') \<Longrightarrow> op_doc p (dbDocs (dbase w' c) (vector_key i (op_id p)))"
  by (cases p) (auto dest: adapter.put_doc adapter.del_doc)

lemma op_write_frame:
  assumes "op_write exec c' i p w = (e, w')" "(cAddr c', cDB c') \<noteq> (cAddr c, cDB c)"
  shows "dbase w' c = dbase w c"
proof -
  have "w' = w \<or> (\<exists>cmds r. exec c' cmds w = (r, w'))"
    using assms(1) by (cases p) (auto simp: StoreVector_def DeleteVector_def exec_error_def split: sum.splits prod.splits)
  then show ?thesis using exec_other assms(2) by metis
qed

end

context redis_up
begin

lemma op_write_up: "up w c \<Longrightarrow> op_finite p \<Longrightarrow> \<exists>w'. op_write exec c i p w = (None, w')"
proof (cases p)
  case (Put v)
  moreover assume "up w c" "op_finite p"
  ultimately show ?thesis using StoreVector_up by simp
next
  case (Del a)
  moreover assume "up w c"
  moreover from this obtain rs w' where "exec c [DEL (vector_key i a), DEL (metadata_key i a), ZREM (ids_key i) a] w = (Inr rs, w')"
    using up_exec by blast
  ultimately show ?thesis by (simp add: DeleteVector_def exec_error_def)
qed

lemma op_write_keeps_up: "op_write exec c i p w = (e, w') \<Longrightarrow> up w c' \<Longrightarrow> up w' c'"
  by (cases p) (auto simp: StoreVector_def DeleteVector_def exec_error_def split: sum.splits prod.splits dest: up_keep)

lemma op_copy_keeps_up:
  assumes "op_copy exec now i p n r (m, w) = (m', w')" "up w c"
  shows "up w' c"
  using op_copy_cases [OF assms(1)] assms(2) by (auto split: option.splits dest: op_write_keeps_up)

lemma op_copy_frame:
  assumes "op_copy exec now i p n r (m, w) = (m', w')" "foreign c m"
  shows "dbase w' c = dbase w c"
  using op_copy_cases [OF assms(1)] assms(2) by (auto simp: foreign_def split: option.splits dest: op_write_frame)

text \<open>A replica whose server answers is written to when its goroutine runs, and by no other.\<close>

lemma copies_healthy:
  assumes "fold (op_copy exec now i p n) rs (m, w) = (m', w')"
    "\<forall>b c. gm_get (rmAdapters m) b = Some c \<longrightarrow> cAddr c = b"
    "gm_get (rmAdapters m) a = Some c" "up w c" "op_finite p"
  shows "up w' c \<and> (failed n a m' \<longleftrightarrow> failed n a m)
    \<and> (a \<in> rnAddress ` set rs \<or> op_doc p (dbDocs (dbase w c) (vector_key i (op_id p))) \<longrightarrow>
         op_doc p (dbDocs (dbase w' c) (vector_key i (op_id p))))"
  using assms
proof (induction rs arbitrary: m w)
  case (Cons r rs)
  obtain m1 w1 where e: "op_copy exec now i p n r (m, w) = (m1, w1)" by fastforce
  have ad: "rmAdapters m1 = rmAdapters m" using op_copy_cases [OF e] by simp
  have u1: "up w1 c" by (rule op_copy_keeps_up [OF e Cons.prems(4)])
  have rest: "up w' c \<and> (failed n a m' \<longleftrightarrow> failed n a m1)
    \<and> (a \<in> rnAddress ` set rs \<or> op_doc p (dbDocs (dbase w1 c) (vector_key i (op_id p))) \<longrightarrow>
         op_doc p (dbDocs (dbase w' c) (vector_key i (op_id p))))"
    by (rule Cons.IH) (use Cons.prems e ad u1 in simp_all)
  show ?case
  proof (cases "rnAddress r = a")
    case True
    then obtain err where w: "op_write exec c i p w = (err, w1)" and f: "err = None \<longrightarrow> failed n a m1 = failed n a m"
      using op_copy_cases [OF e] Cons.prems(3) by auto
    then have "err = None" using op_write_up [OF Cons.prems(4,5), of i] by auto
    then show ?thesis using rest f w op_write_doc by simp
  next
    case False
    have "dbase w1 c = dbase w c" "failed n a m1 = failed n a m"
    proof -
      show "failed n a m1 = failed n a m" using op_copy_cases [OF e] False by (auto split: option.splits)
      show "dbase w1 c = dbase w c"
      proof (cases "gm_get (rmAdapters m) (rnAddress r)")
        case (Some c')
        then have "cAddr c' = rnAddress r" "cAddr c = a" using Cons.prems(2,3) by blast+
        moreover obtain err where "op_write exec c' i p w = (err, w1)" using op_copy_cases [OF e] Some by auto
        ultimately show ?thesis using False op_write_frame by (metis prod.inject)
      qed (use op_copy_cases [OF e] in simp)
    qed
    then show ?thesis using rest False by auto
  qed
qed simp

lemma copies_foreign:
  "fold (op_copy exec now i p n) rs (m, w) = (m', w') \<Longrightarrow> foreign c m \<Longrightarrow>
   dbase w' c = dbase w c \<and> rmAdapters m' = rmAdapters m"
proof (induction rs arbitrary: m w)
  case (Cons r rs)
  obtain m1 w1 where e: "op_copy exec now i p n r (m, w) = (m1, w1)" by fastforce
  have ad: "rmAdapters m1 = rmAdapters m" using op_copy_cases [OF e] by simp
  have "dbase w' c = dbase w1 c \<and> rmAdapters m' = rmAdapters m1"
    by (rule Cons.IH) (use Cons.prems e foreign_adapters [OF ad] in simp_all)
  then show ?case using op_copy_frame [OF e Cons.prems(2)] ad by simp
qed simp

end

section \<open>The shard's document along a run\<close>

fun thread_op :: "write_thread \<Rightarrow> write_op" where
  "thread_op (Updating v) = Put v" | "thread_op (Cleared v) = Put v" | "thread_op (Writing p) = p"
| "thread_op (Copying p _ _) = p" | "thread_op (Finished p) = p" | "thread_op (Refused p) = p"

text \<open>What the thread's last write on the shard's server left there, when it has written.\<close>

fun thread_left :: "write_thread \<Rightarrow> write_op option" where
  "thread_left (Cleared v) = Some (Del (vID v))" | "thread_left (Copying p _ _) = Some p"
| "thread_left (Finished p) = Some p" | "thread_left _ = None"

lemma map_update_same: "f (xs ! k) = f y \<Longrightarrow> map f (xs[k := y]) = map f xs"
  by (cases "k < length xs") (simp_all add: map_update list_update_same_conv list_update_beyond)

text \<open>
  In any interleaving the shard's document is what it was before, when no thread has written, and
  otherwise what one of the threads that have written left there.
\<close>

definition primary_ok :: "('w \<Rightarrow> conn \<Rightarrow> bool) \<Rightarrow> ('w \<Rightarrow> string \<Rightarrow> int \<Rightarrow> db) \<Rightarrow> string \<Rightarrow> string \<Rightarrow> conn \<Rightarrow> json option
    \<Rightarrow> write_thread list \<times> replication_manager \<times> 'w \<Rightarrow> bool" where
  "primary_ok up store i a c d0 s \<longleftrightarrow> (case s of (ts, m, w) \<Rightarrow>
     let d = dbDocs (store w (cAddr c) (cDB c)) (vector_key i a)
     in up w c \<and> foreign c m \<and> (\<forall>p \<in> set (map thread_op ts). op_id p = a \<and> op_finite p)
        \<and> (set (map thread_left ts) \<subseteq> {None} \<and> d = d0
           \<or> (\<exists>p. Some p \<in> set (map thread_left ts) \<and> op_doc p d)))"

lemma primary_ok_left:
  assumes "primary_ok up store i a c d0 (ts, m, w)" "k < length ts" "thread_op t = thread_op (ts ! k)"
    "thread_left t = Some p" "op_doc p (dbDocs (store w' (cAddr c) (cDB c)) (vector_key i a))" "up w' c"
  shows "primary_ok up store i a c d0 (ts[k := t], m, w')"
proof -
  have op: "map thread_op (ts[k := t]) = map thread_op ts" by (rule map_update_same) (simp add: assms(3))
  have "Some p \<in> set (map thread_left (ts[k := t]))"
    using assms(2,4) by (simp add: map_update set_update_memI)
  then show ?thesis using assms(1,5,6) unfolding primary_ok_def prod.case Let_def op by blast
qed

lemma primary_ok_same:
  assumes "primary_ok up store i a c d0 (ts, m, w)" "thread_op t = thread_op (ts ! k)" "thread_left t = thread_left (ts ! k)"
    "rmAdapters m' = rmAdapters m" "store w' (cAddr c) (cDB c) = store w (cAddr c) (cDB c)" "up w' c"
  shows "primary_ok up store i a c d0 (ts[k := t], m', w')"
proof -
  have "map thread_op (ts[k := t]) = map thread_op ts" "map thread_left (ts[k := t]) = map thread_left ts"
    by (rule map_update_same, simp add: assms(2)) (rule map_update_same, simp add: assms(3))
  then show ?thesis using assms(1,5,6) foreign_adapters [OF assms(4)] unfolding primary_ok_def prod.case Let_def by simp
qed

lemma primary_ok_op:
  "primary_ok up store i a c d0 (ts, m, w) \<Longrightarrow> k < length ts \<Longrightarrow>
   op_id (thread_op (ts ! k)) = a \<and> op_finite (thread_op (ts ! k)) \<and> up w c \<and> foreign c m"
  by (simp add: primary_ok_def Let_def)

context redis_up
begin

lemma write_step_primary:
  "write_step exec i n c s s' \<Longrightarrow> primary_ok up store i a c d0 s \<Longrightarrow> primary_ok up store i a c d0 s'"
proof (induction rule: write_step.induct)
  case (clear k ts v w e w' m)
  note ok = primary_ok_op [OF clear.prems clear.hyps(1)]
  have d: "op_write exec c i (Del (vID v)) w = (e, w')" using clear.hyps(3) by simp
  then have e: "op_write exec c i (Del (vID v)) w = (None, w')" using op_write_up [of w c "Del (vID v)" i] ok by auto
  show ?case
    by (rule primary_ok_left [where p = "Del (vID v)", OF clear.prems clear.hyps(1)])
      (use ok clear.hyps(2) op_write_doc [OF e] op_write_keeps_up [OF d] in simp_all)
next
  case (restore k ts v w w' m)
  note ok = primary_ok_op [OF restore.prems restore.hyps(1)]
  have e: "op_write exec c i (Put v) w = (None, w')" using restore.hyps(3) by simp
  show ?case
    by (rule primary_ok_left [where p = "Put v", OF restore.prems restore.hyps(1)])
      (use ok restore.hyps(2) op_write_doc [OF e] op_write_keeps_up [OF e] in simp_all)
next
  case (lose k ts v w e w' m)
  note ok = primary_ok_op [OF lose.prems lose.hyps(1)]
  then show ?case using op_write_up [of w c "Put v" i] lose.hyps(2,3) by fastforce
next
  case (perform k ts p w w' m)
  note ok = primary_ok_op [OF perform.prems perform.hyps(1)]
  show ?case
    by (rule primary_ok_left [where p = p, OF perform.prems perform.hyps(1)])
      (use ok perform.hyps(2) op_write_doc [OF perform.hyps(3)] op_write_keeps_up [OF perform.hyps(3)] in simp_all)
next
  case (refuse k ts p w e w' m)
  note ok = primary_ok_op [OF refuse.prems refuse.hyps(1)]
  then show ?case using op_write_up [of w c p i] refuse.hyps(2,3) by fastforce
next
  case (launch k ts p j rs m r w)
  show ?case
    by (rule primary_ok_same [OF launch.prems]) (use primary_ok_op [OF launch.prems launch.hyps(1)] launch.hyps(2) in simp_all)
next
  case (copy k ts p j rs r now m w m' w')
  note ok = primary_ok_op [OF copy.prems copy.hyps(1)]
  show ?case
    by (rule primary_ok_same [OF copy.prems])
      (use ok copy.hyps(2) op_copy_cases [OF copy.hyps(4)] op_copy_frame [OF copy.hyps(4)] op_copy_keeps_up [OF copy.hyps(4)]
        in simp_all)
next
  case (finish k ts p m w)
  show ?case
    by (rule primary_ok_same [OF finish.prems]) (use primary_ok_op [OF finish.prems finish.hyps(1)] finish.hyps(2) in simp_all)
qed

lemma write_steps_primary:
  "(write_step exec i n c)\<^sup>*\<^sup>* s s' \<Longrightarrow> primary_ok up store i a c d0 s \<Longrightarrow> primary_ok up store i a c d0 s'"
  by (induction rule: rtranclp_induct) (simp_all add: write_step_primary)

end

section \<open>A replica's document along a run\<close>

text \<open>
  A replica at place \<open>j0\<close> of its shard, with address \<open>b\<close>: what a thread has copied to it (its loop
  is past the place and no goroutine for the address is left), and what is true of every loop.
\<close>

fun thread_copied :: "string \<Rightarrow> nat \<Rightarrow> write_thread \<Rightarrow> write_op option" where
  "thread_copied b j0 (Copying p j rs) = (if j0 < j \<and> b \<notin> rnAddress ` set rs then Some p else None)"
| "thread_copied b j0 (Finished p) = Some p"
| "thread_copied b j0 _ = None"

fun loop_ok :: "string list \<Rightarrow> write_thread \<Rightarrow> bool" where
  "loop_ok addrs (Copying p j rs) \<longleftrightarrow> distinct (map rnAddress rs) \<and> rnAddress ` set rs \<subseteq> set (take j addrs)"
| "loop_ok addrs _ \<longleftrightarrow> True"

definition serves :: "('w \<Rightarrow> conn \<Rightarrow> bool) \<Rightarrow> conn \<Rightarrow> int \<Rightarrow> string list \<Rightarrow> nat \<Rightarrow> conn \<Rightarrow> replication_manager \<times> 'w \<Rightarrow> bool" where
  "serves up c n addrs j0 c' mw \<longleftrightarrow> (case mw of (m, w) \<Rightarrow>
     rep_ok m \<and> foreign c m \<and> map rnAddress (group_of (rmReplicas m) n) = addrs \<and> j0 < length addrs
     \<and> rnRole (group_of (rmReplicas m) n ! j0) \<noteq> ''primary'' \<and> rnStatus (group_of (rmReplicas m) n ! j0) = ''active''
     \<and> \<not> failed n (addrs ! j0) m \<and> gm_get (rmAdapters m) (addrs ! j0) = Some c' \<and> up w c')"

definition replica_ok :: "('w \<Rightarrow> conn \<Rightarrow> bool) \<Rightarrow> ('w \<Rightarrow> string \<Rightarrow> int \<Rightarrow> db) \<Rightarrow> string \<Rightarrow> string \<Rightarrow> conn \<Rightarrow> int \<Rightarrow> string list \<Rightarrow> nat
    \<Rightarrow> conn \<Rightarrow> json option \<Rightarrow> write_thread list \<times> replication_manager \<times> 'w \<Rightarrow> bool" where
  "replica_ok up store i a c n addrs j0 c' d0 s \<longleftrightarrow> (case s of (ts, m, w) \<Rightarrow>
     let d = dbDocs (store w (cAddr c') (cDB c')) (vector_key i a); copied = map (thread_copied (addrs ! j0) j0) ts
     in serves up c n addrs j0 c' (m, w) \<and> (\<forall>p \<in> set (map thread_op ts). op_id p = a \<and> op_finite p)
        \<and> (\<forall>t \<in> set ts. loop_ok addrs t)
        \<and> (set copied \<subseteq> {None} \<and> d = d0 \<or> (\<exists>p. Some p \<in> set copied \<and> op_doc p d)))"

lemma replica_ok_thread:
  assumes "replica_ok up store i a c n addrs j0 c' d0 (ts, m, w)" "k < length ts"
  shows "op_id (thread_op (ts ! k)) = a" "op_finite (thread_op (ts ! k))" "loop_ok addrs (ts ! k)" "serves up c n addrs j0 c' (m, w)"
  using assms by (simp_all add: replica_ok_def Let_def)

lemma replica_ok_same:
  assumes "replica_ok up store i a c n addrs j0 c' d0 (ts, m, w)" "thread_op t = thread_op (ts ! k)"
    "thread_copied (addrs ! j0) j0 t = thread_copied (addrs ! j0) j0 (ts ! k)" "loop_ok addrs t"
    "serves up c n addrs j0 c' (m', w')" "store w' (cAddr c') (cDB c') = store w (cAddr c') (cDB c')"
  shows "replica_ok up store i a c n addrs j0 c' d0 (ts[k := t], m', w')"
proof -
  have eqs: "map thread_op (ts[k := t]) = map thread_op ts"
    "map (thread_copied (addrs ! j0) j0) (ts[k := t]) = map (thread_copied (addrs ! j0) j0) ts"
    by (rule map_update_same, simp add: assms(2)) (rule map_update_same, simp add: assms(3))
  have "\<forall>u \<in> set (ts[k := t]). loop_ok addrs u"
    using assms(1,4) set_update_subset_insert [of ts k t] by (auto simp: replica_ok_def Let_def)
  then show ?thesis using assms(1,5,6) unfolding replica_ok_def prod.case Let_def eqs by simp
qed

lemma replica_ok_copied:
  assumes "replica_ok up store i a c n addrs j0 c' d0 (ts, m, w)" "k < length ts" "thread_op t = thread_op (ts ! k)"
    "thread_copied (addrs ! j0) j0 t = Some p" "loop_ok addrs t"
    "serves up c n addrs j0 c' (m', w')" "op_doc p (dbDocs (store w' (cAddr c') (cDB c')) (vector_key i a))"
  shows "replica_ok up store i a c n addrs j0 c' d0 (ts[k := t], m', w')"
proof -
  have eq: "map thread_op (ts[k := t]) = map thread_op ts" by (rule map_update_same) (simp add: assms(3))
  have "\<forall>u \<in> set (ts[k := t]). loop_ok addrs u"
    using assms(1,5) set_update_subset_insert [of ts k t] by (auto simp: replica_ok_def Let_def)
  moreover have "Some p \<in> set (map (thread_copied (addrs ! j0) j0) (ts[k := t]))"
    using assms(2,4) by (simp add: map_update set_update_memI)
  ultimately show ?thesis using assms(1,6,7) unfolding replica_ok_def prod.case Let_def eq by blast
qed

lemma serves_evolves:
  assumes "serves up c n addrs j0 c' (m, w)" "steady m m'" "failed n (addrs ! j0) m' \<longleftrightarrow> failed n (addrs ! j0) m" "up w' c'"
  shows "serves up c n addrs j0 c' (m', w')"
proof -
  let ?g = "group_of (rmReplicas m) n" and ?g' = "group_of (rmReplicas m') n"
  have ok: "rep_ok m'" and ev: "evolves m m'" using assms(1,2) by (simp_all add: serves_def steady_def)
  have len: "j0 < length ?g" and addr: "map rnAddress ?g = addrs" using assms(1) by (auto simp: serves_def)
  have ad: "map rnAddress ?g' = addrs" "rmAdapters m' = rmAdapters m"
    using evolves_addresses [OF ev, of n] addr ev by (simp_all add: evolves_def)
  have l: "list_all2 ages ?g ?g'" using ev by (simp add: evolves_def)
  then have a: "ages (?g ! j0) (?g' ! j0)" and len': "j0 < length ?g'"
    using len list_all2_nthD list_all2_lengthD by fastforce+
  have "rnAddress (?g' ! j0) = addrs ! j0" using ad(1) len' by (metis nth_map)
  then have "rnStatus (?g' ! j0) \<noteq> ''failed''"
    using assms(1,3) nth_mem [OF len'] unfolding failed_def serves_def prod.case by blast
  then have "rnStatus (?g' ! j0) = ''active''" "rnRole (?g' ! j0) \<noteq> ''primary''"
    using a assms(1) by (auto simp: ages_def serves_def)
  moreover have "foreign c m'" using foreign_adapters [OF ad(2)] assms(1) by (simp add: serves_def)
  ultimately show ?thesis using assms(1,3,4) ok ad unfolding serves_def prod.case by simp
qed

context redis_up
begin

lemma serves_write:
  assumes "serves up c n addrs j0 c' (m, w)" "op_write exec c i p w = (e, w')"
  shows "serves up c n addrs j0 c' (m, w')" "dbase w' c' = dbase w c'"
proof -
  show "serves up c n addrs j0 c' (m, w')"
    using assms op_write_keeps_up [OF assms(2)] by (simp add: serves_def)
  have "(cAddr c, cDB c) \<noteq> (cAddr c', cDB c')" using assms(1) unfolding serves_def foreign_def prod.case by metis
  then show "dbase w' c' = dbase w c'" by (rule op_write_frame [OF assms(2)])
qed

lemma serves_copy:
  assumes "serves up c n addrs j0 c' (m, w)" "op_copy exec now i p n r (m, w) = (m', w')" "op_finite p"
  shows "serves up c n addrs j0 c' (m', w')"
    "rnAddress r = addrs ! j0 \<Longrightarrow> op_doc p (dbDocs (dbase w' c') (vector_key i (op_id p)))"
    "rnAddress r \<noteq> addrs ! j0 \<Longrightarrow> dbase w' c' = dbase w c'"
proof -
  have s: "rep_ok m" "gm_get (rmAdapters m) (addrs ! j0) = Some c'" "up w c'" using assms(1) by (simp_all add: serves_def)
  have ad: "\<forall>b k. gm_get (rmAdapters m) b = Some k \<longrightarrow> cAddr k = b" using rep_okD(6) [OF s(1)] by blast
  have "fold (op_copy exec now i p n) [r] (m, w) = (m', w')" using assms(2) by simp
  note h = copies_healthy [OF this ad s(2,3) assms(3)]
  have "steady m m'" using steady_op_copy [of "(m, w)" exec now i p n r] assms(2) by simp
  then show "serves up c n addrs j0 c' (m', w')" by (rule serves_evolves [OF assms(1)]) (use h in simp_all)
  show "rnAddress r = addrs ! j0 \<Longrightarrow> op_doc p (dbDocs (dbase w' c') (vector_key i (op_id p)))" using h by simp
  show "dbase w' c' = dbase w c'" if "rnAddress r \<noteq> addrs ! j0"
  proof (cases "gm_get (rmAdapters m) (rnAddress r)")
    case (Some k)
    then have "cAddr k = rnAddress r" "cAddr c' = addrs ! j0" using ad s(2) by blast+
    moreover obtain err where "op_write exec k i p w = (err, w')" using op_copy_cases [OF assms(2)] Some by auto
    ultimately show ?thesis using that op_write_frame by (metis prod.inject)
  qed (use op_copy_cases [OF assms(2)] in simp)
qed

lemma write_step_replica_write:
  assumes inv: "replica_ok up store i a c n addrs j0 c' d0 (ts, m, w)" and k: "k < length ts"
    and w: "op_write exec c i p w = (e, w')"
    and t: "thread_op t = thread_op (ts ! k)" "thread_copied (addrs ! j0) j0 t = None"
      "thread_copied (addrs ! j0) j0 (ts ! k) = None" "loop_ok addrs t"
  shows "replica_ok up store i a c n addrs j0 c' d0 (ts[k := t], m, w')"
proof -
  note s = replica_ok_thread(4) [OF inv k]
  show ?thesis by (rule replica_ok_same [OF inv]) (use t serves_write [OF s w] in simp_all)
qed

lemma write_step_replica:
  "write_step exec i n c s s' \<Longrightarrow> replica_ok up store i a c n addrs j0 c' d0 s \<Longrightarrow> replica_ok up store i a c n addrs j0 c' d0 s'"
proof (induction rule: write_step.induct)
  case (clear k ts v w e w' m)
  then show ?case by (intro write_step_replica_write [where p = "Del (vID v)" and e = e]) simp_all
next
  case (restore k ts v w w' m)
  then show ?case by (intro write_step_replica_write [where p = "Put v" and e = None]) simp_all
next
  case (lose k ts v w e w' m)
  then show ?case by (intro write_step_replica_write [where p = "Put v" and e = "Some e"]) simp_all
next
  case (perform k ts p w w' m)
  then show ?case by (intro write_step_replica_write [where p = p and e = None]) simp_all
next
  case (refuse k ts p w e w' m)
  then show ?case by (intro write_step_replica_write [where p = p and e = "Some e"]) simp_all
next
  case (launch k ts p j rs m r w)
  note th = replica_ok_thread [OF launch.prems launch.hyps(1)]
  have s: "map rnAddress (group_of (rmReplicas m) n) = addrs" "j0 < length addrs" "rep_ok m"
    using th(4) by (auto simp: serves_def)
  have dist: "distinct addrs" using rep_okD(4) [OF s(3), of n] s(1) by simp
  have j: "j < length addrs" "rnAddress r = addrs ! j" using launch.hyps(3,4) s(1) by auto
  have l: "distinct (map rnAddress rs)" "rnAddress ` set rs \<subseteq> set (take j addrs)"
    using th(3) launch.hyps(2) by simp_all
  have fresh: "addrs ! j \<notin> set (take j addrs)"
    using dist j(1) by (auto simp: in_set_conv_nth nth_eq_iff_index_eq)
  have ok: "loop_ok addrs (Copying p (Suc j) (if eligible r then rs @ [r] else rs))"
    using l fresh j by (auto simp: take_Suc_conv_app_nth)
  have copied: "thread_copied (addrs ! j0) j0 (Copying p (Suc j) (if eligible r then rs @ [r] else rs))
      = thread_copied (addrs ! j0) j0 (Copying p j rs)"
  proof (cases "j = j0")
    case True
    then have "eligible r" using th(4) launch.hyps(4) by (simp add: serves_def eligible_def)
    then show ?thesis using True j(2) by simp
  next
    case False
    then have "rnAddress r \<noteq> addrs ! j0" using j dist s(2) by (simp add: nth_eq_iff_index_eq)
    then show ?thesis using False by auto
  qed
  show ?case
    by (rule replica_ok_same [OF launch.prems _ _ ok th(4)]) (simp_all only: copied launch.hyps(2) thread_op.simps)
next
  case (copy k ts p j rs r now m w m' w')
  note th = replica_ok_thread [OF copy.prems copy.hyps(1)]
  have p: "op_id p = a" "op_finite p" using th(1,2) copy.hyps(2) by simp_all
  have s: "map rnAddress (group_of (rmReplicas m) n) = addrs" "j0 < length addrs" "rep_ok m"
    using th(4) by (auto simp: serves_def)
  have dist: "distinct addrs" using rep_okD(4) [OF s(3), of n] s(1) by simp
  have l: "distinct (map rnAddress rs)" "rnAddress ` set rs \<subseteq> set (take j addrs)"
    using th(3) copy.hyps(2) by simp_all
  have rest: "set (remove1 r rs) = set rs - {r}" "distinct (map rnAddress (remove1 r rs))"
    using l(1) by (simp_all add: distinct_map set_remove1_eq inj_on_subset [of rnAddress "set rs"])
  have ok: "loop_ok addrs (Copying p j (remove1 r rs))" using l rest by auto
  note sv = serves_copy [OF th(4) copy.hyps(4) p(2)]
  show ?case
  proof (cases "rnAddress r = addrs ! j0")
    case True
    then have "addrs ! j0 \<in> set (take j addrs)" using l(2) copy.hyps(3) by force
    then have "j0 < j" using dist s(2) by (auto simp: in_set_conv_nth nth_eq_iff_index_eq)
    moreover have "addrs ! j0 \<notin> rnAddress ` set (remove1 r rs)"
    proof
      assume "addrs ! j0 \<in> rnAddress ` set (remove1 r rs)"
      then obtain r2 where "r2 \<in> set (remove1 r rs)" "rnAddress r2 = rnAddress r" unfolding True by fastforce
      then have r2: "r2 \<in> set rs" "r2 \<noteq> r" "rnAddress r2 = rnAddress r" using rest(1) by blast+
      have "inj_on rnAddress (set rs)" using l(1) by (simp add: distinct_map)
      then show False using inj_onD [OF _ r2(3,1) copy.hyps(3)] r2(2) by blast
    qed
    ultimately have c: "thread_copied (addrs ! j0) j0 (Copying p j (remove1 r rs)) = Some p" by simp
    show ?thesis
      by (rule replica_ok_copied [OF copy.prems copy.hyps(1) _ c ok sv(1)]) (use copy.hyps(2) sv(2) True p(1) in simp_all)
  next
    case False
    have "addrs ! j0 \<in> rnAddress ` set (remove1 r rs) \<longleftrightarrow> addrs ! j0 \<in> rnAddress ` set rs"
    proof
      assume "addrs ! j0 \<in> rnAddress ` set rs"
      then obtain x where x: "addrs ! j0 = rnAddress x" "x \<in> set rs" by (rule imageE)
      then have "x \<in> set (remove1 r rs)" using False rest(1) by auto
      then show "addrs ! j0 \<in> rnAddress ` set (remove1 r rs)" unfolding x(1) by (rule imageI)
    qed (use rest(1) in \<open>auto intro: imageI\<close>)
    then have c: "thread_copied (addrs ! j0) j0 (Copying p j (remove1 r rs)) = thread_copied (addrs ! j0) j0 (Copying p j rs)"
      by simp
    show ?thesis
      by (rule replica_ok_same [OF copy.prems _ _ ok sv(1) sv(3) [OF False]]) (simp_all only: c copy.hyps(2) thread_op.simps)
  qed
next
  case (finish k ts p m w)
  note th = replica_ok_thread [OF finish.prems finish.hyps(1)]
  have "j0 < length (group_of (rmReplicas m) n)" using th(4) by (auto simp: serves_def)
  then show ?case by (intro replica_ok_same [OF finish.prems]) (use th(4) finish.hyps(2) in simp_all)
qed

lemma write_steps_replica:
  "(write_step exec i n c)\<^sup>*\<^sup>* s s' \<Longrightarrow> replica_ok up store i a c n addrs j0 c' d0 s \<Longrightarrow>
   replica_ok up store i a c n addrs j0 c' d0 s'"
  by (induction rule: rtranclp_induct) (simp_all add: write_step_replica)

end

section \<open>Two writes that part the replicas from the shard\<close>

context redis_up
begin

text \<open>The copies of one write reach every replica that serves.\<close>

lemma copies_reach:
  assumes "serves up c n addrs j0 c' (m, w)" "fold (op_copy exec now i p n) (replicas_for m n) (m, w) = (m', w')" "op_finite p"
  shows "serves up c n addrs j0 c' (m', w')" "op_doc p (dbDocs (dbase w' c') (vector_key i (op_id p)))"
    "dbase w' c = dbase w c"
proof -
  have s: "rep_ok m" "gm_get (rmAdapters m) (addrs ! j0) = Some c'" "up w c'" "foreign c m"
    "map rnAddress (group_of (rmReplicas m) n) = addrs" "j0 < length addrs"
    using assms(1) by (simp_all add: serves_def)
  have ad: "\<forall>b k. gm_get (rmAdapters m) b = Some k \<longrightarrow> cAddr k = b" using rep_okD(6) [OF s(1)] by blast
  note h = copies_healthy [OF assms(2) ad s(2,3) assms(3)]
  have len: "j0 < length (group_of (rmReplicas m) n)" using s(5,6) by auto
  have "eligible (group_of (rmReplicas m) n ! j0)" using assms(1) by (simp add: serves_def eligible_def)
  then have "group_of (rmReplicas m) n ! j0 \<in> set (replicas_for m n)" using len by (simp add: replicas_for_def)
  moreover have "rnAddress (group_of (rmReplicas m) n ! j0) = addrs ! j0" using s(5) len by (metis nth_map)
  ultimately have "addrs ! j0 \<in> rnAddress ` set (replicas_for m n)" by (metis imageI)
  then show "op_doc p (dbDocs (dbase w' c') (vector_key i (op_id p)))" using h by blast
  have "steady m m'" using steady_copies [of m exec now i p n "replicas_for m n" w] assms(2) by simp
  then show "serves up c n addrs j0 c' (m', w')" by (rule serves_evolves [OF assms(1)]) (use h in simp_all)
  show "dbase w' c = dbase w c" using copies_foreign [OF assms(2) s(4)] by simp
qed

lemma diverging_run:
  assumes m: "rep_ok m" and c: "up w c" "foreign c m" and p: "op_finite p" "op_finite q" "op_id p = a" "op_id q = a"
  shows "\<exists>m' w'. (write_step exec i n c)\<^sup>*\<^sup>* ([Writing p, Writing q], m, w) ([Finished p, Finished q], m', w')
    \<and> op_doc q (dbDocs (dbase w' c) (vector_key i a))
    \<and> (\<forall>addrs j0 c'. serves up c n addrs j0 c' (m, w) \<longrightarrow> op_doc p (dbDocs (dbase w' c') (vector_key i a)))"
proof -
  let ?S = "write_step exec i n c" and ?now = "\<lambda>_ _. 0"
  obtain w1 where s1: "op_write exec c i p w = (None, w1)" using op_write_up [OF c(1) p(1)] by blast
  obtain w2 where s2: "op_write exec c i q w1 = (None, w2)"
    using op_write_up [OF op_write_keeps_up [OF s1 c(1)] p(2)] by blast
  obtain m3 w3 where r3: "fold (op_copy exec ?now i q n) (replicas_for m n) (m, w2) = (m3, w3)" by fastforce
  obtain m4 w4 where r4: "fold (op_copy exec ?now i p n) (replicas_for m3 n) (m3, w3) = (m4, w4)" by fastforce
  have st: "steady m m3" "steady m3 m4"
    using steady_copies [of m exec ?now i q n "replicas_for m n" w2] r3
      steady_copies [of m3 exec ?now i p n "replicas_for m3 n" w3] r4 by simp_all
  then have m3: "rep_ok m3" using m by (simp add: steady_def)
  have f3: "dbase w3 c = dbase w2 c" "foreign c m3" using copies_foreign [OF r3 c(2)] c(2) foreign_adapters by blast+
  have "dbase w4 c = dbase w2 c" using copies_foreign [OF r4 f3(2)] f3(1) by simp
  then have primary: "op_doc q (dbDocs (dbase w4 c) (vector_key i a))" using op_write_doc [OF s2] p(4) by simp
  have "?S ([Writing p, Writing q], m, w) ([Writing p, Writing q][0 := Copying p 0 []], m, w1)"
    by (rule write_step.perform) (use s1 in simp_all)
  moreover have "?S ([Copying p 0 [], Writing q], m, w1) ([Copying p 0 [], Writing q][1 := Copying q 0 []], m, w2)"
    by (rule write_step.perform) (use s2 in simp_all)
  moreover have "?S\<^sup>*\<^sup>* ([Copying p 0 [], Copying q 0 []], m, w2) ([Copying p 0 [], Copying q 0 []][1 := Finished q], m3, w3)"
    by (rule replicate_run [OF _ _ is_order_id(2) steady_group_length [OF st(1) m] r3]) simp_all
  moreover have "?S\<^sup>*\<^sup>* ([Copying p 0 [], Finished q], m3, w3) ([Copying p 0 [], Finished q][0 := Finished p], m4, w4)"
    by (rule replicate_run [OF _ _ is_order_id(2) steady_group_length [OF st(2) m3] r4]) simp_all
  ultimately have run: "?S\<^sup>*\<^sup>* ([Writing p, Writing q], m, w) ([Finished p, Finished q], m4, w4)"
    by (simp add: converse_rtranclp_into_rtranclp)
  have "op_doc p (dbDocs (dbase w4 c') (vector_key i a))" if s: "serves up c n addrs j0 c' (m, w)" for addrs j0 c'
    using copies_reach(2) [OF copies_reach(1) [OF serves_write(1) [OF serves_write(1) [OF s s1] s2] r3 p(2)] r4 p(1)] p(3)
    by simp
  then show ?thesis using run primary by blast
qed

end

section \<open>A handler that runs alone\<close>

lemma ReplicateInsert_copies:
  assumes "ReplicateInsert exec now order i v n (m, w) = (e, m', w')"
  shows "fold (op_copy exec now i (Put v) n) (order (replicas_for m n)) (m, w) = (m', w')"
proof -
  have one: "snd (insert_replica exec now i v n r (k, mw)) = op_copy exec now i (Put v) n r mw" for r k mw
    by (cases mw) (simp add: insert_replica_def Let_def split: option.split prod.split)
  have "snd (fold (insert_replica exec now i v n) rs (k, mw)) = fold (op_copy exec now i (Put v) n) rs mw" for rs k mw
  proof (induction rs arbitrary: k mw)
    case (Cons r rs)
    obtain k1 mw1 where e: "insert_replica exec now i v n r (k, mw) = (k1, mw1)" by (rule prod.exhaust)
    then show ?case using Cons.IH [of k1 mw1] one [of r k mw] by (simp del: op_copy.simps)
  qed simp
  from this [of "order (replicas_for m n)" 0 "(m, w)"] show ?thesis
    using assms by (auto simp: ReplicateInsert_def replicas_for_def split: prod.splits simp del: op_copy.simps)
qed

text \<open>The handlers of the service, from the first write to the answer, are runs of one thread.\<close>

lemma single_run:
  assumes "op_write exec c i p w = (None, w1)" "is_order order" "steady m m'" "rep_ok m"
    "fold (op_copy exec now i p n) (order (replicas_for m n)) (m, w1) = (m', w')"
  shows "(write_step exec i n c)\<^sup>*\<^sup>* ([Writing p], m, w) ([Finished p], m', w')"
proof -
  have "write_step exec i n c ([Writing p], m, w) ([Writing p][0 := Copying p 0 []], m, w1)"
    by (rule write_step.perform) (use assms(1) in simp_all)
  moreover have "(write_step exec i n c)\<^sup>*\<^sup>* ([Copying p 0 []], m, w1) ([Copying p 0 []][0 := Finished p], m', w')"
    by (rule replicate_run [OF _ _ assms(2) steady_group_length [OF assms(3,4)] assms(5)]) simp_all
  ultimately show ?thesis by (simp add: converse_rtranclp_into_rtranclp)
qed

lemma insert_core_thread:
  assumes "insert_core exec rt req (sv, w) = (resp, sv', w')" "ioSuccess resp" "inVector req = Some v"
    "locate (svShards sv) (pvId v) = Inr (n, c)" "rep_ok (svReplication sv)" "is_order (rtReplicas rt)"
  shows "(write_step exec (inIndexName req) n c)\<^sup>*\<^sup>*
    ([Writing (Put (stored_of (pvId v) v (rtNano rt 0)))], svReplication sv, w)
    ([Finished (Put (stored_of (pvId v) v (rtNano rt 0)))], svReplication sv', w')"
proof -
  let ?v = "stored_of (pvId v) v (rtNano rt 0)" and ?i = "inIndexName req"
  obtain e w1 where st: "StoreVector exec c ?i ?v w = (e, w1)" by fastforce
  obtain e2 rm w2 where rep: "ReplicateInsert exec (rtClock rt) (rtReplicas rt) ?i ?v n (svReplication sv, w1) = (e2, rm, w2)"
    by (rule prod_cases3)
  have e: "e = None" and s': "svReplication sv' = rm" "w' = w2"
    using assms(1-4) st rep by (auto simp: insert_core_def Let_def insert_failed_def split: if_splits option.splits)
  show ?thesis
    unfolding s' by (rule single_run [OF _ assms(6) steady_ReplicateInsert [OF rep] assms(5) ReplicateInsert_copies [OF rep]])
      (use st e in simp)
qed

lemma Delete_thread:
  assumes "Delete exec rt req (sv, w) = (resp, sv', w')" "doSuccess resp"
    "locate (svShards sv) (drVectorId req) = Inr (n, c)" "rep_ok (svReplication sv)" "is_order (rtReplicas rt)"
  shows "(write_step exec (drIndexName req) n c)\<^sup>*\<^sup>* ([Writing (Del (drVectorId req))], svReplication sv, w)
    ([Finished (Del (drVectorId req))], svReplication sv', w')"
proof -
  let ?a = "drVectorId req" and ?i = "drIndexName req"
  obtain e w1 where st: "DeleteVector exec c ?i ?a w = (e, w1)" by fastforce
  obtain rm w2 where rep: "ReplicateDelete exec (rtClock rt) (rtReplicas rt) ?i ?a n (svReplication sv, w1) = (rm, w2)"
    by fastforce
  have e: "e = None" and s': "svReplication sv' = rm" "w' = w2"
    using assms(1-3) st rep by (auto simp: Delete_def Let_def delete_failed_def add_metrics_def split: option.splits)
  have "steady (svReplication sv) rm"
    using steady_ReplicateDelete [of "(svReplication sv, w1)" exec "rtClock rt" "rtReplicas rt" ?i ?a n] rep by simp
  moreover have "op_copy exec (rtClock rt) ?i (Del ?a) n = delete_replica exec (rtClock rt) ?i ?a n" by (simp add: fun_eq_iff)
  ultimately show ?thesis
    unfolding s' by (intro single_run [OF _ assms(5) _ assms(4), where now = "rtClock rt"]) (use st e rep in \<open>simp_all add: ReplicateDelete_def replicas_for_def\<close>)
qed

lemma Update_thread:
  assumes "Update exec rt req (sv, w) = Returns (resp, sv', w')" "uoSuccess resp" "urVector req = Some v"
    "locate (svShards sv) (urVectorId req) = Inr (n, c)" "rep_ok (svReplication sv)" "is_order (rtReplicas rt)"
  shows "(write_step exec (urIndexName req) n c)\<^sup>*\<^sup>*
    ([Updating (stored_of (urVectorId req) v (rtNano rt 0))], svReplication sv, w)
    ([Finished (Put (stored_of (urVectorId req) v (rtNano rt 0)))], svReplication sv', w')"
proof -
  let ?v = "stored_of (urVectorId req) v (rtNano rt 0)" and ?i = "urIndexName req"
  have id: "vID ?v = urVectorId req" by (simp add: stored_of_def)
  obtain e0 w0 where del: "DeleteVector exec c ?i (urVectorId req) w = (e0, w0)" by fastforce
  obtain e w1 where st: "StoreVector exec c ?i ?v w0 = (e, w1)" by fastforce
  obtain e2 rm w2 where rep: "ReplicateInsert exec (rtClock rt) (rtReplicas rt) ?i ?v n (svReplication sv, w1) = (e2, rm, w2)"
    by (rule prod_cases3)
  have e: "e = None" and s': "svReplication sv' = rm" "w' = w2"
    using assms(1-4) del st rep
    by (auto simp: Update_def ReplicateUpdate_def Let_def update_failed_def split: if_splits option.splits)
  have "write_step exec ?i n c ([Updating ?v], svReplication sv, w) ([Updating ?v][0 := Cleared ?v], svReplication sv, w0)"
    by (rule write_step.clear) (use del id in simp_all)
  moreover have "write_step exec ?i n c ([Cleared ?v], svReplication sv, w0)
      ([Cleared ?v][0 := Copying (Put ?v) 0 []], svReplication sv, w1)"
    by (rule write_step.restore) (use st e in simp_all)
  moreover have "(write_step exec ?i n c)\<^sup>*\<^sup>* ([Copying (Put ?v) 0 []], svReplication sv, w1)
      ([Copying (Put ?v) 0 []][0 := Finished (Put ?v)], rm, w2)"
    by (rule replicate_run [OF _ _ assms(6) steady_group_length [OF steady_ReplicateInsert [OF rep] assms(5)]
          ReplicateInsert_copies [OF rep]]) simp_all
  ultimately show ?thesis unfolding s' by (simp add: converse_rtranclp_into_rtranclp)
qed
section \<open>Overlapping writes\<close>

text \<open>The replicas of a shard that take part: active secondaries whose server answers.\<close>

definition answering :: "('w \<Rightarrow> conn \<Rightarrow> bool) \<Rightarrow> int \<Rightarrow> replication_manager \<Rightarrow> 'w \<Rightarrow> conn \<Rightarrow> bool" where
  "answering up n m w c' \<longleftrightarrow> up w c' \<and> (\<exists>r \<in> set (group_of (rmReplicas m) n).
     rnStatus r = ''active'' \<and> rnRole r \<noteq> ''primary'' \<and> gm_get (rmAdapters m) (rnAddress r) = Some c')"

lemma answering_serves:
  assumes "answering up n m w c'" "rep_ok m" "foreign c m"
  shows "\<exists>addrs j0. serves up c n addrs j0 c' (m, w)"
proof -
  let ?g = "group_of (rmReplicas m) n"
  obtain j where j: "j < length ?g" "rnStatus (?g ! j) = ''active''" "rnRole (?g ! j) \<noteq> ''primary''"
    "gm_get (rmAdapters m) (rnAddress (?g ! j)) = Some c'"
    using assms(1) by (auto simp: answering_def in_set_conv_nth)
  have "distinct (map rnAddress ?g)" using rep_okD(4) [OF assms(2)] .
  then have "inj_on rnAddress (set ?g)" by (simp add: distinct_map)
  then have "r = ?g ! j" if "r \<in> set ?g" "rnAddress r = rnAddress (?g ! j)" for r
    using inj_onD [OF _ that(2,1) nth_mem [OF j(1)]] \<open>inj_on rnAddress (set ?g)\<close> by blast
  then have "\<not> failed n (rnAddress (?g ! j)) m" using j(2) unfolding failed_def by fastforce
  then have "serves up c n (map rnAddress ?g) j c' (m, w)"
    using assms j by (simp add: serves_def answering_def)
  then show ?thesis by blast
qed

fun starting :: "write_thread \<Rightarrow> bool" where
  "starting (Updating v) \<longleftrightarrow> True" | "starting (Writing p) \<longleftrightarrow> True" | "starting _ \<longleftrightarrow> False"

lemma starting_none: "starting t \<Longrightarrow> thread_left t = None \<and> thread_copied b j0 t = None \<and> loop_ok addrs t"
  by (cases t) simp_all

context redis_up
begin

lemma shard_after_writes:
  assumes "(write_step exec i n c)\<^sup>*\<^sup>* (ts0, m, w) (ts, m', w')" "up w c" "foreign c m"
    "\<forall>t \<in> set ts0. starting t \<and> op_id (thread_op t) = a \<and> op_finite (thread_op t)"
  shows "(\<forall>t \<in> set ts. thread_left t = None) \<and> dbDocs (dbase w' c) (vector_key i a) = dbDocs (dbase w c) (vector_key i a)
    \<or> (\<exists>t \<in> set ts. \<exists>p. thread_left t = Some p \<and> op_doc p (dbDocs (dbase w' c) (vector_key i a)))"
proof -
  have "primary_ok up store i a c (dbDocs (dbase w c) (vector_key i a)) (ts0, m, w)"
    using assms(2-4) starting_none by (auto simp: primary_ok_def Let_def)
  from write_steps_primary [OF assms(1) this]
  have "set (map thread_left ts) \<subseteq> {None} \<and> dbDocs (dbase w' c) (vector_key i a) = dbDocs (dbase w c) (vector_key i a)
    \<or> (\<exists>p. Some p \<in> set (map thread_left ts) \<and> op_doc p (dbDocs (dbase w' c) (vector_key i a)))"
    unfolding primary_ok_def prod.case Let_def by blast
  then show ?thesis
  proof (elim disjE conjE exE)
    assume "set (map thread_left ts) \<subseteq> {None}"
      "dbDocs (dbase w' c) (vector_key i a) = dbDocs (dbase w c) (vector_key i a)"
    moreover from this(1) have "\<forall>t \<in> set ts. thread_left t = None" by auto
    ultimately show ?thesis by blast
  next
    fix p
    assume p: "Some p \<in> set (map thread_left ts)" "op_doc p (dbDocs (dbase w' c) (vector_key i a))"
    then obtain t where "t \<in> set ts" "thread_left t = Some p" by auto
    then show ?thesis using p(2) by blast
  qed
qed

lemma replica_after_writes:
  assumes run: "(write_step exec i n c)\<^sup>*\<^sup>* (ts0, m, w) (ts, m', w')" and m: "rep_ok m" "foreign c m"
    and ts0: "\<forall>t \<in> set ts0. starting t \<and> op_id (thread_op t) = a \<and> op_finite (thread_op t)"
    and c': "answering up n m w c'" and ts: "ts \<noteq> []" "\<forall>t \<in> set ts. \<exists>p. t = Finished p"
  shows "\<exists>p. Finished p \<in> set ts \<and> op_doc p (dbDocs (dbase w' c') (vector_key i a))"
proof -
  obtain addrs j0 where s: "serves up c n addrs j0 c' (m, w)" using answering_serves [OF c' m] by blast
  have "replica_ok up store i a c n addrs j0 c' (dbDocs (dbase w c') (vector_key i a)) (ts0, m, w)"
    using s ts0 starting_none by (auto simp: replica_ok_def Let_def)
  from write_steps_replica [OF run this]
  have inv: "set (map (thread_copied (addrs ! j0) j0) ts) \<subseteq> {None}
    \<or> (\<exists>p. Some p \<in> set (map (thread_copied (addrs ! j0) j0) ts) \<and> op_doc p (dbDocs (dbase w' c') (vector_key i a)))"
    unfolding replica_ok_def prod.case Let_def by blast
  have "\<not> set (map (thread_copied (addrs ! j0) j0) ts) \<subseteq> {None}"
  proof -
    obtain p where "Finished p \<in> set ts" using ts by (metis hd_in_set)
    then have "Some p \<in> set (map (thread_copied (addrs ! j0) j0) ts)" by force
    then show ?thesis by blast
  qed
  then obtain p t where "t \<in> set ts" "thread_copied (addrs ! j0) j0 t = Some p" "op_doc p (dbDocs (dbase w' c') (vector_key i a))"
    using inv by (auto simp: image_iff) (metis (no_types, lifting))
  moreover from this ts(2) have "t = Finished p" by auto
  ultimately show ?thesis by blast
qed

end

section \<open>An update that fails\<close>

lemma unserialisable_error: "x \<in> set (vValues v) \<Longrightarrow> \<not> f32_finite x \<Longrightarrow> \<exists>e. ToBytes v = Inl e"
  using json_floats_error [of x "vValues v"] by (auto simp: ToBytes_def)

text \<open>An update deletes first: when the new vector cannot be serialised, the old one is gone.\<close>


context redis_up
begin

lemma Update_unserialisable:
  assumes "gm_get (svIndexes (fst s)) (urIndexName req) = Some index" "urVector req = Some v"
    "int (length (pvValues v)) = xDimension index" "x \<in> set (pvValues v)" "\<not> f32_finite x"
    "locate (svShards (fst s)) (urVectorId req) = Inr (n, c)" "up (snd s) c"
  shows "\<exists>resp w'. Update exec rt req s = Returns (resp, fst s, w') \<and> \<not> uoSuccess resp
    \<and> dbDocs (dbase w' c) (vector_key (urIndexName req) (urVectorId req)) = None"
proof -
  let ?v = "stored_of (urVectorId req) v (rtNano rt 0)"
  have "x \<in> set (vValues ?v)" using assms(4) by (simp add: stored_of_def)
  then obtain e where e: "ToBytes ?v = Inl e" using unserialisable_error assms(5) by blast
  obtain w1 where d: "op_write exec c (urIndexName req) (Del (urVectorId req)) (snd s) = (None, w1)"
    using op_write_up [OF assms(7), of "Del (urVectorId req)"] by auto
  then have "Update exec rt req s = Returns (update_failed (''failed to serialize vector: '' @ e), fst s, w1)"
    using assms e by (simp add: Update_def Let_def StoreVector_def)
  then show ?thesis using op_write_doc [OF d] by (auto simp: update_failed_def)
qed

end

section \<open>Every run ends, with every handler answered\<close>

text \<open>Steps a thread has left, for a shard of \<open>l\<close> replicas: a turn of the loop and at most one goroutine each.\<close>

fun write_weight :: "nat \<Rightarrow> write_thread \<Rightarrow> nat" where
  "write_weight l (Updating v) = 2 * l + 3"
| "write_weight l (Cleared v) = 2 * l + 2"
| "write_weight l (Writing p) = 2 * l + 2"
| "write_weight l (Copying p j rs) = 2 * (l - j) + length rs + 1"
| "write_weight l _ = 0"

fun write_done :: "write_thread \<Rightarrow> bool" where
  "write_done (Finished p) \<longleftrightarrow> True" | "write_done (Refused p) \<longleftrightarrow> True" | "write_done _ \<longleftrightarrow> False"

fun loop_within :: "nat \<Rightarrow> write_thread \<Rightarrow> bool" where
  "loop_within l (Copying p j rs) \<longleftrightarrow> j \<le> l" | "loop_within l _ \<longleftrightarrow> True"

definition within :: "int \<Rightarrow> nat \<Rightarrow> write_thread list \<times> replication_manager \<times> 'w \<Rightarrow> bool" where
  "within n l s \<longleftrightarrow> rep_ok (fst (snd s)) \<and> length (group_of (rmReplicas (fst (snd s))) n) = l \<and> (\<forall>t \<in> set (fst s). loop_within l t)"

definition total_weight :: "nat \<Rightarrow> write_thread list \<times> 'b \<Rightarrow> nat" where
  "total_weight l s = sum_list (map (write_weight l) (fst s))"

lemma move_thread:
  assumes "within n l (ts, m, w)" "k < length ts" "write_weight l t < write_weight l (ts ! k)" "loop_within l t"
    "rep_ok m'" "length (group_of (rmReplicas m') n) = l"
  shows "within n l (ts[k := t], m', w') \<and> total_weight l (ts[k := t], m', w') < total_weight l (ts, m, w)"
proof
  have "\<forall>u \<in> set (ts[k := t]). loop_within l u"
    using assms(1,4) set_update_subset_insert [of ts k t] by (auto simp: within_def)
  then show "within n l (ts[k := t], m', w')" using assms(5,6) by (simp add: within_def)
  have "write_weight l (ts ! k) \<le> sum_list (map (write_weight l) ts)"
    using assms(2) by (metis elem_le_sum_list length_map nth_map)
  then show "total_weight l (ts[k := t], m', w') < total_weight l (ts, m, w)"
    using assms(2,3) by (simp add: total_weight_def map_update sum_list_update)
qed

lemma move_same:
  assumes "within n l (ts, m, w)" "k < length ts" "write_weight l t < write_weight l (ts ! k)" "loop_within l t"
  shows "within n l (ts[k := t], m, w') \<and> total_weight l (ts[k := t], m, w') < total_weight l (ts, m, w)"
  by (rule move_thread [OF assms]) (use assms(1) in \<open>simp_all add: within_def\<close>)

lemma write_step_weight:
  "write_step exec i n c s s' \<Longrightarrow> within n l s \<Longrightarrow> within n l s' \<and> total_weight l s' < total_weight l s"
proof (induction rule: write_step.induct)
  case (copy k ts p j rs r now m w m' w')
  have st: "steady m m'" using steady_op_copy [of "(m, w)" exec now i p n r] copy.hyps(4) by simp
  have ok: "rep_ok m" "length (group_of (rmReplicas m) n) = l" using copy.prems by (simp_all add: within_def)
  have "rep_ok m'" "length (group_of (rmReplicas m') n) = l"
    using st ok steady_group_length [OF st ok(1)] by (simp_all add: steady_def)
  moreover have "j \<le> l" using copy.prems copy.hyps(1,2) nth_mem [OF copy.hyps(1)] by (fastforce simp: within_def)
  moreover have "length (remove1 r rs) < length rs" using copy.hyps(3) length_pos_if_in_set [OF copy.hyps(3)] by (simp add: length_remove1)
  ultimately show ?case by (intro move_thread [OF copy.prems copy.hyps(1)]) (simp_all add: copy.hyps(2))
next
  case (launch k ts p j rs m r w)
  have ok: "rep_ok m" "length (group_of (rmReplicas m) n) = l" using launch.prems by (simp_all add: within_def)
  then have "j < l" using launch.hyps(3) by simp
  then have "write_weight l (Copying p (Suc j) (if eligible r then rs @ [r] else rs)) < write_weight l (ts ! k)"
    by (simp add: launch.hyps(2)) arith
  then show ?case using \<open>j < l\<close> by (intro move_same [OF launch.prems launch.hyps(1)]) simp_all
qed (rule move_same, assumption, assumption, simp, simp)+

lemma write_step_progress:
  assumes "within n l (ts, m, w)" "t \<in> set ts" "\<not> write_done t"
  shows "\<exists>s. write_step exec i n c (ts, m, w) s"
proof -
  obtain k where k: "k < length ts" "ts ! k = t" using assms(2) by (metis in_set_conv_nth)
  have l: "length (group_of (rmReplicas m) n) = l" using assms(1) by (simp add: within_def)
  show ?thesis
  proof (cases t)
    case (Updating v)
    then show ?thesis using write_step.clear [OF k(1)] k(2) by (metis prod.exhaust)
  next
    case (Cleared v)
    obtain e w' where "StoreVector exec c i v w = (e, w')" by fastforce
    moreover have "ts ! k = Cleared v" using k(2) Cleared by simp
    ultimately show ?thesis using write_step.restore [OF k(1), of v exec c i w w'] write_step.lose [OF k(1), of v exec c i w] by (cases e) fast+
  next
    case (Writing p)
    obtain e w' where "op_write exec c i p w = (e, w')" by fastforce
    moreover have "ts ! k = Writing p" using k(2) Writing by simp
    ultimately show ?thesis using write_step.perform [OF k(1), of p exec c i w w'] write_step.refuse [OF k(1), of p exec c i w] by (cases e) fast+
  next
    case (Copying p j rs)
    have "j \<le> l" using assms(1,2) Copying by (auto simp: within_def)
    have here: "ts ! k = Copying p j rs" using k(2) Copying by simp
    from \<open>j \<le> l\<close> consider "j < length (group_of (rmReplicas m) n)"
      | "ts ! k = Copying p (length (group_of (rmReplicas m) n)) []" | r where "r \<in> set rs"
      using here l by (cases rs) fastforce+
    then show ?thesis
    proof cases
      case 1
      then show ?thesis by (intro exI) (rule write_step.launch [OF k(1) here _ refl])
    next
      case 2
      then show ?thesis by (intro exI) (rule write_step.finish [OF k(1)])
    next
      case 3
      obtain m' w' where "op_copy exec (\<lambda>_ _. 0) i p n r (m, w) = (m', w')" by fastforce
      then show ?thesis by (intro exI) (rule write_step.copy [OF k(1) here 3])
    qed
  qed (use assms(3) in simp_all)
qed

lemma write_step_moves: "write_step exec i n c (ts, mw) s \<Longrightarrow> \<exists>t \<in> set ts. \<not> write_done t"
  by (erule write_step.cases) (force dest: nth_mem)+

lemma write_runs:
  "(write_step exec i n c ^^ k) s s' \<Longrightarrow> within n l s \<Longrightarrow> within n l s' \<and> k + total_weight l s' \<le> total_weight l s"
proof (induction k arbitrary: s')
  case (Suc k)
  then obtain s1 where s1: "(write_step exec i n c ^^ k) s s1" "write_step exec i n c s1 s'" by auto
  from Suc.IH [OF s1(1) Suc.prems(2)] write_step_weight [OF s1(2)] show ?case by fastforce
qed simp

lemma starting_within:
  assumes "rep_ok m" "\<forall>t \<in> set ts. starting t" "l = length (group_of (rmReplicas m) n)"
  shows "within n l (ts, m, w) \<and> total_weight l (ts, m, w) \<le> length ts * (2 * l + 3)"
proof
  have "starting t \<Longrightarrow> loop_within l t \<and> write_weight l t \<le> 2 * l + 3" for t by (cases t) simp_all
  then have each: "\<forall>t \<in> set ts. loop_within l t \<and> write_weight l t \<le> 2 * l + 3" using assms(2) by blast
  then show "within n l (ts, m, w)" using assms(1,3) by (simp add: within_def)
  have "\<forall>t \<in> set ts. write_weight l t \<le> 2 * l + 3 \<Longrightarrow> sum_list (map (write_weight l) ts) \<le> length ts * (2 * l + 3)" for ts
    by (induction ts) auto
  then show "total_weight l (ts, m, w) \<le> length ts * (2 * l + 3)"
    using each by (simp add: total_weight_def)
qed

end
