(* ===== verification/Service_Deletion.thy ===== *)
theory Service_Deletion
  imports Service_Refinement Adapter_Laws
begin

text \<open>
  Batch deletions, from the pipeline through the replicas to the handler: they only remove
  documents (\<open>only_deletes\<close>), whatever fails; and where every shard answers, the handler
  deletes every id of its request on its own shard and counts them all (\<open>BatchDelete_effect\<close>).
\<close>

section \<open>What a deletion leaves\<close>

text \<open>Whatever a batch of deletions reports, it only removes documents, and no id from an index.\<close>

definition only_deletes :: "('w \<Rightarrow> string \<Rightarrow> int \<Rightarrow> db) \<Rightarrow> 'w \<Rightarrow> 'w \<Rightarrow> bool" where
  "only_deletes store w w' \<longleftrightarrow> (\<forall>x d. (\<forall>j. dbSets (store w' x d) (ids_key j) = dbSets (store w x d) (ids_key j))
     \<and> (\<forall>k. dbDocs (store w' x d) k = None \<or> dbDocs (store w' x d) k = dbDocs (store w x d) k))"

lemma only_deletes_refl [simp]: "only_deletes store w w"
  by (simp add: only_deletes_def)

lemma only_deletes_trans: "only_deletes store a b \<Longrightarrow> only_deletes store b c \<Longrightarrow> only_deletes store a c"
  unfolding only_deletes_def by metis

lemma only_deletes_none: "only_deletes store w w' \<Longrightarrow> dbDocs (store w x d) k = None \<Longrightarrow> dbDocs (store w' x d) k = None"
  unfolding only_deletes_def by metis

lemma del_run:
  "set run \<subseteq> set (map (\<lambda>a. DEL (vector_key i a)) ids) \<Longrightarrow>
   dbSets (fold cmd_effect run s) (ids_key j) = dbSets s (ids_key j)
   \<and> (dbDocs (fold cmd_effect run s) k = None \<or> dbDocs (fold cmd_effect run s) k = dbDocs s k)"
proof (induction run arbitrary: s)
  case (Cons c run)
  then obtain a where c: "c = DEL (vector_key i a)" by auto
  show ?case using Cons.IH [of "cmd_effect c s"] Cons.prems by (auto simp: c split: if_splits)
qed simp

context redis_service
begin

lemma BatchDelete_only_deletes:
  assumes "BatchDeleteVectors exec c i ids w = (r, w')"
  shows "only_deletes store w w'"
proof -
  obtain r' where e: "exec c (map (\<lambda>a. DEL (vector_key i a)) ids) w = (r', w')"
    using assms by (auto simp: BatchDeleteVectors_def split: prod.splits sum.splits)
  have "\<exists>run. set run \<subseteq> set (map (\<lambda>a. DEL (vector_key i a)) ids) \<and> dbase w' c = fold cmd_effect run (dbase w c)"
  proof (cases r')
    case (Inl err)
    then show ?thesis using exec_failed e by blast
  next
    case (Inr rs)
    then show ?thesis using exec_effect e by blast
  qed
  then obtain run where run: "set run \<subseteq> set (map (\<lambda>a. DEL (vector_key i a)) ids)" "dbase w' c = fold cmd_effect run (dbase w c)"
    by blast
  have "(\<forall>j. dbSets (store w' x d) (ids_key j) = dbSets (store w x d) (ids_key j))
      \<and> (\<forall>k. dbDocs (store w' x d) k = None \<or> dbDocs (store w' x d) k = dbDocs (store w x d) k)" for x d
  proof (cases "(x, d) = (cAddr c, cDB c)")
    case True
    then show ?thesis using del_run [OF run(1)] run(2) by simp
  next
    case False
    then show ?thesis using exec_frame [OF e] by simp
  qed
  then show ?thesis by (simp add: only_deletes_def)
qed

lemma ReplicateBatchDelete_only_deletes:
  "only_deletes store (snd mw) (snd (ReplicateBatchDelete exec now order i ids n mw))"
  unfolding ReplicateBatchDelete_def
proof (rule fold_invariant [where Q = "\<lambda>_. True" and P = "\<lambda>st. only_deletes store (snd mw) (snd st)"])
  fix r and st :: "replication_manager \<times> _"
  assume st: "only_deletes store (snd mw) (snd st)"
  show "only_deletes store (snd mw) (snd (batch_delete_replica exec now i ids n r st))"
  proof (cases "gm_get (rmAdapters (fst st)) (rnAddress r)")
    case (Some c)
    obtain e w' where e: "BatchDeleteVectors exec c i ids (snd st) = (e, w')" by fastforce
    have "only_deletes store (snd mw) w'" by (rule only_deletes_trans [OF st BatchDelete_only_deletes [OF e]])
    then show ?thesis using Some e by (cases e) (simp_all add: batch_delete_replica_def Let_def)
  qed (use st in \<open>simp add: batch_delete_replica_def Let_def\<close>)
qed simp_all

end

context redis_up
begin

lemma BatchDelete_keeps_up: "BatchDeleteVectors exec c i ids w = (r, w') \<Longrightarrow> up w c' \<Longrightarrow> up w' c'"
  by (auto simp: BatchDeleteVectors_def split: prod.splits sum.splits dest: up_keep)

lemma BatchDelete_up: "up w c \<Longrightarrow> \<exists>n w'. BatchDeleteVectors exec c i ids w = (Inr n, w')"
  using up_exec [of w c "map (\<lambda>a. DEL (vector_key i a)) ids"] by (auto simp: BatchDeleteVectors_def)

lemma ReplicateBatchDelete_keeps_up:
  assumes "up (snd mw) c'"
  shows "up (snd (ReplicateBatchDelete exec now order i ids n mw)) c'"
  unfolding ReplicateBatchDelete_def
proof (rule fold_invariant [where Q = "\<lambda>_. True" and P = "\<lambda>st. up (snd st) c'"])
  fix r and st :: "replication_manager \<times> _"
  assume st: "up (snd st) c'"
  show "up (snd (batch_delete_replica exec now i ids n r st)) c'"
  proof (cases "gm_get (rmAdapters (fst st)) (rnAddress r)")
    case (Some c)
    obtain e w' where e: "BatchDeleteVectors exec c i ids (snd st) = (e, w')" by fastforce
    have "up w' c'" by (rule BatchDelete_keeps_up [OF e st])
    then show ?thesis using Some e by (cases e) (simp_all add: batch_delete_replica_def Let_def)
  qed (use st in \<open>simp add: batch_delete_replica_def Let_def\<close>)
qed (simp_all add: assms)

lemma delete_groups_up:
  assumes "fold (delete_group exec rt i) gs (t, sv, w) = (t', sv', w')"
    "\<forall>g \<in> set gs. \<exists>c. GetShardAdapter (svShards sv) (fst g) = Inr c \<and> up w c"
  shows "t' = t + sum_list (map (\<lambda>g. length (snd g)) gs) \<and> only_deletes store w w'
    \<and> (\<forall>g \<in> set gs. \<forall>c. GetShardAdapter (svShards sv) (fst g) = Inr c \<longrightarrow>
         (\<forall>a \<in> set (snd g). dbDocs (dbase w' c) (vector_key i a) = None))"
  using assms
proof (induction gs arbitrary: t sv w)
  case (Cons g gs)
  obtain c where c: "GetShardAdapter (svShards sv) (fst g) = Inr c" "up w c" using Cons.prems(2) by auto
  obtain n w1 where d: "BatchDeleteVectors exec c i (snd g) w = (Inr n, w1)" using BatchDelete_up [OF c(2)] by blast
  note eff = batch_delete_effect [OF d]
  obtain rm w2 where r: "ReplicateBatchDelete exec (rtClock rt) (rtReplicas rt) i (snd g) (fst g) (svReplication sv, w1) = (rm, w2)"
    by fastforce
  have od: "only_deletes store w w1" "only_deletes store w1 w2"
    using BatchDelete_only_deletes [OF d] ReplicateBatchDelete_only_deletes [of "(svReplication sv, w1)"] r by (simp, metis snd_conv)
  have up2: "up w2 c'" if "up w c'" for c'
    using ReplicateBatchDelete_keeps_up [of "(svReplication sv, w1)" c'] BatchDelete_keeps_up [OF d that] r by (metis snd_conv)
  have "delete_group exec rt i g (t, sv, w) = (t + n, sv\<lparr>svReplication := rm\<rparr>, w2)"
    using c d r by (simp add: delete_group_def Let_def)
  then have rest: "fold (delete_group exec rt i) gs (t + n, sv\<lparr>svReplication := rm\<rparr>, w2) = (t', sv', w')"
    using Cons.prems(1) by simp
  have IH: "t' = t + n + sum_list (map (\<lambda>g. length (snd g)) gs) \<and> only_deletes store w2 w'
    \<and> (\<forall>g \<in> set gs. \<forall>c. GetShardAdapter (svShards sv) (fst g) = Inr c \<longrightarrow>
         (\<forall>a \<in> set (snd g). dbDocs (dbase w' c) (vector_key i a) = None))"
  proof -
    have "\<exists>c. GetShardAdapter (svShards (sv\<lparr>svReplication := rm\<rparr>)) (fst g') = Inr c \<and> up w2 c" if "g' \<in> set gs" for g'
      using Cons.prems(2) [rule_format, of g'] that up2 by auto
    then show ?thesis using Cons.IH [OF rest] by simp
  qed
  have "dbDocs (dbase w' c) (vector_key i a) = None" if "a \<in> set (snd g)" for a
    using only_deletes_none [OF IH [THEN conjunct2, THEN conjunct1] only_deletes_none [OF od(2)]] eff(2) that by simp
  then show ?case using IH eff(1) c(1) only_deletes_trans [OF only_deletes_trans [OF od]] by auto
qed simp

end

text \<open>The groups of a batch: every id that has a shard, once, under that shard.\<close>

lemma concat_append_group: "mset (concat (map snd (append_group k x gs))) = add_mset x (mset (concat (map snd gs)))"
proof -
  have "mset (concat (map snd (gm_put k (group_of gs k @ [x]) gs))) = add_mset x (mset (concat (map snd gs)))"
    by (induction gs) (auto simp: group_of_def)
  then show ?thesis by (simp add: append_group_def)
qed

lemma group_ids_concat:
  "mset (concat (map snd (group_ids sm ids))) = mset (filter (\<lambda>a. \<not> isl (GetShardForKey sm a)) ids)"
proof -
  have "mset (concat (map snd (fold (\<lambda>a groups. case GetShardForKey sm a of Inl _ \<Rightarrow> groups | Inr n \<Rightarrow> append_group n a groups) ids gs)))
      = mset (concat (map snd gs)) + mset (filter (\<lambda>a. \<not> isl (GetShardForKey sm a)) ids)" for gs
    by (induction ids arbitrary: gs) (auto simp: concat_append_group split: sum.split)
  from this [of "[]"] show ?thesis by (simp add: group_ids_def)
qed

lemma group_ids_keys: "g \<in> set (group_ids sm ids) \<Longrightarrow> a \<in> set (snd g) \<Longrightarrow> GetShardForKey sm a = Inr (fst g)"
proof -
  define P where "P gs \<longleftrightarrow> (\<forall>g \<in> set gs. \<forall>a \<in> set (snd g). GetShardForKey sm a = Inr (fst g))" for gs :: "(int, string list) gomap"
  have step: "P (append_group n a gs)" if gs: "P gs" and a: "GetShardForKey sm a = Inr n" for n a gs
  proof -
    have "\<forall>b \<in> set (group_of gs n). GetShardForKey sm b = Inr n"
      using gs map_of_SomeD [of gs n] unfolding P_def group_of_def by (cases "gm_get gs n") fastforce+
    then show ?thesis
      using gs a set_gm_put [of n "group_of gs n @ [a]" gs] unfolding P_def append_group_def by fastforce
  qed
  have "P gs \<Longrightarrow> P (fold (\<lambda>a groups. case GetShardForKey sm a of Inl _ \<Rightarrow> groups | Inr n \<Rightarrow> append_group n a groups) ids gs)" for gs
    by (induction ids arbitrary: gs) (auto split: sum.split intro: step)
  moreover have "P []" by (simp add: P_def)
  ultimately have "P (group_ids sm ids)" unfolding group_ids_def by blast
  then show "g \<in> set (group_ids sm ids) \<Longrightarrow> a \<in> set (snd g) \<Longrightarrow> GetShardForKey sm a = Inr (fst g)" by (simp add: P_def)
qed

lemma group_ids_nonempty: "g \<in> set (group_ids sm ids) \<Longrightarrow> snd g \<noteq> []"
proof -
  have step: "\<forall>g \<in> set (append_group n a gs). snd g \<noteq> []" if "\<forall>g \<in> set gs. snd g \<noteq> []" for n a and gs :: "(int, string list) gomap"
    using that set_gm_put [of n "group_of gs n @ [a]" gs] unfolding append_group_def by fastforce
  have "\<forall>g \<in> set gs. snd g \<noteq> [] \<Longrightarrow> \<forall>g \<in> set (fold (\<lambda>a groups. case GetShardForKey sm a of
      Inl _ \<Rightarrow> groups | Inr n \<Rightarrow> append_group n a groups) ids gs). snd g \<noteq> []" for gs :: "(int, string list) gomap"
    by (induction ids arbitrary: gs) (auto split: sum.split dest: step [rule_format, rotated])
  from this [of "[]"] show "g \<in> set (group_ids sm ids) \<Longrightarrow> snd g \<noteq> []" by (simp add: group_ids_def)
qed

context redis_up
begin

lemma BatchDelete_effect:
  assumes order: "is_order (rtIdGroups rt)"
    and reach: "\<forall>a \<in> set (bdVectorIds req). \<exists>n c. locate (svShards (fst s)) a = Inr (n, c) \<and> up (snd s) c"
    and len: "length (bdVectorIds req) < 2 ^ 31"
  shows "bxDeletedCount (fst (BatchDelete exec rt req s)) = int (length (bdVectorIds req))
    \<and> only_deletes store (snd s) (snd (snd (BatchDelete exec rt req s)))
    \<and> (\<forall>a \<in> set (bdVectorIds req). \<forall>n c. locate (svShards (fst s)) a = Inr (n, c) \<longrightarrow>
         dbDocs (dbase (snd (snd (BatchDelete exec rt req s))) c) (vector_key (bdIndexName req) a) = None)"
proof -
  let ?sm = "svShards (fst s)" and ?ids = "bdVectorIds req"
  let ?gs = "rtIdGroups rt (group_ids ?sm ?ids)"
  obtain t sv' w' where f: "fold (delete_group exec rt (bdIndexName req)) ?gs (0, s) = (t, sv', w')" by (rule prod_cases3)
  have gs: "set ?gs = set (group_ids ?sm ?ids)" by (rule is_order_set [OF order])
  have shard: "\<not> isl (GetShardForKey ?sm a)" if "a \<in> set ?ids" for a using reach [rule_format, OF that] by (auto simp: locate_Inr)
  then have all: "mset (concat (map snd (group_ids ?sm ?ids))) = mset ?ids" by (simp add: group_ids_concat)
  have "sum_list (map (\<lambda>g. length (snd g)) ?gs) = size (mset (concat (map snd ?gs)))" by (simp add: length_concat o_def)
  also have "mset (concat (map snd ?gs)) = mset ?ids"
    using all by (simp only: mset_concat_map is_order_mset [OF order])
  finally have n: "sum_list (map (\<lambda>g. length (snd g)) ?gs) = length ?ids" by simp
  have "\<exists>c. GetShardAdapter ?sm (fst g) = Inr c \<and> up (snd s) c" if "g \<in> set ?gs" for g
  proof -
    have g: "g \<in> set (group_ids ?sm ?ids)" using that gs by simp
    then obtain a where a: "a \<in> set (snd g)" using group_ids_nonempty by (metis list.set_sel(1))
    have "a \<in> set (concat (map snd (group_ids ?sm ?ids)))" using g a by auto
    then have "a \<in> set ?ids" using all by (metis set_mset_mset)
    then obtain k c where "locate ?sm a = Inr (k, c)" "up (snd s) c" using reach by blast
    then show ?thesis using group_ids_keys [OF g a] by (auto simp: locate_Inr)
  qed
  with delete_groups_up [of rt "bdIndexName req" ?gs 0 "fst s" "snd s" t sv' w'] f
  have h: "t = length ?ids" "only_deletes store (snd s) w'"
    "\<forall>g \<in> set ?gs. \<forall>c. GetShardAdapter ?sm (fst g) = Inr c \<longrightarrow> (\<forall>a \<in> set (snd g). dbDocs (dbase w' c) (vector_key (bdIndexName req) a) = None)"
    using n by simp_all
  have gone: "dbDocs (dbase w' c) (vector_key (bdIndexName req) a) = None"
    if a: "a \<in> set ?ids" and l: "locate ?sm a = Inr (k, c)" for a k c
  proof -
    have "a \<in> set (concat (map snd (group_ids ?sm ?ids)))" using a all by (metis set_mset_mset)
    then obtain g where g: "g \<in> set (group_ids ?sm ?ids)" "a \<in> set (snd g)" by auto
    have "fst g = k" using group_ids_keys [OF g] l by (simp add: locate_Inr)
    then show ?thesis using h(3) g l gs by (auto simp: locate_Inr)
  qed
  have "BatchDelete exec rt req s = (\<lparr>bxSuccess = t > 0, bxMessage = ''deleted '' @ fmt_d (int t) @ '' vectors'',
      bxDeletedCount = int32_of (int t)\<rparr>, add_metrics (IncrementCounter ''vectors_deleted'' (f64_of_int (int t))) sv', w')"
    by (simp add: BatchDelete_def f)
  then show ?thesis using h(1,2) gone len by (simp add: int32_of_id)
qed

end

end
