(* ===== verification/Client.thy ===== *)
theory Client
  imports Messages
begin

text \<open>
  \<open>pkg/client/client.go\<close>: the client library. A call over gRPC is a parameter, \<open>rpc\<close>, that
  takes the request and the state of the other side and gives the transport's error or the
  response; the time-out of a call is one of its errors. Go's \<open>int\<close> to \<open>int32\<close> conversions
  truncate.
\<close>

type_synonym ('req, 'resp, 's) rpc = "'req \<Rightarrow> 's \<Rightarrow> 'resp res \<times> 's"

section \<open>Data\<close>

record client_config =
  ccAddress :: string
  ccMaxRetries :: int
  ccTimeout :: int
  ccKeepAlive :: int
  ccMaxMessageSize :: int
  ccBackoffMaxDelay :: int

record client_vector =
  cvID :: string
  cvValues :: "float32 list"
  cvMetadata :: "(string, string) gomap"

record search_options =
  opTopK :: int
  opFilter :: "(string, string) gomap"
  opMinScore :: float32
  opIncludeMetadata :: bool

record client_result =
  crsID :: string
  crsScore :: float32
  crsDistance :: float32
  crsVector :: "client_vector option"

record batch_insert_result =
  brSuccess :: bool
  brInsertedCount :: int
  brFailedIDs :: "string list"

record create_index_options =
  cioName :: string
  cioDimension :: int
  cioMetric :: string
  cioShardCount :: int
  cioReplicaCount :: int
  cioOptions :: "(string, string) gomap"

record client_shard_stats =
  csShardID :: int
  csVectorCount :: int
  csStatus :: string
  csReplicaNodes :: "string list"
  csMemoryUsageBytes :: int

record client_index_stats =
  ciVectorCount :: int
  ciDimension :: int
  ciMetric :: string
  ciShardCount :: int
  ciReplicaCount :: int
  ciMemoryUsageBytes :: int
  ciShardStats :: "(int, client_shard_stats) gomap"

section \<open>Connecting\<close>

text \<open>Durations in nanoseconds; \<open>dial\<close> is \<open>grpc.NewClient\<close> with the options built from the configuration.\<close>

definition with_defaults :: "client_config \<Rightarrow> client_config" where
  "with_defaults c =
     c\<lparr>ccTimeout := (if ccTimeout c = 0 then 30 * 1000000000 else ccTimeout c),
       ccKeepAlive := (if ccKeepAlive c = 0 then 10 * 1000000000 else ccKeepAlive c),
       ccMaxMessageSize := (if ccMaxMessageSize c = 0 then 100 * 1024 * 1024 else ccMaxMessageSize c),
       ccBackoffMaxDelay := (if ccBackoffMaxDelay c = 0 then 10 * 1000000000 else ccBackoffMaxDelay c)\<rparr>"

definition NewClient :: "(client_config \<Rightarrow> 'c res) \<Rightarrow> client_config \<Rightarrow> ('c \<times> client_config) res" where
  "NewClient dial config =
     (let config = with_defaults config
      in case dial config of
           Inl e \<Rightarrow> Inl (''failed to connect: '' @ e)
         | Inr c \<Rightarrow> Inr (c, config))"

section \<open>Calls\<close>

text \<open>The two errors of most calls: the transport's, and the server's message.\<close>

definition call_failed :: "string \<Rightarrow> string \<Rightarrow> string" where
  "call_failed what e = what @ '' failed: '' @ e"

definition client_Insert :: "(insert_request, insert_response, 's) rpc \<Rightarrow> string \<Rightarrow> string \<Rightarrow> float32 list
    \<Rightarrow> (string, string) gomap \<Rightarrow> 's \<Rightarrow> string option \<times> 's" where
  "client_Insert rpc indexName vid values metadata s =
     (case rpc \<lparr>inIndexName = indexName,
                inVector = Some \<lparr>pvId = vid, pvValues = values, pvMetadata = metadata, pvTimestamp = 0\<rparr>\<rparr> s of
        (Inl e, s') \<Rightarrow> (Some (call_failed ''insert'' e), s')
      | (Inr resp, s') \<Rightarrow> (if \<not> ioSuccess resp then Some (call_failed ''insert'' (ioMessage resp)) else None, s'))"

definition client_BatchInsert :: "(batch_insert_request, batch_insert_response, 's) rpc \<Rightarrow> string \<Rightarrow> client_vector list
    \<Rightarrow> bool \<Rightarrow> 's \<Rightarrow> batch_insert_result res \<times> 's" where
  "client_BatchInsert rpc indexName vs parallel s =
     (case rpc \<lparr>biIndexName = indexName,
                biVectors = map (\<lambda>v. \<lparr>pvId = cvID v, pvValues = cvValues v, pvMetadata = cvMetadata v, pvTimestamp = 0\<rparr>) vs,
                biParallel = parallel\<rparr> s of
        (Inl e, s') \<Rightarrow> (Inl (call_failed ''batch insert'' e), s')
      | (Inr resp, s') \<Rightarrow>
          (Inr \<lparr>brSuccess = boSuccess resp, brInsertedCount = boInsertedCount resp, brFailedIDs = boFailedIds resp\<rparr>, s'))"

definition client_vector_of :: "pb_vector \<Rightarrow> client_vector" where
  "client_vector_of v = \<lparr>cvID = pvId v, cvValues = pvValues v, cvMetadata = pvMetadata v\<rparr>"

definition client_Search :: "(search_request, search_response, 's) rpc \<Rightarrow> string \<Rightarrow> float32 list \<Rightarrow> search_options
    \<Rightarrow> 's \<Rightarrow> client_result list res \<times> 's" where
  "client_Search rpc indexName queryVector options s =
     (case rpc \<lparr>srIndexName = indexName, srQueryVector = queryVector, srTopK = int32_of (opTopK options),
                srFilter = opFilter options, srMinScore = opMinScore options,
                srIncludeMetadata = opIncludeMetadata options\<rparr> s of
        (Inl e, s') \<Rightarrow> (Inl (call_failed ''search'' e), s')
      | (Inr resp, s') \<Rightarrow>
          (if \<not> soSuccess resp then Inl (call_failed ''search'' (soMessage resp))
           else Inr (map (\<lambda>r. \<lparr>crsID = prId r, crsScore = prScore r, crsDistance = prDistance r,
                             crsVector = map_option client_vector_of (prVector r)\<rparr>) (soResults resp)), s'))"

definition client_Get :: "(get_request, get_response, 's) rpc \<Rightarrow> string \<Rightarrow> string \<Rightarrow> 's \<Rightarrow> client_vector res \<times> 's" where
  "client_Get rpc indexName vectorID s =
     (case rpc \<lparr>grIndexName = indexName, grVectorId = vectorID\<rparr> s of
        (Inl e, s') \<Rightarrow> (Inl (call_failed ''get'' e), s')
      | (Inr resp, s') \<Rightarrow>
          (if \<not> goSuccess resp then Inl (call_failed ''get'' (goMessage resp))
           else case goVector resp of None \<Rightarrow> Inl ''vector not found'' | Some v \<Rightarrow> Inr (client_vector_of v), s'))"

definition client_Update :: "(update_request, update_response, 's) rpc \<Rightarrow> string \<Rightarrow> string \<Rightarrow> float32 list
    \<Rightarrow> (string, string) gomap \<Rightarrow> 's \<Rightarrow> string option \<times> 's" where
  "client_Update rpc indexName vectorID values metadata s =
     (case rpc \<lparr>urIndexName = indexName, urVectorId = vectorID,
                urVector = Some \<lparr>pvId = vectorID, pvValues = values, pvMetadata = metadata, pvTimestamp = 0\<rparr>\<rparr> s of
        (Inl e, s') \<Rightarrow> (Some (call_failed ''update'' e), s')
      | (Inr resp, s') \<Rightarrow> (if \<not> uoSuccess resp then Some (call_failed ''update'' (uoMessage resp)) else None, s'))"

definition client_Delete :: "(delete_request, delete_response, 's) rpc \<Rightarrow> string \<Rightarrow> string \<Rightarrow> 's \<Rightarrow> string option \<times> 's" where
  "client_Delete rpc indexName vectorID s =
     (case rpc \<lparr>drIndexName = indexName, drVectorId = vectorID\<rparr> s of
        (Inl e, s') \<Rightarrow> (Some (call_failed ''delete'' e), s')
      | (Inr resp, s') \<Rightarrow> (if \<not> doSuccess resp then Some (call_failed ''delete'' (doMessage resp)) else None, s'))"

definition client_BatchDelete :: "(batch_delete_request, batch_delete_response, 's) rpc \<Rightarrow> string \<Rightarrow> string list
    \<Rightarrow> 's \<Rightarrow> int res \<times> 's" where
  "client_BatchDelete rpc indexName vectorIDs s =
     (case rpc \<lparr>bdIndexName = indexName, bdVectorIds = vectorIDs\<rparr> s of
        (Inl e, s') \<Rightarrow> (Inl (call_failed ''batch delete'' e), s')
      | (Inr resp, s') \<Rightarrow>
          (if \<not> bxSuccess resp then Inl (call_failed ''batch delete'' (bxMessage resp)) else Inr (bxDeletedCount resp), s'))"

definition client_CreateIndex :: "(create_index_request, create_index_response, 's) rpc \<Rightarrow> create_index_options
    \<Rightarrow> 's \<Rightarrow> string option \<times> 's" where
  "client_CreateIndex rpc options s =
     (case rpc \<lparr>crIndexName = cioName options, crDimension = int32_of (cioDimension options), crMetric = cioMetric options,
                crShardCount = int32_of (cioShardCount options), crReplicaCount = int32_of (cioReplicaCount options),
                crOptions = cioOptions options\<rparr> s of
        (Inl e, s') \<Rightarrow> (Some (call_failed ''create index'' e), s')
      | (Inr resp, s') \<Rightarrow> (if \<not> coSuccess resp then Some (call_failed ''create index'' (coMessage resp)) else None, s'))"

definition client_DropIndex :: "(drop_index_request, drop_index_response, 's) rpc \<Rightarrow> string \<Rightarrow> 's \<Rightarrow> string option \<times> 's" where
  "client_DropIndex rpc indexName s =
     (case rpc \<lparr>diIndexName = indexName\<rparr> s of
        (Inl e, s') \<Rightarrow> (Some (call_failed ''drop index'' e), s')
      | (Inr resp, s') \<Rightarrow> (if \<not> dxSuccess resp then Some (call_failed ''drop index'' (dxMessage resp)) else None, s'))"

definition client_GetStats :: "(get_stats_request, get_stats_response, 's) rpc \<Rightarrow> string \<Rightarrow> 's
    \<Rightarrow> client_index_stats res \<times> 's" where
  "client_GetStats rpc indexName s =
     (case rpc \<lparr>gsIndexName = indexName\<rparr> s of
        (Inl e, s') \<Rightarrow> (Inl (call_failed ''get stats'' e), s')
      | (Inr resp, s') \<Rightarrow>
          (if \<not> gxSuccess resp then Inl (call_failed ''get stats'' (gxMessage resp))
           else case gxStats resp of
             None \<Rightarrow> Inl ''no stats available''
           | Some st \<Rightarrow> Inr
               \<lparr>ciVectorCount = isVectorCount st, ciDimension = isDimension st, ciMetric = isMetric st,
                ciShardCount = isShardCount st, ciReplicaCount = isReplicaCount st,
                ciMemoryUsageBytes = isMemoryUsageBytes st,
                ciShardStats = map (\<lambda>(i, x). (i, \<lparr>csShardID = ssShardId x, csVectorCount = ssVectorCount x,
                  csStatus = ssStatus x, csReplicaNodes = ssReplicaNodes x,
                  csMemoryUsageBytes = ssMemoryUsageBytes x\<rparr>)) (isShardStats st)\<rparr>, s'))"

text \<open>A call answered by a handler in the same process, without a transport error.\<close>

definition direct :: "('req \<Rightarrow> 's \<Rightarrow> 'resp \<times> 's) \<Rightarrow> ('req, 'resp, 's) rpc" where
  "direct handler req s = (case handler req s of (resp, s') \<Rightarrow> (Inr resp, s'))"

end
