(* ===== verification/Service_Properties.thy ===== *)
theory Service_Properties
  imports Service_Refinement Service_Availability Concurrent_Writes Service_Deletion Cluster_Properties Client
begin

text \<open>
  What a caller of the service, or of the client library, is promised. The handlers refine a map
  from index and id to a vector; what is acknowledged stays readable; a search over the shards is
  a search of all vectors; the rest says what is refused, what a batch and an index operation
  report, and where the code lets its caller down (the streams, an update without a vector, a
  search over shards that are down, 32-bit truncation in the client). The \<open>demo_\<close> definitions are
  the concrete service of two shards and one index on which the properties are applied.
\<close>

section \<open>A service of two shards, for the witnesses\<close>

definition demo_pb :: pb_vector where
  "demo_pb = \<lparr>pvId = ''c'', pvValues = [f32_one, f32_zero], pvMetadata = [(''k'', ''x'')], pvTimestamp = 0\<rparr>"

definition demo_service :: service where
  "demo_service = \<lparr>svShards = demo_sm, svReplication = demo_rm, svIndexes = [(''i'', demo_index)], svMetrics = []\<rparr>"

definition demo_rt :: rt where
  "demo_rt = \<lparr>rtNano = (\<lambda>_. 7), rtElapsed = 3, rtSearchTime = 5, rtClock = (\<lambda>_ _. 9), rtReplicas = rev, rtGroups = rev,
     rtIdGroups = rev, rtShards = rev, rtResults = rev\<rparr>"

definition demo_insert :: "insert_response \<times> service \<times> mem_world" where
  "demo_insert = Insert mem_exec demo_rt \<lparr>inIndexName = ''i'', inVector = Some demo_pb\<rparr> (demo_service, mem_empty [''p1''])"

definition demo_conn1 :: conn where "demo_conn1 = demo_conn\<lparr>cDB := 1\<rparr>"

text \<open>The servers after the vector has been stored and copied; the primary's copy server is down.\<close>

definition demo_replicated :: "string option \<times> replication_manager \<times> mem_world" where
  "demo_replicated = ReplicateInsert mem_exec (\<lambda>_ _. 9) rev ''i'' demo_vector 1
     (demo_rm, snd (StoreVector mem_exec demo_conn1 ''i'' demo_vector (mem_empty [''p1''])))"

definition demo_search :: search_request where
  "demo_search = \<lparr>srIndexName = ''i'', srQueryVector = [f32_one, f32_zero], srTopK = 0, srFilter = [],
     srMinScore = f32_zero, srIncludeMetadata = True\<rparr>"

text \<open>The second shard holds the one vector.\<close>

definition demo_world1 :: mem_world where
  "demo_world1 = snd (StoreVector mem_exec demo_conn1 ''i'' demo_vector (mem_empty []))"

lemma demo_service_ok: "service_ok demo_service"
  by (auto simp: service_ok_def demo_service_def demo_sm_ok demo_rm_ok indexes_ok_def metrics_ok_def gm_ok_def
      index_ok_def demo_index_def NewVectorIndex_def split: if_splits)

lemma demo_rt_ok: "rt_ok demo_rt"
  by (simp add: rt_ok_def demo_rt_def)

lemma demo_locate: "locate demo_sm ''c'' = Inr (1, demo_conn\<lparr>cDB := 1\<rparr>)"
  by (simp add: locate_Inr demo_routing demo_adapters)

lemma demo_parts [simp]: "svShards demo_service = demo_sm" "svReplication demo_service = demo_rm"
  "svIndexes demo_service = [(''i'', demo_index)]" "pvId demo_pb = ''c''" "xDimension demo_index = 2"
  "pvValues demo_pb = [f32_one, f32_zero]"
  by (simp_all add: demo_service_def demo_pb_def demo_index_def NewVectorIndex_def)

lemma demo_vector_pb: "stored_of ''c'' demo_pb 7 = demo_vector"
  by (simp add: stored_of_def demo_pb_def demo_vector_def)

lemma demo_nano: "rtNano demo_rt 0 = 7"
  by (simp add: demo_rt_def)

lemma demo_insert_core:
  "insert_core mem_exec demo_rt \<lparr>inIndexName = ''i'', inVector = Some demo_pb\<rparr> (demo_service, mem_empty [''p1''])
   = (\<lparr>ioSuccess = True, ioMessage = ''vector inserted successfully'', ioVectorId = ''c''\<rparr>,
      demo_service\<lparr>svReplication := fst (snd demo_replicated)\<rparr>, snd (snd demo_replicated))"
proof -
  have "fst (StoreVector mem_exec demo_conn1 ''i'' demo_vector (mem_empty [''p1''])) = None" by code_simp
  then obtain w1 where st: "StoreVector mem_exec demo_conn1 ''i'' demo_vector (mem_empty [''p1'']) = (None, w1)"
    using no_error by blast
  have rt: "rtNano demo_rt 0 = 7" "rtClock demo_rt = (\<lambda>_ _. 9)" "rtReplicas demo_rt = rev" by (simp_all add: demo_rt_def)
  show ?thesis
    by (simp add: insert_core_def demo_locate rt demo_vector_pb st demo_replicated_def flip: demo_conn1_def split: prod.split)
qed

lemma demo_insert_parts: "ioSuccess (fst demo_insert)" "svShards (fst (snd demo_insert)) = demo_sm"
  "snd (snd demo_insert) = snd (snd demo_replicated)"
  by (simp_all add: demo_insert_def Insert_def demo_insert_core timed_def add_metrics_def)

lemma demo_readable: "\<exists>w. GetVector mem_exec demo_conn1 ''i'' ''c'' (snd (snd demo_replicated)) = (Inr demo_vector, w)"
proof -
  have "fst (GetVector mem_exec demo_conn1 ''i'' ''c'' (snd (snd demo_replicated))) = Inr demo_vector" by code_simp
  then show ?thesis by (metis prod.collapse)
qed

section \<open>The service as a map\<close>

text \<open>C1: The handlers refine a map from index and id to a vector. A successful insert or update
  binds the vector sent, stamped with the time, under its id (an update even when the deletion
  it makes first has failed); a successful delete unbinds; a successful read returns the
  binding and changes nothing; whatever the answer, every other key keeps its binding.\<close>

theorem service_refines_map:
  assumes "redis_service exec store" "perform exec rt call s = Returns (reply, s')"
    "\<And>i v. reply = Stored i v \<Longrightarrow> vector_ok v"
  shows "spec_step reply (svc_vec store s) (svc_vec store s')"
  using redis_service.perform_refines [OF assms] .

theorem service_refines_map_witness:
  "svc_vec mem_store (snd demo_insert) ''i'' ''c'' = Some (canonical demo_vector)"
proof -
  obtain resp s' where i: "demo_insert = (resp, s')" by (cases demo_insert)
  then have "perform mem_exec demo_rt (CallInsert \<lparr>inIndexName = ''i'', inVector = Some demo_pb\<rparr>) (demo_service, mem_empty [''p1''])
      = Returns (Stored ''i'' demo_vector, snd demo_insert)"
    using demo_insert_parts(1) by (simp add: demo_insert_def demo_nano demo_vector_pb)
  from service_refines_map [OF mem.redis_service_axioms this] demo_vector_ok
  show ?thesis by (simp add: demo_vector_def)
qed

text \<open>C2: A vector acknowledged by \<open>Insert\<close> is what every later read that succeeds returns, with the
  same values and metadata: whatever other requests, health checks, failures of servers and
  promotions come between, in any order, as long as no request names its key. Not even dropping
  its index disturbs it.\<close>

theorem insert_durable:
  assumes "redis_service exec store" "service_ok (fst s)"
    "Insert exec rt req s = (resp, s1)" "ioSuccess resp" "inVector req = Some v"
    "vector_ok (stored_of (pvId v) v (rtNano rt 0))"
    "(service_step exec (vector_key (inIndexName req) (pvId v)))\<^sup>*\<^sup>* s1 s2"
    "Get exec \<lparr>grIndexName = inIndexName req, grVectorId = pvId v\<rparr> s2 = (gresp, s3)" "goSuccess gresp"
  shows "\<exists>g. goVector gresp = Some g \<and> pvId g = pvId v \<and> pvValues g = pvValues v \<and> pvTimestamp g = rtNano rt 0
    \<and> (\<forall>k. gm_get (pvMetadata g) k = gm_get (pvMetadata v) k)"
proof -
  obtain g where "goVector gresp = Some g" "pvId g = pvId v" "pvValues g = pvValues v" "pvTimestamp g = rtNano rt 0"
    "\<And>k. gm_get (pvMetadata g) k = gm_get (pvMetadata v) k"
    using redis_service.durable_get [OF assms] by metis
  then show ?thesis by blast
qed

theorem insert_durable_witness:
  "\<exists>g. goVector (fst (Get mem_exec \<lparr>grIndexName = ''i'', grVectorId = ''c''\<rparr>
      ((fst (snd demo_insert))\<lparr>svReplication := checkReplicaHealth rev (\<lambda>_ _ _. 99) (svReplication (fst (snd demo_insert)))\<rparr>,
       snd (snd demo_insert)))) = Some g \<and> pvValues g = [f32_one, f32_zero]"
proof -
  let ?req = "\<lparr>inIndexName = ''i'', inVector = Some demo_pb\<rparr>" and ?sv = "fst (snd demo_insert)"
  let ?s2 = "(?sv\<lparr>svReplication := checkReplicaHealth rev (\<lambda>_ _ _. 99) (svReplication ?sv)\<rparr>, snd (snd demo_insert))"
  have ins: "Insert mem_exec demo_rt ?req (demo_service, mem_empty [''p1'']) = (fst demo_insert, snd demo_insert)"
    by (simp add: demo_insert_def)
  have step: "service_step mem_exec K (snd demo_insert) ?s2" for K
    using service_step.replica_health [of mem_exec K ?sv "snd (snd demo_insert)" rev "\<lambda>_ _ _. 99"] by simp
  obtain gresp s3 where g: "Get mem_exec \<lparr>grIndexName = inIndexName ?req, grVectorId = pvId demo_pb\<rparr> ?s2 = (gresp, s3)"
    using prod.exhaust by blast
  obtain w3 where r: "GetVector mem_exec demo_conn1 ''i'' ''c'' (snd (snd demo_replicated)) = (Inr demo_vector, w3)"
    using demo_readable by blast
  have ok: "goSuccess gresp"
    using g by (auto simp: Get_def demo_insert_parts demo_locate r simp flip: demo_conn1_def)
  have v: "inVector ?req = Some demo_pb" "vector_ok (stored_of (pvId demo_pb) demo_pb (rtNano demo_rt 0))"
    using demo_vector_ok by (simp_all add: demo_vector_pb demo_rt_def)
  show ?thesis
    using insert_durable [OF mem.redis_service_axioms _ ins demo_insert_parts(1) v r_into_rtranclp [where r = "service_step mem_exec _", OF step] g ok]
      demo_service_ok g by auto
qed

text \<open>C3: While the server of a vector's shard answers, a valid insert succeeds and the vector is there
  to be read at once, whatever becomes of its copies: replicas that are down do not make it fail.\<close>

theorem insert_available:
  assumes "redis_up exec store up"
    "inVector req = Some v" "pvValues v \<noteq> []" "vector_ok (stored_of (pvId v) v (rtNano rt 0))"
    "gm_get (svIndexes (fst s)) (inIndexName req) = Some index" "int (length (pvValues v)) = xDimension index"
    "locate (svShards (fst s)) (pvId v) = Inr (n, c)" "up (snd s) c"
  shows "ioSuccess (fst (Insert exec rt req s))
    \<and> (\<exists>g. goSuccess (fst (Get exec \<lparr>grIndexName = inIndexName req, grVectorId = pvId v\<rparr> (snd (Insert exec rt req s))))
        \<and> goVector (fst (Get exec \<lparr>grIndexName = inIndexName req, grVectorId = pvId v\<rparr> (snd (Insert exec rt req s)))) = Some g
        \<and> pvId g = pvId v \<and> pvValues g = pvValues v)"
  using redis_up.Insert_available [OF assms] .

theorem insert_available_witness:
  "ioSuccess (fst (Insert mem_exec demo_rt \<lparr>inIndexName = ''i'', inVector = Some demo_pb\<rparr> (demo_service, mem_empty [''p1'', ''p2''])))"
proof -
  have v: "inVector \<lparr>inIndexName = ''i'', inVector = Some demo_pb\<rparr> = Some demo_pb" "pvValues demo_pb \<noteq> []"
    "vector_ok (stored_of (pvId demo_pb) demo_pb (rtNano demo_rt 0))"
    using demo_vector_ok by (simp_all add: demo_nano demo_vector_pb)
  have l: "locate (svShards (fst (demo_service, mem_empty [''p1'', ''p2'']))) (pvId demo_pb) = Inr (1, demo_conn\<lparr>cDB := 1\<rparr>)"
    "mem_up (snd (demo_service, mem_empty [''p1'', ''p2''])) (demo_conn\<lparr>cDB := 1\<rparr>)"
    by (simp_all add: demo_locate mem_up_def mem_empty_def demo_conn_def)
  show ?thesis
    using insert_available [OF mem.redis_up_axioms v _ _ l, of demo_index] by simp
qed

section \<open>Searching all shards\<close>

text \<open>C6: A search over a service in order, with reachable shards and scores that are numbers,
  answers with the best \<open>TopK\<close> (10 if not positive) of everything all active shards hold, in
  descending order of score, less those under the minimum; merging the shards' answers, which
  come in any order, loses nothing that a single search of all vectors would have found.\<close>

theorem search_all_shards:
  assumes "redis_up exec store up" "service_ok (fst s)" "rt_ok rt"
    "gm_get (svIndexes (fst s)) (srIndexName req) = Some index" "int (length (srQueryVector req)) = xDimension index"
    "GetHealthyShards (rtShards rt) (svShards (fst s)) \<noteq> []"
    "reachable_shards up (snd s) (svShards (fst s)) (GetHealthyShards (rtShards rt) (svShards (fst s)))"
    "\<forall>x \<in># service_candidates store rt req s. \<not> f32_is_nan (rScore x)"
  shows "\<exists>rs. soSuccess (fst (Search exec rt req s))
    \<and> soResults (fst (Search exec rt req s)) = map (pb_result req) (filter (kept req) rs)
    \<and> is_topk f32_lt rScore (top_k req) (service_candidates store rt req s) (mset rs)
    \<and> descending f32_lt rScore rs"
proof -
  have "manager_ok (svShards (fst s))" using assms(2) by (simp add: service_ok_def)
  then obtain rs w' where "search_core exec rt req s =
      (\<lparr>soSuccess = True, soMessage = ''search completed'', soResults = map (pb_result req) (filter (kept req) rs),
        soSearchTimeMs = 0\<rparr>, fst s, w')"
    "is_topk f32_lt rScore (top_k req) (service_candidates store rt req s) (mset rs)" "descending f32_lt rScore rs"
    using redis_up.search_core_topk [OF assms(1) _ assms(3-8)] by blast
  then show ?thesis by (auto simp: Search_def timed_def)
qed

lemma demo_healthy: "is_order order \<Longrightarrow> set (GetHealthyShards order demo_sm) \<subseteq> {demo_shard 0, demo_shard 1}"
  using is_order_set [of order "[demo_shard 0, demo_shard 1]"] by (auto simp: GetHealthyShards_def)

lemma demo_healthy_rev: "GetHealthyShards rev demo_sm \<noteq> []"
  by (simp add: GetHealthyShards_def)

lemma sum_list_member: "x \<in># sum_list Ms \<longleftrightarrow> (\<exists>M \<in> set Ms. x \<in># M)"
  by (induction Ms) auto

lemma demo_world1_stores: "dom (dbSets (mem_store demo_world1 ''r1'' 0) (ids_key ''i'')) = {}"
  "dom (dbSets (mem_store demo_world1 ''r1'' 1) (ids_key ''i'')) = {''c''}"
  "candidate (mem_store demo_world1 ''r1'' 1) ''i'' [f32_one, f32_zero] [] ''c'' = Some (scored [f32_one, f32_zero] demo_vector)"
proof -
  have "fst (StoreVector mem_exec demo_conn1 ''i'' demo_vector (mem_empty [])) = None" by code_simp
  then obtain d rs where d: "ToBytes demo_vector = Inr d"
    and e: "mem_exec demo_conn1 (store_commands ''i'' demo_vector d) (mem_empty []) = (Inr rs, demo_world1)"
    by (metis StoreVector_None demo_world1_def prod.collapse)
  have c: "cAddr demo_conn1 = ''r1''" "cDB demo_conn1 = 1" by (simp_all add: demo_conn1_def demo_conn_def)
  have nil: "mem_store (mem_empty []) a n = \<lparr>dbDocs = Map.empty, dbSets = (\<lambda>_. Map.empty)\<rparr>" for a n
    by (simp add: mem_store_def mem_empty_def mem_abs_def md_set_def)
  have one: "mem_store demo_world1 ''r1'' 1
      = fold cmd_effect (store_commands ''i'' demo_vector d) \<lparr>dbDocs = Map.empty, dbSets = (\<lambda>_. Map.empty)\<rparr>"
    using mem.exec_effect [OF e] by (simp add: c nil)
  have zero: "mem_store demo_world1 ''r1'' 0 = \<lparr>dbDocs = Map.empty, dbSets = (\<lambda>_. Map.empty)\<rparr>"
    using mem.exec_frame [OF e, of "''r1''" 0] by (simp add: c nil)
  have v: "vID demo_vector = ''c''" by (simp add: demo_vector_def)
  show "dom (dbSets (mem_store demo_world1 ''r1'' 0) (ids_key ''i'')) = {}" by (simp add: zero)
  show "dom (dbSets (mem_store demo_world1 ''r1'' 1) (ids_key ''i'')) = {''c''}"
    by (simp add: one store_commands_ids v)
  have "VectorFromBytes d = Inr demo_vector"
    using VectorFromBytes_ToBytes [OF demo_vector_ok d] by (simp add: demo_vector_def)
  then show "candidate (mem_store demo_world1 ''r1'' 1) ''i'' [f32_one, f32_zero] [] ''c'' = Some (scored [f32_one, f32_zero] demo_vector)"
    by (simp add: candidate_def one store_commands_docs v Let_def matches_filter_def)
qed

lemma demo_candidates:
  "x \<in># service_candidates mem_store demo_rt demo_search (demo_service, demo_world1) \<Longrightarrow> x = scored [f32_one, f32_zero] demo_vector"
proof -
  assume x: "x \<in># service_candidates mem_store demo_rt demo_search (demo_service, demo_world1)"
  have order: "is_order (rtShards demo_rt)" by (simp add: demo_rt_def)
  have q: "srIndexName demo_search = ''i''" "srQueryVector demo_search = [f32_one, f32_zero]" "srFilter demo_search = []"
    by (simp_all add: demo_search_def)
  have "mem_store demo_world1 (cAddr demo_conn) (cDB demo_conn) = mem_store demo_world1 ''r1'' 0"
    "mem_store demo_world1 (cAddr demo_conn1) (cDB demo_conn1) = mem_store demo_world1 ''r1'' 1"
    by (simp_all add: demo_conn_def demo_conn1_def)
  then have "shard_candidates mem_store demo_world1 demo_sm demo_search (demo_shard 0) = {#}"
    "shard_candidates mem_store demo_world1 demo_sm demo_search (demo_shard 1) = {#scored [f32_one, f32_zero] demo_vector#}"
    by (simp_all add: shard_candidates_def demo_adapters all_candidates_def q demo_world1_stores flip: demo_conn1_def)
  then show ?thesis
    using x demo_healthy [OF order] by (auto simp: service_candidates_def sum_list_member)
qed

lemma demo_score: "rScore (scored [f32_one, f32_zero] demo_vector) = f32_zero"
proof -
  have "cosine_sums [(f32_one, f32_one), (f32_zero, f32_zero)] = (f32_one, f32_one, f32_one)" by code_simp
  moreover have "f32_mul f32_one f32_one = f32_one" "f32_div f32_one f32_one = f32_one" "\<not> f32_eq f32_one f32_zero"
    "f32_finite f32_one" by code_simp+
  moreover have "f32_sqrt f32_one = f32_one" by code_simp
  ultimately show ?thesis
    by (simp add: scored_def demo_vector_def GetDistanceFunc_def CosineSimilarity_def f32_sub_self)
qed

theorem search_all_shards_witness:
  "\<exists>rs. soSuccess (fst (Search mem_exec demo_rt demo_search (demo_service, demo_world1)))
    \<and> soResults (fst (Search mem_exec demo_rt demo_search (demo_service, demo_world1)))
      = map (pb_result demo_search) (filter (kept demo_search) rs)"
proof -
  have sh: "GetHealthyShards (rtShards demo_rt) (svShards (fst (demo_service, demo_world1))) \<noteq> []"
    by (simp add: demo_rt_def demo_healthy_rev)
  have up: "reachable_shards mem_up (snd (demo_service, demo_world1)) (svShards (fst (demo_service, demo_world1)))
      (GetHealthyShards (rtShards demo_rt) (svShards (fst (demo_service, demo_world1))))"
  proof -
    have "mwDown demo_world1 = []" by code_simp
    then have "mem_up demo_world1 c" for c by (simp add: mem_up_def)
    then show ?thesis by (simp add: reachable_shards_def)
  qed
  have "\<not> f32_is_nan (rScore (scored [f32_one, f32_zero] demo_vector))" by (simp add: demo_score)
  then have nan: "\<forall>x \<in># service_candidates mem_store demo_rt demo_search (demo_service, demo_world1). \<not> f32_is_nan (rScore x)"
    using demo_candidates by blast
  show ?thesis
    using search_all_shards [OF mem.redis_up_axioms _ demo_rt_ok _ _ sh up nan, of demo_index] demo_service_ok
    by (auto simp: demo_search_def)
qed

text \<open>C22: A search reports success whenever its index and dimension are right and a shard counts as
  healthy; the shards' own errors go where nobody reads them. With every server down it still
  answers \<open>search completed\<close>, with no results.\<close>

theorem search_hides_failures:
  assumes "gm_get (svIndexes (fst s)) (srIndexName req) = Some index" "int (length (srQueryVector req)) = xDimension index"
    "GetHealthyShards (rtShards rt) (svShards (fst s)) \<noteq> []"
  shows "soSuccess (fst (Search exec rt req s))
    \<and> (rt_ok rt \<longrightarrow> (\<forall>c cmds w. cmds \<noteq> [] \<longrightarrow> (\<exists>e. exec c cmds w = (Inl e, w))) \<longrightarrow>
         soResults (fst (Search exec rt req s)) = [])"
proof -
  have "rtResults rt [] = []" if "rt_ok rt"
  proof -
    have "mset (rtResults rt []) = mset []" using that by (simp add: rt_ok_def is_order_def)
    then show ?thesis by simp
  qed
  moreover have "best_results [] k = []" for k using length_best_results [of "[]" k] by simp
  ultimately show ?thesis
    using assms search_shards_down [of exec]
    by (auto simp: Search_def search_core_def Let_def timed_def split: prod.splits)
qed

theorem search_hides_failures_witness:
  "soSuccess (fst (Search (\<lambda>c cmds w. (Inl ''down'', w)) demo_rt demo_search (demo_service, ())))
   \<and> soResults (fst (Search (\<lambda>c cmds w. (Inl ''down'', w)) demo_rt demo_search (demo_service, ()))) = []"
proof -
  have "GetHealthyShards (rtShards demo_rt) (svShards (fst (demo_service, ()))) \<noteq> []"
    by (simp add: demo_rt_def demo_healthy_rev)
  then show ?thesis
    using search_hides_failures [of "(demo_service, ())" demo_search demo_index demo_rt "\<lambda>c cmds w. (Inl ''down'', w)"] demo_rt_ok
    by (simp add: demo_search_def)
qed

section \<open>What is refused, and what crashes\<close>

text \<open>C14: An insert without a vector, without values, for an index that is not there, or with the
  wrong dimension is refused, and touches neither the servers nor the service: only the latency
  is recorded. An update without a vector takes the server down exactly when its index exists; every
  other update is answered.\<close>

theorem malformed_requests:
  "((case inVector req of None \<Rightarrow> True | Some v \<Rightarrow> pvValues v = []
      \<or> (case gm_get (svIndexes sv) (inIndexName req) of None \<Rightarrow> True | Some index \<Rightarrow> int (length (pvValues v)) \<noteq> xDimension index))
    \<longrightarrow> (\<exists>msg. Insert exec rt req (sv, w) = (insert_failed msg, add_metrics (RecordLatency ''insert'' (rtElapsed rt)) sv, w)))
   \<and> ((\<exists>e. Update exec rt ureq (sv, w) = Crashes e) \<longleftrightarrow>
        (\<exists>index. gm_get (svIndexes sv) (urIndexName ureq) = Some index) \<and> urVector ureq = None)"
proof (intro conjI impI)
  assume "case inVector req of None \<Rightarrow> True | Some v \<Rightarrow> pvValues v = []
      \<or> (case gm_get (svIndexes sv) (inIndexName req) of None \<Rightarrow> True | Some index \<Rightarrow> int (length (pvValues v)) \<noteq> xDimension index)"
  then show "\<exists>msg. Insert exec rt req (sv, w) = (insert_failed msg, add_metrics (RecordLatency ''insert'' (rtElapsed rt)) sv, w)"
    by (auto simp: Insert_def insert_core_def Let_def timed_def insert_failed_def split: option.splits)
next
  show "(\<exists>e. Update exec rt ureq (sv, w) = Crashes e) \<longleftrightarrow>
      (\<exists>index. gm_get (svIndexes sv) (urIndexName ureq) = Some index) \<and> urVector ureq = None"
    by (cases "gm_get (svIndexes sv) (urIndexName ureq)"; cases "urVector ureq")
       (auto simp: Update_def Let_def split: sum.split prod.split option.split)
qed

theorem malformed_requests_witness:
  "(\<exists>msg. Insert mem_exec demo_rt \<lparr>inIndexName = ''absent'', inVector = Some demo_pb\<rparr> (demo_service, mem_empty [])
      = (insert_failed msg, add_metrics (RecordLatency ''insert'' (rtElapsed demo_rt)) demo_service, mem_empty []))
   \<and> (\<exists>e. Update mem_exec demo_rt \<lparr>urIndexName = ''i'', urVectorId = ''c'', urVector = None\<rparr> (demo_service, mem_empty []) = Crashes e)"
  using malformed_requests [where req = "\<lparr>inIndexName = ''absent'', inVector = Some demo_pb\<rparr>" and sv = demo_service
      and ureq = "\<lparr>urIndexName = ''i'', urVectorId = ''c'', urVector = None\<rparr>" and exec = mem_exec and rt = demo_rt
      and w = "mem_empty []"] by simp

text \<open>C23: No streaming handler ever processes a request: whatever is received, nothing is sent, the
  servers and the service's tables stay as they are, and the handler returns without an error at
  the first request that arrives, with the stream's error or its end otherwise.\<close>

theorem streams_idle:
  "fst (StreamInsert exec rts errs events svw) = (if events = [] then Some ''EOF'' else snd (hd events))
   \<and> ssSent (snd (StreamInsert exec rts errs events svw)) = []
   \<and> ssWorld (snd (StreamInsert exec rts errs events svw)) = snd svw
   \<and> (\<exists>calls. ssService (snd (StreamInsert exec rts errs events svw)) = add_metrics calls (fst svw))
   \<and> StreamSearch exec rts errs sevents svw = (if sevents = [] then Some ''EOF'' else snd (hd sevents), new_session svw)
   \<and> StreamBatchInsert exec rts errs bevents svw = (if bevents = [] then Some ''EOF'' else snd (hd bevents), new_session svw)"
proof -
  have "fst svw = add_metrics [] (fst svw)" by (simp add: add_metrics_def)
  then show ?thesis
    by (auto simp: StreamInsert_def StreamSearch_def StreamBatchInsert_def stream_loop_idle new_session_def
        split: option.split)
qed

section \<open>Batches and indexes\<close>

text \<open>C10: A batch that finds its index accounts for every vector: as many as it reports inserted,
  together with the ids it reports failed, are the ids of the request, each as often as it
  occurs there, in whatever order the shards were served. It succeeds if anything was inserted.\<close>

theorem batch_accounts:
  assumes "is_order (rtGroups rt)" "gm_get (svIndexes (fst s)) (biIndexName req) = Some index"
    "length (biVectors req) < 2 ^ 31"
  shows "let resp = fst (BatchInsert exec rt req s)
    in (\<exists>stored. mset (map pvId (biVectors req)) = stored + mset (boFailedIds resp)
         \<and> boInsertedCount resp = int (size stored))
       \<and> boInsertedCount resp + int (length (boFailedIds resp)) = int (length (biVectors req))
       \<and> (boSuccess resp \<longleftrightarrow> 0 < boInsertedCount resp)"
proof -
  obtain groups bad where gr: "group_vectors (svShards (fst s)) index rt (biVectors req) = (groups, bad)" by fastforce
  obtain m' bad' sv' w' where "fold (store_group exec rt (biIndexName req)) (rtGroups rt groups) (0, bad, s) = (m', bad', sv', w')"
    by (cases rule: prod_cases4)
  then have "\<exists>resp n s'. batch_insert_core exec rt req s = ((resp, Some n), s')"
    by (simp add: batch_insert_core_def Let_def assms(2) gr)
  then obtain resp n s' where core: "batch_insert_core exec rt req s = ((resp, Some n), s')" by blast
  from batch_insert_core_ids [OF assms(1) core]
  obtain I where all: "mset (map pvId (biVectors req)) = I + mset (boFailedIds resp) \<and> n = size I
    \<and> boInsertedCount resp = int32_of (int n) \<and> boSuccess resp = (0 < n)" by (elim exE)
  note I = all [THEN conjunct1] all [THEN conjunct2, THEN conjunct1] all [THEN conjunct2, THEN conjunct2, THEN conjunct1]
    all [THEN conjunct2, THEN conjunct2, THEN conjunct2]
  have len: "length (biVectors req) = n + length (boFailedIds resp)"
    using arg_cong [OF I(1), of size] I(2) by simp
  then have "boInsertedCount resp = int n" using assms(3) I(3) by (simp add: int32_of_id)
  moreover have "fst (BatchInsert exec rt req s) = resp"
    by (simp add: BatchInsert_def core timed_def split: prod.split)
  ultimately show ?thesis unfolding Let_def using I(1,2,4) len by (intro conjI exI [of _ I]) simp_all
qed

theorem batch_accounts_witness:
  "let resp = fst (BatchInsert mem_exec demo_rt \<lparr>biIndexName = ''i'', biVectors = [demo_pb, demo_pb\<lparr>pvId := ''d'', pvValues := []\<rparr>],
       biParallel = True\<rparr> (demo_service, mem_empty []))
   in boInsertedCount resp + int (length (boFailedIds resp)) = 2"
proof -
  have "is_order (rtGroups demo_rt)" using demo_rt_ok by (simp add: rt_ok_def)
  from batch_accounts [OF this, of "(demo_service, mem_empty [])"
      "\<lparr>biIndexName = ''i'', biVectors = [demo_pb, demo_pb\<lparr>pvId := ''d'', pvValues := []\<rparr>], biParallel = True\<rparr>" demo_index mem_exec]
  show ?thesis by (simp add: Let_def)
qed

text \<open>C19: Creating an index succeeds exactly when its name is free and its dimension, shard count,
  replica count and metric are valid, and then binds the name to what was asked for, whatever
  the shards answer; dropping one succeeds exactly when it exists, and frees the name. Nothing
  else happens to the table.\<close>

theorem index_table:
  "coSuccess (fst (CreateIndex exec rt req s)) = (gm_get (svIndexes (fst s)) (crIndexName req) = None
      \<and> 0 < crDimension req \<and> 0 < crShardCount req \<and> 0 \<le> crReplicaCount req
      \<and> crMetric req \<in> {''cosine'', ''euclidean'', ''dot_product''})
   \<and> gm_get (svIndexes (fst (snd (CreateIndex exec rt req s)))) = (if coSuccess (fst (CreateIndex exec rt req s))
      then (gm_get (svIndexes (fst s)))(crIndexName req \<mapsto>
        \<lparr>xName = crIndexName req, xDimension = crDimension req, xMetric = crMetric req, xShardCount = crShardCount req,
         xReplicaCount = crReplicaCount req, xCreatedAt = rtNano rt 0,
         xOptions = fold (\<lambda>(k, v). gm_put k v) (crOptions req) []\<rparr>)
      else gm_get (svIndexes (fst s)))
   \<and> dxSuccess (fst (DropIndex exec rt dreq s)) = (gm_get (svIndexes (fst s)) (diIndexName dreq) \<noteq> None)
   \<and> gm_get (svIndexes (fst (snd (DropIndex exec rt dreq s)))) = (gm_get (svIndexes (fst s)))(diIndexName dreq := None)"
  unfolding CreateIndex_effect DropIndex_effect by (auto simp: index_ok_def NewVectorIndex_def)

text \<open>C21: With every shard's server answering, the statistics of an index report for each shard with an
  adapter the number of distinct ids in its database, under the shard's own number, and in total
  their sum, as an \<open>int64\<close>.\<close>

theorem stats_count:
  assumes "redis_up exec store up" "service_ok (fst s)" "is_order (rtShards rt)"
    "gm_get (svIndexes (fst s)) (gsIndexName req) = Some index"
    "reachable_shards up (snd s) (svShards (fst s)) (GetAllShards (rtShards rt) (svShards (fst s)))"
  shows "let sm = svShards (fst s); shards = GetAllShards (rtShards rt) sm; ids = shard_count store (snd s) sm (gsIndexName req);
      resp = fst (GetStats exec rt req s)
    in gxSuccess resp \<and> (\<exists>st. gxStats resp = Some st \<and> isVectorCount st = int64_of (sum_list (map ids shards))
      \<and> (\<forall>shard \<in> set shards. \<forall>c. GetShardAdapter sm (siID shard) = Inr c \<longrightarrow>
           (\<exists>ss. gm_get (isShardStats st) (siID shard) = Some ss \<and> ssVectorCount ss = ids shard \<and> ssStatus ss = siStatus shard
              \<and> ssVectorCount ss = int (card (dom (dbSets (store (snd s) (cAddr c) (cDB c)) (ids_key (gsIndexName req))))))))"
proof -
  let ?sm = "svShards (fst s)" and ?order = "rtShards rt"
  have ok: "manager_ok ?sm" using assms(2) by (simp add: service_ok_def)
  let ?ids = "shard_count store (snd s) ?sm (gsIndexName req)"
  obtain st where st: "gxSuccess (fst (GetStats exec rt req s))" "gxStats (fst (GetStats exec rt req s)) = Some st"
    "isVectorCount st = int64_of (sum_list (map ?ids (GetAllShards ?order ?sm)))"
    "isShardStats st = fold (put_stats ?ids ?sm) (GetAllShards ?order ?sm) []"
    using redis_up.GetStats_counts [OF assms(1,4,5)] by blast
  have "gm_get (isShardStats st) (siID shard) = Some \<lparr>ssShardId = siID shard, ssVectorCount = ?ids shard,
      ssStatus = siStatus shard, ssReplicaNodes = siReplicas shard, ssMemoryUsageBytes = siMemoryUsage shard\<rparr>"
    if "shard \<in> set (GetAllShards ?order ?sm)" "GetShardAdapter ?sm (siID shard) = Inr c" for shard c
    using fold_put_stats [OF all_shards_ids(1) [OF ok assms(3)] that] all_shards_ids(2) [OF ok assms(3) that(1)] st(4) by simp
  moreover have "?ids shard = int (card (dom (dbSets (store (snd s) (cAddr c) (cDB c)) (ids_key (gsIndexName req)))))"
    if "GetShardAdapter ?sm (siID shard) = Inr c" for shard c using that by (simp add: shard_count_def)
  ultimately show ?thesis unfolding Let_def using st(1,2,3) by (intro conjI exI [of _ st] ballI allI impI) simp_all
qed

theorem stats_count_witness:
  "\<exists>st. gxStats (fst (GetStats mem_exec demo_rt \<lparr>gsIndexName = ''i''\<rparr> (demo_service, demo_world1))) = Some st \<and> isVectorCount st = 1"
proof -
  let ?s = "(demo_service, demo_world1)"
  have "mwDown demo_world1 = []" by code_simp
  then have up: "reachable_shards mem_up (snd ?s) (svShards (fst ?s)) (GetAllShards (rtShards demo_rt) (svShards (fst ?s)))"
    by (simp add: reachable_shards_def mem_up_def)
  have order: "is_order (rtShards demo_rt)" by (simp add: demo_rt_def)
  have conns: "mem_store demo_world1 (cAddr demo_conn) (cDB demo_conn) = mem_store demo_world1 ''r1'' 0"
    "mem_store demo_world1 (cAddr demo_conn1) (cDB demo_conn1) = mem_store demo_world1 ''r1'' 1"
    by (simp_all add: demo_conn_def demo_conn1_def)
  have ids: "shard_count mem_store demo_world1 demo_sm ''i'' (demo_shard 0) = 0" "shard_count mem_store demo_world1 demo_sm ''i'' (demo_shard 1) = 1"
    by (simp_all add: shard_count_def demo_adapters conns demo_world1_stores flip: demo_conn1_def)
  have shards: "GetAllShards (rtShards demo_rt) demo_sm = [demo_shard 1, demo_shard 0]" by (simp add: GetAllShards_def demo_rt_def)
  have "int64_of 1 = 1" by (rule int64_of_id) simp_all
  then show ?thesis
    using stats_count [OF mem.redis_up_axioms _ order _ up, of "\<lparr>gsIndexName = ''i''\<rparr>" demo_index] demo_service_ok
    by (auto simp: Let_def shards ids)
qed

section \<open>Through the client\<close>

text \<open>C18: What a program stores through the client it reads back through the client: the id, the
  values bit for bit and the metadata, for as long as no request names the key, over a transport
  that delivers.\<close>

theorem client_roundtrip:
  assumes "redis_service exec store" "service_ok (fst s)"
    "client_Insert (direct (Insert exec rt)) i a xs md s = (None, s1)"
    "vector_ok \<lparr>vID = a, vMetadata = md, vTimestamp = rtNano rt 0, vValues = xs\<rparr>"
    "(service_step exec (vector_key i a))\<^sup>*\<^sup>* s1 s2"
    "client_Get (direct (Get exec)) i a s2 = (Inr cv, s3)"
  shows "cvID cv = a \<and> cvValues cv = xs \<and> (\<forall>k. gm_get (cvMetadata cv) k = gm_get md k)"
proof -
  let ?v = "\<lparr>pvId = a, pvValues = xs, pvMetadata = md, pvTimestamp = 0\<rparr>"
  let ?req = "\<lparr>inIndexName = i, inVector = Some ?v\<rparr>"
  obtain resp where ins: "Insert exec rt ?req s = (resp, s1)" "ioSuccess resp"
    using assms(3) by (auto simp: client_Insert_def direct_def split: prod.splits if_splits)
  obtain gresp g where get: "Get exec \<lparr>grIndexName = i, grVectorId = a\<rparr> s2 = (gresp, s3)" "goSuccess gresp"
    and g: "goVector gresp = Some g" "cv = client_vector_of g"
    using assms(6) by (auto simp: client_Get_def direct_def split: prod.splits if_splits option.splits)
  have v: "vector_ok (stored_of (pvId ?v) ?v (rtNano rt 0))" using assms(4) by (simp add: stored_of_def)
  obtain g' where "goVector gresp = Some g'" "pvId g' = a" "pvValues g' = xs" "\<And>k. gm_get (pvMetadata g') k = gm_get md k"
    using redis_service.durable_get [OF assms(1,2) ins, of ?v s2 gresp s3] v assms(5) get by auto
  then show ?thesis using g by (simp add: client_vector_of_def)
qed

theorem client_roundtrip_witness:
  "\<exists>s1 cv s3. client_Insert (direct (Insert mem_exec demo_rt)) ''i'' ''c'' [f32_one, f32_zero] [(''k'', ''x'')]
       (demo_service, mem_empty [''p1'']) = (None, s1)
    \<and> client_Get (direct (Get mem_exec)) ''i'' ''c'' s1 = (Inr cv, s3) \<and> cvValues cv = [f32_one, f32_zero]"
proof -
  obtain resp s1 where i: "demo_insert = (resp, s1)" by (cases demo_insert)
  have "ioSuccess resp" using demo_insert_parts(1) unfolding i by simp
  with i have ins: "client_Insert (direct (Insert mem_exec demo_rt)) ''i'' ''c'' [f32_one, f32_zero] [(''k'', ''x'')]
       (demo_service, mem_empty [''p1'']) = (None, s1)"
    by (simp add: client_Insert_def direct_def demo_insert_def demo_pb_def)
  obtain w3 where r: "GetVector mem_exec demo_conn1 ''i'' ''c'' (snd (snd demo_replicated)) = (Inr demo_vector, w3)"
    using demo_readable by blast
  have "svShards (fst s1) = demo_sm" "snd s1 = snd (snd demo_replicated)" using demo_insert_parts(2,3) unfolding i by simp_all
  then obtain cv s3 where get: "client_Get (direct (Get mem_exec)) ''i'' ''c'' s1 = (Inr cv, s3)"
    by (simp add: client_Get_def direct_def Get_def Let_def demo_locate r flip: demo_conn1_def)
  have "vector_ok \<lparr>vID = ''c'', vMetadata = [(''k'', ''x'')], vTimestamp = rtNano demo_rt 0, vValues = [f32_one, f32_zero]\<rparr>"
    using demo_vector_ok by (simp add: demo_vector_def demo_nano)
  from client_roundtrip [OF mem.redis_service_axioms _ ins this rtranclp.rtrancl_refl get] demo_service_ok ins get
  show ?thesis by auto
qed

text \<open>C20: The client truncates the three numbers of an index to 32 bits: an index that it reports
  created has exactly the truncated dimension, shard count and replica count, under the name and metric
  asked for. Each is the number asked for only if that is within its bounds and below \<open>2 ^ 31\<close>;
  otherwise the index silently has another one, which is still within them.\<close>

theorem client_index_truncated:
  assumes "client_CreateIndex (direct (CreateIndex exec rt)) options s = (None, s1)"
  shows "\<exists>index. gm_get (svIndexes (fst s1)) (cioName options) = Some index
    \<and> xName index = cioName options \<and> xMetric index = cioMetric options
    \<and> xDimension index = int32_of (cioDimension options) \<and> 0 < xDimension index
    \<and> xShardCount index = int32_of (cioShardCount options) \<and> 0 < xShardCount index
    \<and> xReplicaCount index = int32_of (cioReplicaCount options) \<and> 0 \<le> xReplicaCount index
    \<and> (xDimension index = cioDimension options \<longleftrightarrow> 0 < cioDimension options \<and> cioDimension options < 2 ^ 31)
    \<and> (xShardCount index = cioShardCount options \<longleftrightarrow> 0 < cioShardCount options \<and> cioShardCount options < 2 ^ 31)
    \<and> (xReplicaCount index = cioReplicaCount options \<longleftrightarrow> 0 \<le> cioReplicaCount options \<and> cioReplicaCount options < 2 ^ 31)"
proof -
  let ?req = "\<lparr>crIndexName = cioName options, crDimension = int32_of (cioDimension options), crMetric = cioMetric options,
    crShardCount = int32_of (cioShardCount options), crReplicaCount = int32_of (cioReplicaCount options), crOptions = cioOptions options\<rparr>"
  obtain resp where r: "CreateIndex exec rt ?req s = (resp, s1)" "coSuccess resp"
    using assms by (auto simp: client_CreateIndex_def direct_def split: prod.splits if_splits)
  note effect = CreateIndex_effect [where exec = exec and rt = rt and req = ?req and s = s]
  have ok: "gm_get (svIndexes (fst s)) (cioName options) = None" "0 < int32_of (cioDimension options)"
    "0 < int32_of (cioShardCount options)" "0 \<le> int32_of (cioReplicaCount options)"
    "index_ok (NewVectorIndex (rtNano rt 0) (cioName options) (int32_of (cioDimension options)) (cioMetric options)
       (int32_of (cioShardCount options)) (int32_of (cioReplicaCount options)))"
    using effect(1) r by (auto simp: index_ok_def NewVectorIndex_def)
  have pos: "int32_of n = n \<longleftrightarrow> 0 < n \<and> n < 2 ^ 31" if "0 < int32_of n" for n
    using int32_of_id [of n] int32_of_range [of n] that by linarith
  have nonneg: "int32_of n = n \<longleftrightarrow> 0 \<le> n \<and> n < 2 ^ 31" if "0 \<le> int32_of n" for n
    using int32_of_id [of n] int32_of_range [of n] that by linarith
  from pos [OF ok(2)] pos [OF ok(3)] nonneg [OF ok(4)] show ?thesis using effect(2) r ok by (auto simp: NewVectorIndex_def)
qed

theorem client_index_truncated_witness:
  "\<exists>s1 index. client_CreateIndex (direct (CreateIndex mem_exec demo_rt)) \<lparr>cioName = ''wide'', cioDimension = 4294967298,
      cioMetric = ''cosine'', cioShardCount = 2, cioReplicaCount = 0, cioOptions = []\<rparr> (demo_service, mem_empty []) = (None, s1)
    \<and> gm_get (svIndexes (fst s1)) ''wide'' = Some index \<and> xDimension index = 2"
proof -
  let ?o = "\<lparr>cioName = ''wide'', cioDimension = 4294967298, cioMetric = ''cosine'', cioShardCount = 2,
    cioReplicaCount = 0, cioOptions = []\<rparr>"
  have n: "int32_of 4294967298 = 2" "int32_of 2 = 2" "int32_of 0 = 0" by code_simp+
  let ?req = "\<lparr>crIndexName = ''wide'', crDimension = 2, crMetric = ''cosine'', crShardCount = 2, crReplicaCount = 0, crOptions = []\<rparr>"
  obtain resp s1 where r: "CreateIndex mem_exec demo_rt ?req (demo_service, mem_empty []) = (resp, s1)" by (rule prod.exhaust)
  have "coSuccess (fst (CreateIndex mem_exec demo_rt ?req (demo_service, mem_empty [])))"
    unfolding CreateIndex_effect by (simp add: index_ok_def NewVectorIndex_def)
  then have c: "client_CreateIndex (direct (CreateIndex mem_exec demo_rt)) ?o (demo_service, mem_empty []) = (None, s1)"
    by (simp add: client_CreateIndex_def direct_def n r)
  from client_index_truncated [OF c] obtain index where "gm_get (svIndexes (fst s1)) ''wide'' = Some index" "xDimension index = 2"
    by (auto simp: n)
  with c show ?thesis by blast
qed

section \<open>Batch deletions\<close>

text \<open>C35: A batch deletion whose shards all answer makes every id of the request unreadable and reports
  as many deletions as the request has ids, stored or not, each as often as it is named; but the ids
  stay in the id sets of every index, which the statistics count. A single deletion takes its id out.\<close>

theorem batch_delete_leaves_ids:
  assumes "redis_up exec store up" "is_order (rtIdGroups rt)" "length (bdVectorIds req) < 2 ^ 31"
    "\<forall>a \<in> set (bdVectorIds req). \<exists>n c. locate (svShards (fst s)) a = Inr (n, c) \<and> up (snd s) c"
  shows "let w' = snd (snd (BatchDelete exec rt req s))
    in bxDeletedCount (fst (BatchDelete exec rt req s)) = int (length (bdVectorIds req))
       \<and> (\<forall>a \<in> set (bdVectorIds req). \<forall>n c. locate (svShards (fst s)) a = Inr (n, c) \<longrightarrow>
            dbDocs (store w' (cAddr c) (cDB c)) (vector_key (bdIndexName req) a) = None)
       \<and> (\<forall>x d j. dbSets (store w' x d) (ids_key j) = dbSets (store (snd s) x d) (ids_key j))
       \<and> (\<forall>c i a w w2. DeleteVector exec c i a w = (None, w2) \<longrightarrow>
            dbSets (store w2 (cAddr c) (cDB c)) (ids_key i) = (dbSets (store w (cAddr c) (cDB c)) (ids_key i))(a := None))"
proof -
  have "redis_service exec store" using assms(1) by (simp add: redis_up_def)
  note del = redis_service.delete_effect [OF this]
  show ?thesis
    using redis_up.BatchDelete_effect [OF assms(1,2,4,3)] del by (simp add: Let_def only_deletes_def)
qed

theorem batch_delete_leaves_ids_witness:
  "let r = BatchDelete mem_exec demo_rt \<lparr>bdIndexName = ''i'', bdVectorIds = [''c'', ''d'', ''c'']\<rparr> (demo_service, demo_world1)
   in bxDeletedCount (fst r) = 3 \<and> ''c'' \<in> dom (dbSets (mem_store (snd (snd r)) ''r1'' 1) (ids_key ''i''))"
proof -
  let ?req = "\<lparr>bdIndexName = ''i'', bdVectorIds = [''c'', ''d'', ''c'']\<rparr>"
  have "mwDown demo_world1 = []" by code_simp
  then have up: "mem_up demo_world1 c" for c by (simp add: mem_up_def)
  have "locate demo_sm ''d'' = Inr (0, demo_conn)" by (simp add: locate_Inr demo_routing demo_adapters)
  then have "\<forall>a \<in> set (bdVectorIds ?req). \<exists>n c. locate (svShards (fst (demo_service, demo_world1))) a = Inr (n, c)
      \<and> mem_up (snd (demo_service, demo_world1)) c"
    by (simp add: demo_locate up)
  moreover have "is_order (rtIdGroups demo_rt)" by (simp add: demo_rt_def)
  ultimately show ?thesis
    using batch_delete_leaves_ids [OF mem.redis_up_axioms, of demo_rt ?req "(demo_service, demo_world1)"] demo_world1_stores(2)
    by (simp add: Let_def)
qed

section \<open>Vectors that JSON cannot carry\<close>

text \<open>C34: A vector with a NaN or an infinity cannot be stored: the single store reports it and
  leaves the servers alone, a batch behaves as if the vector had not been in it and reports nothing
  about it, and an update reports it too, but only after having deleted the vector that was there.\<close>

theorem unserialisable_vectors:
  assumes "redis_up exec store up" "x \<in> set (pvValues v)" "\<not> f32_finite x"
    "gm_get (svIndexes (fst s)) (urIndexName req) = Some index" "urVector req = Some v"
    "int (length (pvValues v)) = xDimension index"
    "locate (svShards (fst s)) (urVectorId req) = Inr (n, c)" "up (snd s) c"
  shows "(\<exists>e. StoreVector exec c i (stored_of a v t) w = (Some e, w))
    \<and> BatchStoreVectors exec c i (us @ stored_of a v t # vs) w = BatchStoreVectors exec c i (us @ vs) w
    \<and> (\<exists>resp w'. Update exec rt req s = Returns (resp, fst s, w') \<and> \<not> uoSuccess resp
         \<and> dbDocs (store w' (cAddr c) (cDB c)) (vector_key (urIndexName req) (urVectorId req)) = None)"
proof (intro conjI)
  have "x \<in> set (vValues (stored_of a v t))" using assms(2) by (simp add: stored_of_def)
  then obtain e where e: "ToBytes (stored_of a v t) = Inl e" using unserialisable_error assms(3) by blast
  show "\<exists>e. StoreVector exec c i (stored_of a v t) w = (Some e, w)" by (simp add: StoreVector_def e)
  show "BatchStoreVectors exec c i (us @ stored_of a v t # vs) w = BatchStoreVectors exec c i (us @ vs) w"
    by (simp add: BatchStoreVectors_def batch_commands_skip [OF e])
qed (rule redis_up.Update_unserialisable [OF assms(1,4-6,2,3,7,8)])

theorem unserialisable_vectors_witness:
  "dbDocs (mem_store demo_world1 ''r1'' 1) (vector_key ''i'' ''c'') \<noteq> None
   \<and> (\<exists>resp w'. Update mem_exec demo_rt
         \<lparr>urIndexName = ''i'', urVectorId = ''c'', urVector = Some (demo_pb\<lparr>pvValues := [F32 0x7FC00000, f32_one]\<rparr>)\<rparr>
         (demo_service, demo_world1) = Returns (resp, demo_service, w')
       \<and> \<not> uoSuccess resp \<and> dbDocs (mem_store w' ''r1'' 1) (vector_key ''i'' ''c'') = None)"
proof
  show "dbDocs (mem_store demo_world1 ''r1'' 1) (vector_key ''i'' ''c'') \<noteq> None"
    using demo_world1_stores(3) by (auto simp: candidate_def split: option.splits)
  let ?v = "demo_pb\<lparr>pvValues := [F32 0x7FC00000, f32_one]\<rparr>"
  let ?req = "\<lparr>urIndexName = ''i'', urVectorId = ''c'', urVector = Some ?v\<rparr>"
  have v: "F32 0x7FC00000 \<in> set (pvValues ?v)" "\<not> f32_finite (F32 0x7FC00000)" by (simp, code_simp)
  have up: "mwDown demo_world1 = []" by code_simp
  have req: "gm_get (svIndexes (fst (demo_service, demo_world1))) (urIndexName ?req) = Some demo_index"
    "urVector ?req = Some ?v" "int (length (pvValues ?v)) = xDimension demo_index"
    "locate (svShards (fst (demo_service, demo_world1))) (urVectorId ?req) = Inr (1, demo_conn1)"
    "mem_up (snd (demo_service, demo_world1)) demo_conn1"
    using demo_locate by (simp_all add: demo_conn1_def mem_up_def up)
  show "\<exists>resp w'. Update mem_exec demo_rt ?req (demo_service, demo_world1) = Returns (resp, demo_service, w')
      \<and> \<not> uoSuccess resp \<and> dbDocs (mem_store w' ''r1'' 1) (vector_key ''i'' ''c'') = None"
    using unserialisable_vectors [OF mem.redis_up_axioms v req, THEN conjunct2, THEN conjunct2]
    by (simp add: demo_conn1_def demo_conn_def)
qed

section \<open>Writes that overlap\<close>

lemma demo_foreign: "foreign demo_conn1 demo_rm"
  by (simp add: foreign_def demo_conn1_def demo_conn_def)

lemma demo_finite: "\<forall>x \<in> set (vValues demo_vector). f32_finite x"
  by code_simp

text \<open>C4: Writes of one id that overlap: inserts, updates and deletes whose pipelines and goroutines
  take turns in any order. The shard's server keeps what it had until one of them has written, and then
  holds what one that has written left there; once all have answered, every active replica that answers
  holds what one of them wrote. But no lock is held between the shard and the replicas: two writes can
  both succeed and leave the second on the shard and the first on every such replica.\<close>

theorem concurrent_writes:
  assumes "redis_up exec store up" "rep_ok m" "up w c" "foreign c m"
    "\<forall>t \<in> set ts0. starting t \<and> op_id (thread_op t) = a \<and> op_finite (thread_op t)"
  shows "(\<forall>ts m' w'. (write_step exec i n c)\<^sup>*\<^sup>* (ts0, m, w) (ts, m', w') \<longrightarrow>
       ((\<forall>t \<in> set ts. thread_left t = None)
          \<and> dbDocs (store w' (cAddr c) (cDB c)) (vector_key i a) = dbDocs (store w (cAddr c) (cDB c)) (vector_key i a)
        \<or> (\<exists>t \<in> set ts. \<exists>p. thread_left t = Some p \<and> op_doc p (dbDocs (store w' (cAddr c) (cDB c)) (vector_key i a))))
       \<and> (\<forall>c'. answering up n m w c' \<longrightarrow> ts \<noteq> [] \<longrightarrow> (\<forall>t \<in> set ts. \<exists>p. t = Finished p) \<longrightarrow>
            (\<exists>p. Finished p \<in> set ts \<and> op_doc p (dbDocs (store w' (cAddr c') (cDB c')) (vector_key i a)))))
    \<and> (\<forall>p q. ts0 = [Writing p, Writing q] \<longrightarrow>
         (\<exists>m' w'. (write_step exec i n c)\<^sup>*\<^sup>* (ts0, m, w) ([Finished p, Finished q], m', w')
            \<and> op_doc q (dbDocs (store w' (cAddr c) (cDB c)) (vector_key i a))
            \<and> (\<forall>c'. answering up n m w c' \<longrightarrow> op_doc p (dbDocs (store w' (cAddr c') (cDB c')) (vector_key i a)))))"
proof (intro conjI allI impI)
  fix ts m' w' c'
  assume run: "(write_step exec i n c)\<^sup>*\<^sup>* (ts0, m, w) (ts, m', w')"
  show "(\<forall>t \<in> set ts. thread_left t = None)
      \<and> dbDocs (store w' (cAddr c) (cDB c)) (vector_key i a) = dbDocs (store w (cAddr c) (cDB c)) (vector_key i a)
    \<or> (\<exists>t \<in> set ts. \<exists>p. thread_left t = Some p \<and> op_doc p (dbDocs (store w' (cAddr c) (cDB c)) (vector_key i a)))"
    by (rule redis_up.shard_after_writes [OF assms(1) run assms(3-5)])
  assume "answering up n m w c'" "ts \<noteq> []" "\<forall>t \<in> set ts. \<exists>p. t = Finished p"
  then show "\<exists>p. Finished p \<in> set ts \<and> op_doc p (dbDocs (store w' (cAddr c') (cDB c')) (vector_key i a))"
    by (rule redis_up.replica_after_writes [OF assms(1) run assms(2,4,5)])
next
  fix p q
  assume ts0: "ts0 = [Writing p, Writing q]"
  have "op_finite p" "op_finite q" "op_id p = a" "op_id q = a" using assms(5) by (simp_all add: ts0)
  from redis_up.diverging_run [OF assms(1-4) this, of i n]
  obtain m' w' where run: "(write_step exec i n c)\<^sup>*\<^sup>* (ts0, m, w) ([Finished p, Finished q], m', w')"
    and q: "op_doc q (dbDocs (store w' (cAddr c) (cDB c)) (vector_key i a))"
    and serve: "\<And>addrs j0 c'. serves up c n addrs j0 c' (m, w) \<Longrightarrow> op_doc p (dbDocs (store w' (cAddr c') (cDB c')) (vector_key i a))"
    unfolding ts0 by blast
  have "op_doc p (dbDocs (store w' (cAddr c') (cDB c')) (vector_key i a))" if "answering up n m w c'" for c'
    using answering_serves [OF that assms(2,4)] serve by blast
  then show "\<exists>m' w'. (write_step exec i n c)\<^sup>*\<^sup>* (ts0, m, w) ([Finished p, Finished q], m', w')
      \<and> op_doc q (dbDocs (store w' (cAddr c) (cDB c)) (vector_key i a))
      \<and> (\<forall>c'. answering up n m w c' \<longrightarrow> op_doc p (dbDocs (store w' (cAddr c') (cDB c')) (vector_key i a)))"
    using run q by blast
qed

text \<open>An insert that overlaps a delete: the shard is left without the vector, the replica with it.\<close>

theorem concurrent_writes_witness:
  "\<exists>m' w' x. (write_step mem_exec ''i'' 1 demo_conn1)\<^sup>*\<^sup>*
       ([Writing (Put demo_vector), Writing (Del ''c'')], demo_rm, mem_empty [])
       ([Finished (Put demo_vector), Finished (Del ''c'')], m', w')
     \<and> dbDocs (mem_store w' ''r1'' 1) (vector_key ''i'' ''c'') = None
     \<and> ToBytes demo_vector = Inr x \<and> dbDocs (mem_store w' ''p2'' 0) (vector_key ''i'' ''c'') = Some x"
proof -
  let ?ts = "[Writing (Put demo_vector), Writing (Del ''c'')]"
  have up: "mem_up (mem_empty []) k" for k by (simp add: mem_up_def mem_empty_def)
  have ts: "\<forall>t \<in> set ?ts. starting t \<and> op_id (thread_op t) = ''c'' \<and> op_finite (thread_op t)"
    using demo_finite by (simp add: demo_vector_def)
  have parts: "cAddr demo_conn1 = ''r1''" "cDB demo_conn1 = 1" "cAddr (demo_conn\<lparr>cAddr := ''p2''\<rparr>) = ''p2''"
    "cDB (demo_conn\<lparr>cAddr := ''p2''\<rparr>) = 0"
    by (simp_all add: demo_conn1_def demo_conn_def)
  have "answering mem_up 1 demo_rm (mem_empty []) (demo_conn\<lparr>cAddr := ''p2''\<rparr>)"
    by (simp add: answering_def up)
  with concurrent_writes [OF mem.redis_up_axioms demo_rm_ok up demo_foreign ts, of "''i''" 1, THEN conjunct2]
  show ?thesis by (fastforce simp: parts)
qed

text \<open>C5: Overlapping writes of one shard always come to an end, whatever the servers answer: with \<open>l\<close>
  replicas no run takes more than \<open>2 * l + 3\<close> steps a handler, and a run is stuck only when
  every handler has answered.\<close>

theorem writes_terminate:
  assumes "rep_ok m" "\<forall>t \<in> set ts0. starting t" "(write_step exec i n c ^^ k) (ts0, m, w) (ts, m', w')"
  shows "k \<le> length ts0 * (2 * length (group_of (rmReplicas m) n) + 3)
    \<and> ((\<exists>s. write_step exec i n c (ts, m', w') s) \<longleftrightarrow> (\<exists>t \<in> set ts. \<not> write_done t))"
proof -
  note start = starting_within [OF assms(1,2) refl, of n w]
  note run = write_runs [OF assms(3) start [THEN conjunct1]]
  have "k \<le> length ts0 * (2 * length (group_of (rmReplicas m) n) + 3)" using run start by linarith
  then show ?thesis using write_step_progress [OF run [THEN conjunct1]] write_step_moves by blast
qed

theorem writes_terminate_witness:
  "\<exists>ts m' w'. (write_step mem_exec ''i'' 1 demo_conn1 ^^ 1) ([Updating demo_vector, Writing (Del ''c'')], demo_rm, mem_empty [''r1'']) (ts, m', w')
     \<and> (\<exists>s. write_step mem_exec ''i'' 1 demo_conn1 (ts, m', w') s)"
proof -
  let ?ts = "[Updating demo_vector, Writing (Del ''c'')]"
  obtain e w' where "DeleteVector mem_exec demo_conn1 ''i'' (vID demo_vector) (mem_empty [''r1'']) = (e, w')" by fastforce
  then have "write_step mem_exec ''i'' 1 demo_conn1 (?ts, demo_rm, mem_empty [''r1'']) (?ts[0 := Cleared demo_vector], demo_rm, w')"
    by (intro write_step.clear) simp_all
  then have run: "(write_step mem_exec ''i'' 1 demo_conn1 ^^ 1) (?ts, demo_rm, mem_empty [''r1'']) (?ts[0 := Cleared demo_vector], demo_rm, w')"
    by (simp add: eq_OO del: list_update_code)
  have "\<forall>t \<in> set ?ts. starting t" by simp
  from writes_terminate [OF demo_rm_ok this run] run show ?thesis by fastforce
qed

end
