(* ===== verification/Health.thy ===== *)
theory Health
  imports Shard_Manager Replication Metrics
begin

text \<open>
  \<open>internal/server/health.go\<close>: the health report and the three HTTP handlers. The two
  interfaces of the checker are parameters of \<open>Check\<close>, instantiated below with the shard
  manager and the replication manager. Percentages and lags are \<open>float64\<close>, computed bit by bit.
  The JSON body and the headers are not modelled; a handler is its status code and, where it
  is fixed, its body.
\<close>

section \<open>Reports\<close>

record shard_health =
  shID :: int
  shNode :: string
  shStatus :: string
  shVectorCount :: int
  shLastCheck :: int
  shHealthy :: bool

record replication_health =
  rhTotalReplicas :: nat
  rhActiveReplicas :: nat
  rhFailedReplicas :: nat
  rhAverageLag :: float64
  rhHealthy :: bool

record overall_health =
  ohHealthy :: bool
  ohTotalShards :: nat
  ohHealthyShards :: nat
  ohHealthPercentage :: float64
  ohMessage :: string

record health_response =
  hrStatus :: string
  hrTimestamp :: int
  hrVersion :: string
  hrShards :: "shard_health list"
  hrReplication :: replication_health
  hrOverall :: overall_health

section \<open>The check\<close>

text \<open>\<open>x < y\<close> and \<open>x >= y\<close> on \<open>float64\<close>; both are false for a NaN.\<close>

definition f64_ge :: "float64 \<Rightarrow> float64 \<Rightarrow> bool" where
  "f64_ge x y \<longleftrightarrow> fp_lt f64fmt (f64_int y) (f64_int x) \<or> fp_eq f64fmt (f64_int x) (f64_int y)"

definition shard_report :: "shard_info \<Rightarrow> shard_health" where
  "shard_report s = \<lparr>shID = siID s, shNode = siNode s, shStatus = siStatus s, shVectorCount = siVectorCount s,
     shLastCheck = siLastHealthCheck s, shHealthy = (siStatus s = ''active'')\<rparr>"

text \<open>The counters over one replica: total, active, failed, and the lags in milliseconds.\<close>

definition count_replica :: "replica_node \<Rightarrow> nat \<times> nat \<times> nat \<times> int \<Rightarrow> nat \<times> nat \<times> nat \<times> int" where
  "count_replica r c =
     (case c of (n, active, bad, lag) \<Rightarrow>
        (Suc n, if rnStatus r = ''active'' then Suc active else active,
         if rnStatus r = ''active'' then bad else Suc bad,
         int64_of (lag + quot_trunc (rnLag r) 1000000)))"

definition count_replicas :: "(int \<Rightarrow> replica_node list res) \<Rightarrow> shard_info list \<Rightarrow> nat \<times> nat \<times> nat \<times> int" where
  "count_replicas status shards =
     fold (\<lambda>s c. case status (siID s) of Inl _ \<Rightarrow> c | Inr replicas \<Rightarrow> fold count_replica replicas c) shards (0, 0, 0, 0)"

definition replication_report :: "(int \<Rightarrow> replica_node list res) \<Rightarrow> shard_info list \<Rightarrow> replication_health" where
  "replication_report status shards =
     (case count_replicas status shards of
        (n, active, bad, lag) \<Rightarrow>
          let averageLag = (if n > 0 then f64_div (f64_of_int lag) (f64_of_int (int n)) else f64_zero)
          in \<lparr>rhTotalReplicas = n, rhActiveReplicas = active, rhFailedReplicas = bad,
              rhAverageLag = averageLag, rhHealthy = (bad = 0 \<and> f64_lt averageLag (f64_of_int 1000))\<rparr>)"

definition health_percentage :: "nat \<Rightarrow> nat \<Rightarrow> float64" where
  "health_percentage healthy n =
     (if n > 0 then f64_mul (f64_div (f64_of_int (int healthy)) (f64_of_int (int n))) (f64_of_int 100)
      else f64_zero)"

text \<open>Status and message, from the percentage and the health of the replication.\<close>

definition verdict :: "float64 \<Rightarrow> bool \<Rightarrow> bool \<times> string \<times> string" where
  "verdict percentage replicationHealthy =
     (let overallHealthy = f64_ge percentage (f64_of_int 50) \<and> replicationHealthy
      in if \<not> overallHealthy
         then (False, ''unhealthy'',
               if f64_lt percentage (f64_of_int 50) then ''Less than 50% of shards are healthy''
               else if \<not> replicationHealthy then ''Replication issues detected''
               else ''All systems operational'')
         else if f64_lt percentage (f64_of_int 100)
         then (True, ''degraded'', ''Some shards are unhealthy but system is operational'')
         else (True, ''healthy'', ''All systems operational''))"

definition Check :: "shard_info list \<Rightarrow> shard_info list \<Rightarrow> (int \<Rightarrow> replica_node list res) \<Rightarrow> int \<Rightarrow> health_response" where
  "Check allShards healthyShards status now =
     (let rep = replication_report status allShards;
          percentage = health_percentage (length healthyShards) (length allShards)
      in case verdict percentage (rhHealthy rep) of
           (overallHealthy, stat, message) \<Rightarrow>
             \<lparr>hrStatus = stat, hrTimestamp = now, hrVersion = ''1.0.0'', hrShards = map shard_report allShards,
              hrReplication = rep,
              hrOverall = \<lparr>ohHealthy = overallHealthy, ohTotalShards = length allShards,
                ohHealthyShards = length healthyShards, ohHealthPercentage = percentage, ohMessage = message\<rparr>\<rparr>)"

text \<open>The checker of \<open>main\<close>: over the shard manager and the replication manager.\<close>

definition CheckManagers :: "shard_order \<Rightarrow> shard_order \<Rightarrow> shard_manager \<Rightarrow> replication_manager \<Rightarrow> int \<Rightarrow> health_response" where
  "CheckManagers order order' sm rm now =
     Check (GetAllShards order sm) (GetHealthyShards order' sm) (\<lambda>shardID. GetReplicaStatus shardID rm) now"

section \<open>HTTP\<close>

definition HTTPHandler :: "health_response \<Rightarrow> int" where
  "HTTPHandler health =
     (if hrStatus health = ''unhealthy'' then 503 else if hrStatus health = ''degraded'' then 200 else 200)"

definition LivenessHandler :: "int \<times> string" where
  "LivenessHandler = (200, ''OK'')"

definition ReadinessHandler :: "health_response \<Rightarrow> int \<times> string" where
  "ReadinessHandler health = (if ohHealthy (hrOverall health) then (200, ''Ready'') else (503, ''Not Ready''))"

section \<open>Facts\<close>

lemma verdict_cases:
  "verdict p r = (h, st, msg) \<Longrightarrow> (h \<longleftrightarrow> f64_ge p (f64_of_int 50) \<and> r) \<and> (h \<longleftrightarrow> st \<noteq> ''unhealthy'')"
  by (auto simp: verdict_def Let_def split: if_splits)

text \<open>Readiness and the status page never disagree.\<close>

lemma handlers_agree: "fst (ReadinessHandler (Check xs ys status now)) = HTTPHandler (Check xs ys status now)"
  by (auto simp: Check_def Let_def ReadinessHandler_def HTTPHandler_def split: prod.split dest: verdict_cases)

text \<open>Every replica is counted once, as active or as failed.\<close>

definition counted :: "nat \<times> nat \<times> nat \<times> int \<Rightarrow> bool" where
  "counted c \<longleftrightarrow> (case c of (n, active, bad, _) \<Rightarrow> n = active + bad)"

lemma count_replica_counted: "counted c \<Longrightarrow> counted (count_replica r c)"
  by (auto simp: counted_def count_replica_def split: prod.splits)

lemma count_all_counted: "counted c \<Longrightarrow> counted (fold count_replica rs c)"
  by (induction rs arbitrary: c) (simp_all add: count_replica_counted)

lemma count_replicas_counted: "counted (count_replicas status shards)"
proof -
  have "counted c \<Longrightarrow> counted (fold (\<lambda>s c. case status (siID s) of Inl _ \<Rightarrow> c | Inr replicas \<Rightarrow> fold count_replica replicas c) shards c)" for c
    by (induction shards arbitrary: c) (auto simp: count_all_counted split: sum.split)
  then show ?thesis unfolding count_replicas_def by (simp add: counted_def)
qed

end
