(* ===== verification/Config.thy ===== *)
theory Config
  imports Prelude
begin

text \<open>
  \<open>internal/config/config.go\<close>: the configuration, its defaults and its validation. Reading
  files and the environment is Viper's, whose calls are the parameter \<open>'v viper\<close> of \<open>Load\<close>,
  as is \<open>os.Stat\<close>. The keys of the settings are the struct tags, from which
  \<open>decode_config\<close> fills the structs.
\<close>

record server_config =
  scGRPCPort :: int
  scMetricsPort :: int
  scMaxMessageSizeMB :: int
  scMaxConcurrentStreams :: int
  scConnectionTimeout :: int
  scKeepAliveTime :: int
  scKeepAliveTimeout :: int
  scTLSEnabled :: bool
  scTLSCertFile :: string
  scTLSKeyFile :: string

record redis_config =
  rdAddresses :: "string list"
  rdPassword :: string
  rdDB :: int
  rdPoolSize :: int
  rdMinIdleConns :: int
  rdMaxRetries :: int
  rdDialTimeout :: int
  rdReadTimeout :: int
  rdWriteTimeout :: int
  rdClusterMode :: bool
  rdSentinelMode :: bool
  rdSentinelMasterName :: string

record sharding_config =
  shcShardCount :: int
  shcReplicaCount :: int
  shcVirtualNodes :: int
  shcHealthCheckIntervalSeconds :: int
  shcRebalanceEnabled :: bool
  shcRebalanceIntervalMinutes :: int

record replication_settings =
  rsFactor :: int
  rsSyncIntervalSeconds :: int
  rsMaxLagSeconds :: int
  rsFailoverTimeoutSeconds :: int
  rsReplicaAddresses :: "string list"
  rsAsyncReplication :: bool
  rsCompressionEnabled :: bool

text \<open>\<open>HistogramBuckets\<close> is never read; its elements are kept as bit patterns.\<close>

record metrics_config =
  mcEnabled :: bool
  mcNamespace :: string
  mcSubsystem :: string
  mcHistogramBuckets :: "64 word list"
  mcCollectionInterval :: int
  mcEnableDetailedMetrics :: bool

record logging_config =
  lcLevel :: string
  lcFormat :: string
  lcOutputPath :: string
  lcErrorOutputPath :: string
  lcEnableStacktrace :: bool
  lcEnableCaller :: bool
  lcEnableSampling :: bool
  lcSamplingInitial :: int
  lcSamplingThereafter :: int

record performance_config =
  pcMaxCPU :: int
  pcMaxMemoryGB :: int
  pcEnableProfiling :: bool
  pcProfilingPort :: int
  pcGCPercent :: int
  pcEnableMemoryLimit :: bool
  pcVectorCacheSize :: int
  pcIndexCacheSize :: int
  pcQueryCacheEnabled :: bool
  pcQueryCacheTTL :: int

record config =
  cgServer :: server_config
  cgRedis :: redis_config
  cgSharding :: sharding_config
  cgReplication :: replication_settings
  cgMetrics :: metrics_config
  cgLogging :: logging_config
  cgPerformance :: performance_config

section \<open>Defaults\<close>

text \<open>The configuration when there is no file.\<close>

definition defaultConfig :: config where
  "defaultConfig =
     \<lparr>cgServer = \<lparr>scGRPCPort = 50051, scMetricsPort = 9090, scMaxMessageSizeMB = 100,
        scMaxConcurrentStreams = 1000, scConnectionTimeout = 30, scKeepAliveTime = 10, scKeepAliveTimeout = 5,
        scTLSEnabled = False, scTLSCertFile = [], scTLSKeyFile = []\<rparr>,
      cgRedis = \<lparr>rdAddresses = [''localhost:6379''], rdPassword = [], rdDB = 0, rdPoolSize = 100,
        rdMinIdleConns = 10, rdMaxRetries = 3, rdDialTimeout = 5, rdReadTimeout = 3, rdWriteTimeout = 3,
        rdClusterMode = False, rdSentinelMode = False, rdSentinelMasterName = []\<rparr>,
      cgSharding = \<lparr>shcShardCount = 8, shcReplicaCount = 2, shcVirtualNodes = 150,
        shcHealthCheckIntervalSeconds = 10, shcRebalanceEnabled = False, shcRebalanceIntervalMinutes = 0\<rparr>,
      cgReplication = \<lparr>rsFactor = 2, rsSyncIntervalSeconds = 5, rsMaxLagSeconds = 30, rsFailoverTimeoutSeconds = 60,
        rsReplicaAddresses = [''localhost:6380'', ''localhost:6381''], rsAsyncReplication = False,
        rsCompressionEnabled = False\<rparr>,
      cgMetrics = \<lparr>mcEnabled = True, mcNamespace = ''vectorhub'', mcSubsystem = ''server'', mcHistogramBuckets = [],
        mcCollectionInterval = 10, mcEnableDetailedMetrics = False\<rparr>,
      cgLogging = \<lparr>lcLevel = ''info'', lcFormat = ''json'', lcOutputPath = [], lcErrorOutputPath = [],
        lcEnableStacktrace = False, lcEnableCaller = False, lcEnableSampling = False, lcSamplingInitial = 0,
        lcSamplingThereafter = 0\<rparr>,
      cgPerformance = \<lparr>pcMaxCPU = 0, pcMaxMemoryGB = 0, pcEnableProfiling = False, pcProfilingPort = 0,
        pcGCPercent = 100, pcEnableMemoryLimit = False, pcVectorCacheSize = 1024, pcIndexCacheSize = 512,
        pcQueryCacheEnabled = False, pcQueryCacheTTL = 60\<rparr>\<rparr>"

section \<open>Settings by key\<close>

datatype setting = SInt int | SStr string | SBool bool | SStrs "string list" | SFloats "64 word list"

type_synonym settings = "string \<Rightarrow> setting option"

text \<open>What the tags of the structs say: each field is decoded from its key, and is zero without one.\<close>

definition int_at :: "settings \<Rightarrow> string \<Rightarrow> int" where
  "int_at s key = (case s key of Some (SInt i) \<Rightarrow> i | _ \<Rightarrow> 0)"

definition str_at :: "settings \<Rightarrow> string \<Rightarrow> string" where
  "str_at s key = (case s key of Some (SStr x) \<Rightarrow> x | _ \<Rightarrow> [])"

definition bool_at :: "settings \<Rightarrow> string \<Rightarrow> bool" where
  "bool_at s key = (case s key of Some (SBool b) \<Rightarrow> b | _ \<Rightarrow> False)"

definition strs_at :: "settings \<Rightarrow> string \<Rightarrow> string list" where
  "strs_at s key = (case s key of Some (SStrs xs) \<Rightarrow> xs | _ \<Rightarrow> [])"

definition floats_at :: "settings \<Rightarrow> string \<Rightarrow> 64 word list" where
  "floats_at s key = (case s key of Some (SFloats xs) \<Rightarrow> xs | _ \<Rightarrow> [])"

definition decode_server :: "settings \<Rightarrow> server_config" where
  "decode_server s =
     \<lparr>scGRPCPort = int_at s ''server.grpc_port'', scMetricsPort = int_at s ''server.metrics_port'',
      scMaxMessageSizeMB = int_at s ''server.max_message_size_mb'',
      scMaxConcurrentStreams = int_at s ''server.max_concurrent_streams'',
      scConnectionTimeout = int_at s ''server.connection_timeout_seconds'',
      scKeepAliveTime = int_at s ''server.keepalive_time_seconds'',
      scKeepAliveTimeout = int_at s ''server.keepalive_timeout_seconds'',
      scTLSEnabled = bool_at s ''server.tls_enabled'', scTLSCertFile = str_at s ''server.tls_cert_file'',
      scTLSKeyFile = str_at s ''server.tls_key_file''\<rparr>"

definition decode_redis :: "settings \<Rightarrow> redis_config" where
  "decode_redis s =
     \<lparr>rdAddresses = strs_at s ''redis.addresses'', rdPassword = str_at s ''redis.password'', rdDB = int_at s ''redis.db'',
      rdPoolSize = int_at s ''redis.pool_size'', rdMinIdleConns = int_at s ''redis.min_idle_conns'',
      rdMaxRetries = int_at s ''redis.max_retries'', rdDialTimeout = int_at s ''redis.dial_timeout_seconds'',
      rdReadTimeout = int_at s ''redis.read_timeout_seconds'', rdWriteTimeout = int_at s ''redis.write_timeout_seconds'',
      rdClusterMode = bool_at s ''redis.cluster_mode'', rdSentinelMode = bool_at s ''redis.sentinel_mode'',
      rdSentinelMasterName = str_at s ''redis.sentinel_master_name''\<rparr>"

definition decode_sharding :: "settings \<Rightarrow> sharding_config" where
  "decode_sharding s =
     \<lparr>shcShardCount = int_at s ''sharding.shard_count'', shcReplicaCount = int_at s ''sharding.replica_count'',
      shcVirtualNodes = int_at s ''sharding.virtual_nodes'',
      shcHealthCheckIntervalSeconds = int_at s ''sharding.health_check_interval_seconds'',
      shcRebalanceEnabled = bool_at s ''sharding.rebalance_enabled'',
      shcRebalanceIntervalMinutes = int_at s ''sharding.rebalance_interval_minutes''\<rparr>"

definition decode_replication :: "settings \<Rightarrow> replication_settings" where
  "decode_replication s =
     \<lparr>rsFactor = int_at s ''replication.factor'', rsSyncIntervalSeconds = int_at s ''replication.sync_interval_seconds'',
      rsMaxLagSeconds = int_at s ''replication.max_lag_seconds'',
      rsFailoverTimeoutSeconds = int_at s ''replication.failover_timeout_seconds'',
      rsReplicaAddresses = strs_at s ''replication.replica_addresses'',
      rsAsyncReplication = bool_at s ''replication.async_replication'',
      rsCompressionEnabled = bool_at s ''replication.compression_enabled''\<rparr>"

definition decode_metrics :: "settings \<Rightarrow> metrics_config" where
  "decode_metrics s =
     \<lparr>mcEnabled = bool_at s ''metrics.enabled'', mcNamespace = str_at s ''metrics.namespace'',
      mcSubsystem = str_at s ''metrics.subsystem'', mcHistogramBuckets = floats_at s ''metrics.histogram_buckets'',
      mcCollectionInterval = int_at s ''metrics.collection_interval_seconds'',
      mcEnableDetailedMetrics = bool_at s ''metrics.enable_detailed_metrics''\<rparr>"

definition decode_logging :: "settings \<Rightarrow> logging_config" where
  "decode_logging s =
     \<lparr>lcLevel = str_at s ''logging.level'', lcFormat = str_at s ''logging.format'',
      lcOutputPath = str_at s ''logging.output_path'', lcErrorOutputPath = str_at s ''logging.error_output_path'',
      lcEnableStacktrace = bool_at s ''logging.enable_stacktrace'', lcEnableCaller = bool_at s ''logging.enable_caller'',
      lcEnableSampling = bool_at s ''logging.enable_sampling'', lcSamplingInitial = int_at s ''logging.sampling_initial'',
      lcSamplingThereafter = int_at s ''logging.sampling_thereafter''\<rparr>"

definition decode_performance :: "settings \<Rightarrow> performance_config" where
  "decode_performance s =
     \<lparr>pcMaxCPU = int_at s ''performance.max_cpu'', pcMaxMemoryGB = int_at s ''performance.max_memory_gb'',
      pcEnableProfiling = bool_at s ''performance.enable_profiling'',
      pcProfilingPort = int_at s ''performance.profiling_port'', pcGCPercent = int_at s ''performance.gc_percent'',
      pcEnableMemoryLimit = bool_at s ''performance.enable_memory_limit'',
      pcVectorCacheSize = int_at s ''performance.vector_cache_size_mb'',
      pcIndexCacheSize = int_at s ''performance.index_cache_size_mb'',
      pcQueryCacheEnabled = bool_at s ''performance.query_cache_enabled'',
      pcQueryCacheTTL = int_at s ''performance.query_cache_ttl_seconds''\<rparr>"

definition decode_config :: "settings \<Rightarrow> config" where
  "decode_config s =
     \<lparr>cgServer = decode_server s, cgRedis = decode_redis s, cgSharding = decode_sharding s,
      cgReplication = decode_replication s, cgMetrics = decode_metrics s, cgLogging = decode_logging s,
      cgPerformance = decode_performance s\<rparr>"

section \<open>Loading\<close>

text \<open>The calls of \<open>SetDefault\<close>, in their order.\<close>

definition default_settings :: "(string \<times> setting) list" where
  "default_settings =
     [(''server.grpc_port'', SInt 50051), (''server.metrics_port'', SInt 9090), (''server.max_message_size_mb'', SInt 100),
      (''server.max_concurrent_streams'', SInt 1000), (''server.connection_timeout_seconds'', SInt 30),
      (''server.keepalive_time_seconds'', SInt 10), (''server.keepalive_timeout_seconds'', SInt 5),
      (''redis.addresses'', SStrs [''localhost:6379'']), (''redis.db'', SInt 0), (''redis.pool_size'', SInt 100),
      (''redis.min_idle_conns'', SInt 10), (''redis.max_retries'', SInt 3), (''redis.dial_timeout_seconds'', SInt 5),
      (''redis.read_timeout_seconds'', SInt 3), (''redis.write_timeout_seconds'', SInt 3),
      (''sharding.shard_count'', SInt 8), (''sharding.replica_count'', SInt 2), (''sharding.virtual_nodes'', SInt 150),
      (''sharding.health_check_interval_seconds'', SInt 10),
      (''replication.factor'', SInt 2), (''replication.sync_interval_seconds'', SInt 5),
      (''replication.max_lag_seconds'', SInt 30), (''replication.failover_timeout_seconds'', SInt 60),
      (''metrics.enabled'', SBool True), (''metrics.namespace'', SStr ''vectorhub''), (''metrics.subsystem'', SStr ''server''),
      (''metrics.collection_interval_seconds'', SInt 10),
      (''logging.level'', SStr ''info''), (''logging.format'', SStr ''json''),
      (''performance.gc_percent'', SInt 100), (''performance.vector_cache_size_mb'', SInt 1024),
      (''performance.index_cache_size_mb'', SInt 512), (''performance.query_cache_ttl_seconds'', SInt 60)]"

text \<open>
  The outside world: \<open>os.Stat\<close>, and the calls on the process's Viper, whose state is the
  parameter \<open>'v\<close>. \<open>MergeInConfig\<close> and \<open>ReadInConfig\<close> are given the file and type set
  before; a failed merge leaves Viper as it is.
\<close>

datatype stat_result = Found | NotExist | StatError

datatype read_error = ConfigFileNotFound | ReadError string

record 'v viper =
  vpMerge :: "string \<Rightarrow> 'v \<Rightarrow> string + 'v"
  vpAutomaticEnv :: "string \<Rightarrow> 'v \<Rightarrow> 'v"
  vpSetDefault :: "string \<Rightarrow> setting \<Rightarrow> 'v \<Rightarrow> 'v"
  vpRead :: "string \<Rightarrow> 'v \<Rightarrow> read_error option \<times> 'v"
  vpUnmarshal :: "'v \<Rightarrow> config res outcome"

text \<open>The first file that exists and is merged ends the loop; \<open>filepath.Join(".", ".env")\<close> is \<open>.env\<close>.\<close>

fun load_env_paths :: "(string \<Rightarrow> stat_result) \<Rightarrow> 'v viper \<Rightarrow> string list \<Rightarrow> 'v \<Rightarrow> 'v" where
  "load_env_paths stat vp [] v = v"
| "load_env_paths stat vp (p # ps) v =
     (if stat p = Found
      then (case vpMerge vp p v of Inr v' \<Rightarrow> v' | Inl _ \<Rightarrow> load_env_paths stat vp ps v)
      else load_env_paths stat vp ps v)"

definition loadEnvFile :: "(string \<Rightarrow> stat_result) \<Rightarrow> 'v viper \<Rightarrow> 'v \<Rightarrow> 'v" where
  "loadEnvFile stat vp v = load_env_paths stat vp [''.env'', ''.env.local'', ''.env''] v"

text \<open>An error of \<open>os.Stat\<close> other than a missing file is left to \<open>ReadInConfig\<close>.\<close>

definition Load :: "(string \<Rightarrow> stat_result) \<Rightarrow> 'v viper \<Rightarrow> string \<Rightarrow> 'v \<Rightarrow> config res outcome" where
  "Load stat vp configPath v =
     (let path = (if configPath = [] then ''configs/config.yaml'' else configPath);
          v1 = loadEnvFile stat vp v
      in if stat path = NotExist then Returns (Inr defaultConfig)
         else let v2 = fold (\<lambda>(key, x). vpSetDefault vp key x) default_settings (vpAutomaticEnv vp ''VECTORHUB'' v1)
         in case vpRead vp path v2 of
              (Some (ReadError e), _) \<Rightarrow> Returns (Inl (''error reading config file: '' @ e))
            | (_, v3) \<Rightarrow>
                (case vpUnmarshal vp v3 of
                   Crashes e \<Rightarrow> Crashes e
                 | Returns (Inl e) \<Rightarrow> Returns (Inl (''error unmarshaling config: '' @ e))
                 | Returns (Inr c) \<Rightarrow> Returns (Inr c)))"

section \<open>Validation\<close>

definition ValidateConfig :: "config \<Rightarrow> string option" where
  "ValidateConfig c =
     (if scGRPCPort (cgServer c) \<le> 0 \<or> scGRPCPort (cgServer c) > 65535
      then Some (''invalid gRPC port: '' @ fmt_d (scGRPCPort (cgServer c)))
      else if scMetricsPort (cgServer c) \<le> 0 \<or> scMetricsPort (cgServer c) > 65535
      then Some (''invalid metrics port: '' @ fmt_d (scMetricsPort (cgServer c)))
      else if rdAddresses (cgRedis c) = [] then Some ''at least one Redis address is required''
      else if shcShardCount (cgSharding c) \<le> 0 then Some ''shard count must be positive''
      else if shcVirtualNodes (cgSharding c) \<le> 0 then Some ''virtual nodes count must be positive''
      else None)"

lemma ValidateConfig_None: "ValidateConfig c = None \<longleftrightarrow>
    0 < scGRPCPort (cgServer c) \<and> scGRPCPort (cgServer c) \<le> 65535
  \<and> 0 < scMetricsPort (cgServer c) \<and> scMetricsPort (cgServer c) \<le> 65535
  \<and> rdAddresses (cgRedis c) \<noteq> [] \<and> 0 < shcShardCount (cgSharding c) \<and> 0 < shcVirtualNodes (cgSharding c)"
  by (auto simp: ValidateConfig_def)

section \<open>Facts on loading\<close>

text \<open>The third path is the first one again: it is never the one that helps.\<close>

lemma loadEnvFile_two: "loadEnvFile stat vp v = load_env_paths stat vp [''.env'', ''.env.local''] v"
  by (auto simp: loadEnvFile_def split: sum.split)

text \<open>
  What Viper is documented to do with a file that it can read and decode: the default of a key
  is what was registered last, merging, reading and the environment leave the defaults alone, and
  \<open>Unmarshal\<close> takes for each key what the sources set (\<open>file\<close>), or else its default.
\<close>

definition viper_reads :: "'v viper \<Rightarrow> ('v \<Rightarrow> settings) \<Rightarrow> settings \<Rightarrow> bool" where
  "viper_reads vp defs file \<longleftrightarrow>
     (\<forall>p v v'. vpMerge vp p v = Inr v' \<longrightarrow> defs v' = defs v)
   \<and> (\<forall>prefix v. defs (vpAutomaticEnv vp prefix v) = defs v)
   \<and> (\<forall>key x v. defs (vpSetDefault vp key x v) = (defs v)(key \<mapsto> x))
   \<and> (\<forall>p v. \<exists>v'. vpRead vp p v = (None, v') \<and> vpUnmarshal vp v' = Returns (Inr (decode_config (defs v ++ file))))"

lemma fold_defaults:
  assumes "viper_reads vp defs file"
  shows "distinct (map fst xs) \<Longrightarrow> defs (fold (\<lambda>(key, x). vpSetDefault vp key x) xs v) = defs v ++ map_of xs"
proof (induction xs arbitrary: v)
  case (Cons kx xs)
  obtain k x where kx: "kx = (k, x)" by fastforce
  have "map_of xs k = None" using Cons.prems by (simp add: kx map_of_eq_None_iff)
  then show ?case using Cons assms by (auto simp: kx viper_reads_def map_add_def fun_eq_iff split: option.split)
qed simp

lemma default_keys: "distinct (map fst default_settings)"
  by (simp add: default_settings_def)

lemma env_defaults: "viper_reads vp defs file \<Longrightarrow> defs (load_env_paths stat vp ps v) = defs v"
  by (induction ps) (auto simp: viper_reads_def split: sum.split)

lemma Load_read:
  assumes "viper_reads vp defs file" "stat (if path = [] then ''configs/config.yaml'' else path) \<noteq> NotExist"
  shows "Load stat vp path v = Returns (Inr (decode_config (defs v ++ map_of default_settings ++ file)))"
proof -
  let ?path = "if path = [] then ''configs/config.yaml'' else path"
  let ?v = "fold (\<lambda>(key, x). vpSetDefault vp key x) default_settings (vpAutomaticEnv vp ''VECTORHUB'' (loadEnvFile stat vp v))"
  have "defs (loadEnvFile stat vp v) = defs v"
    unfolding loadEnvFile_def by (rule env_defaults [OF assms(1)])
  then have "defs (vpAutomaticEnv vp ''VECTORHUB'' (loadEnvFile stat vp v)) = defs v"
    using assms(1) by (simp add: viper_reads_def)
  then have d: "defs ?v = defs v ++ map_of default_settings"
    by (simp add: fold_defaults [OF assms(1) default_keys])
  obtain v' where "vpRead vp ?path ?v = (None, v')" "vpUnmarshal vp v' = Returns (Inr (decode_config (defs ?v ++ file)))"
    using assms(1) unfolding viper_reads_def by meson
  then show ?thesis using assms(2) by (simp add: Load_def Let_def d)
qed

lemma default_config_decoded: "decode_config (map_of default_settings)
    = defaultConfig\<lparr>cgReplication := (cgReplication defaultConfig)\<lparr>rsReplicaAddresses := []\<rparr>\<rparr>"
  by code_simp

end
