(* ===== verification/Server_Main.thy ===== *)
theory Server_Main
  imports Service_Refinement Health Config
begin

text \<open>
  \<open>cmd/vectorhub/main.go\<close>: how the server is put together. The configuration becomes the two
  managers' configurations, replicas are registered shard by shard and address by address,
  and the service starts without indexes. Listening and loading a key pair are parameters; what
  gRPC does with its options is not modelled. \<open>logger.Fatal\<close> ends the process.
\<close>

section \<open>Configuration\<close>

text \<open>Seconds become nanoseconds, in an \<open>int64\<close> that wraps around.\<close>

definition shard_config_of :: "config \<Rightarrow> shard_config" where
  "shard_config_of cfg =
     \<lparr>cfShardCount = shcShardCount (cgSharding cfg), cfReplicaCount = shcReplicaCount (cgSharding cfg),
      cfVirtualNodes = shcVirtualNodes (cgSharding cfg),
      cfHealthCheckInterval = int64_of (shcHealthCheckIntervalSeconds (cgSharding cfg) * 1000000000),
      cfRedisAddresses = rdAddresses (cgRedis cfg), cfRedisPassword = rdPassword (cgRedis cfg),
      cfRedisDB = rdDB (cgRedis cfg)\<rparr>"

definition replication_config_of :: "config \<Rightarrow> replication_config" where
  "replication_config_of cfg =
     \<lparr>rcReplicationFactor = rsFactor (cgReplication cfg),
      rcSyncInterval = int64_of (rsSyncIntervalSeconds (cgReplication cfg) * 1000000000),
      rcMaxLag = int64_of (rsMaxLagSeconds (cgReplication cfg) * 1000000000),
      rcFailoverTimeout = int64_of (rsFailoverTimeoutSeconds (cgReplication cfg) * 1000000000),
      rcRedisPassword = rdPassword (cgRedis cfg), rcRedisDB = rdDB (cgRedis cfg)\<rparr>"

section \<open>Registering the replicas\<close>

text \<open>The \<open>j\<close>-th address of shard \<open>i\<close>; an error is only logged.\<close>

definition replica_for :: "(nat \<Rightarrow> nat \<Rightarrow> int) \<Rightarrow> nat \<Rightarrow> nat \<Rightarrow> string \<Rightarrow> replica_node" where
  "replica_for now i j addr =
     \<lparr>rnID = ''replica-'' @ fmt_d (int i) @ ''-'' @ fmt_d (int j), rnAddress = addr,
      rnRole = (if j = 0 then ''primary'' else ''secondary''), rnStatus = ''active'', rnLag = 0, rnLastSync = now i j\<rparr>"

definition register_shard :: "'w redis \<Rightarrow> (nat \<Rightarrow> nat \<Rightarrow> int) \<Rightarrow> string list \<Rightarrow> nat
    \<Rightarrow> replication_manager \<times> 'w \<Rightarrow> replication_manager \<times> 'w" where
  "register_shard exec now addrs i mw =
     fold (\<lambda>(j, addr) mw. snd (RegisterReplica exec (int i) (replica_for now i j addr) mw)) (enumerate 0 addrs) mw"

definition register_replicas :: "'w redis \<Rightarrow> (nat \<Rightarrow> nat \<Rightarrow> int) \<Rightarrow> config
    \<Rightarrow> replication_manager \<times> 'w \<Rightarrow> replication_manager \<times> 'w" where
  "register_replicas exec now cfg mw =
     fold (register_shard exec now (rsReplicaAddresses (cgReplication cfg))) [0..<nat (shcShardCount (cgSharding cfg))] mw"

section \<open>The servers' options\<close>

text \<open>The flags, and their values when they are not given.\<close>

record flags =
  flConfig :: string
  flPort :: int
  flMetricsPort :: int

definition default_flags :: flags where
  "default_flags = \<lparr>flConfig = ''configs/config.yaml'', flPort = 50051, flMetricsPort = 9090\<rparr>"

text \<open>A loaded key pair is opaque, \<open>'c\<close>. Durations are nanoseconds.\<close>

record 'c tls_config =
  tcCertificates :: "'c list"
  tcMinVersion :: string
  tcCipherSuites :: "string list"

record 'c server_options =
  soMinTime :: int
  soPermitWithoutStream :: bool
  soMaxConnectionIdle :: int
  soMaxConnectionAge :: int
  soMaxConnectionAgeGrace :: int
  soTime :: int
  soTimeout :: int
  soMaxRecvMsgSize :: int
  soMaxSendMsgSize :: int
  soMaxConcurrentStreams :: int
  soCreds :: "'c tls_config option"

definition serverOpts :: "'c tls_config option \<Rightarrow> 'c server_options" where
  "serverOpts creds =
     \<lparr>soMinTime = 5 * 1000000000, soPermitWithoutStream = True,
      soMaxConnectionIdle = 15 * 1000000000, soMaxConnectionAge = 30 * 1000000000,
      soMaxConnectionAgeGrace = 5 * 1000000000, soTime = 5 * 1000000000, soTimeout = 1000000000,
      soMaxRecvMsgSize = 100 * 1024 * 1024, soMaxSendMsgSize = 100 * 1024 * 1024,
      soMaxConcurrentStreams = 1000, soCreds = creds\<rparr>"

text \<open>TLS is set up if it is enabled; its files must be named and must load.\<close>

definition tls_creds :: "(string \<Rightarrow> string \<Rightarrow> string + 'c) \<Rightarrow> server_config \<Rightarrow> string + 'c tls_config option" where
  "tls_creds load_key_pair sc =
     (if scTLSEnabled sc
      then if scTLSCertFile sc = [] \<or> scTLSKeyFile sc = []
           then Inl ''TLS enabled but certificate files not provided''
           else (case load_key_pair (scTLSCertFile sc) (scTLSKeyFile sc) of
                   Inl e \<Rightarrow> Inl (''Failed to load TLS certificates'' @ e)
                 | Inr cert \<Rightarrow> Inr (Some
                     \<lparr>tcCertificates = [cert], tcMinVersion = ''VersionTLS12'',
                      tcCipherSuites = [''TLS_ECDHE_RSA_WITH_AES_256_GCM_SHA384'', ''TLS_ECDHE_RSA_WITH_AES_128_GCM_SHA256'',
                        ''TLS_ECDHE_ECDSA_WITH_AES_256_GCM_SHA384'', ''TLS_ECDHE_ECDSA_WITH_AES_128_GCM_SHA256'']\<rparr>))
      else Inr None)"

text \<open>The HTTP server: the status for a path, given that of Prometheus's own handler.\<close>

datatype http_route = MetricsRoute | HealthRoute | LivenessRoute | ReadinessRoute

definition http_routes :: "(string \<times> http_route) list" where
  "http_routes = [(''/metrics'', MetricsRoute), (''/health'', HealthRoute), (''/health/live'', LivenessRoute),
     (''/health/ready'', ReadinessRoute)]"

definition serve_http :: "int \<Rightarrow> health_response \<Rightarrow> string \<Rightarrow> int" where
  "serve_http metrics health path =
     (case map_of http_routes path of
        None \<Rightarrow> 404
      | Some MetricsRoute \<Rightarrow> metrics
      | Some HealthRoute \<Rightarrow> HTTPHandler health
      | Some LivenessRoute \<Rightarrow> fst LivenessHandler
      | Some ReadinessRoute \<Rightarrow> fst (ReadinessHandler health))"

section \<open>Start-up\<close>

text \<open>What is served: the service on one port, metrics and health on the other.\<close>

record 'c server =
  seService :: service
  sePort :: int
  seOptions :: "'c server_options"
  seMetricsPort :: int

text \<open>
  From the loaded configuration to the server, in the order of \<open>main\<close>: the collector, the two
  managers, the replicas, the listener, the credentials. \<open>register\<close> and \<open>reg\<close> are Prometheus and the
  registry of the process before, \<open>listen\<close> is \<open>net.Listen\<close> on a port.
\<close>

definition startup :: "'w redis \<Rightarrow> (nat \<Rightarrow> int) \<Rightarrow> (nat \<Rightarrow> nat \<Rightarrow> int) \<Rightarrow> (int \<Rightarrow> string option)
    \<Rightarrow> (string \<Rightarrow> string \<Rightarrow> string + 'c) \<Rightarrow> (metric_opts \<Rightarrow> 'r \<Rightarrow> 'r outcome) \<Rightarrow> flags \<Rightarrow> 'r \<Rightarrow> config res outcome \<Rightarrow> 'w
    \<Rightarrow> ('c server \<times> 'w) outcome" where
  "startup exec now now' listen load_key_pair register fl reg loaded w =
     (case loaded of
        Crashes e \<Rightarrow> Crashes e
      | Returns (Inl e) \<Rightarrow> Crashes (''Failed to load configuration'' @ e)
      | Returns (Inr cfg) \<Rightarrow>
     (case NewCollector register reg of
        Crashes e \<Rightarrow> Crashes e
      | Returns _ \<Rightarrow>
     (case NewShardManager exec now (shard_config_of cfg) w of
        Crashes e \<Rightarrow> Crashes e
      | Returns (sm, w1) \<Rightarrow>
     (case NewManager (replication_config_of cfg) of
        Crashes e \<Rightarrow> Crashes e
      | Returns rm \<Rightarrow>
     (case register_replicas exec now' cfg (rm, w1) of
        (rm', w2) \<Rightarrow>
     (case listen (flPort fl) of
        Some e \<Rightarrow> Crashes (''Failed to listen'' @ e)
      | None \<Rightarrow>
     (case tls_creds load_key_pair (cgServer cfg) of
        Inl e \<Rightarrow> Crashes e
      | Inr creds \<Rightarrow>
          Returns (\<lparr>seService = NewVectorService sm rm', sePort = flPort fl, seOptions = serverOpts creds,
            seMetricsPort = flMetricsPort fl\<rparr>, w2))))))))"

text \<open>At a signal, both managers close.\<close>

definition shutdown :: "service \<Rightarrow> service \<times> conn list" where
  "shutdown sv =
     (case Close (svShards sv) of (sm, cs) \<Rightarrow>
        case CloseManager (svReplication sv) of (rm, cs') \<Rightarrow> (sv\<lparr>svShards := sm, svReplication := rm\<rparr>, cs @ cs'))"

text \<open>
  Serving until a signal. While the server waits for it, handlers and tickers move the service; the
  metrics server may fail, which is logged; a failure of \<open>Serve\<close> ends the process without
  closing anything. \<open>None\<close> is a server still serving.
\<close>

datatype server_event = Moved service | MetricsFailed string | ServeFailed string | Interrupted

fun await_signal :: "service \<Rightarrow> server_event list \<Rightarrow> (service \<times> conn list) outcome option" where
  "await_signal sv [] = None"
| "await_signal sv (Moved sv' # es) = await_signal sv' es"
| "await_signal sv (MetricsFailed _ # es) = await_signal sv es"
| "await_signal sv (ServeFailed e # es) = Some (Crashes (''Failed to serve'' @ e))"
| "await_signal sv (Interrupted # es) = Some (Returns (shutdown sv))"

section \<open>Facts\<close>

lemma register_keeps:
  "rep_ok (fst mw) \<Longrightarrow> rep_ok (fst (snd (RegisterReplica exec s node mw)))"
  using RegisterReplica_ok [of "fst mw" exec s node "snd mw"] by (metis prod.collapse)

lemma fold_keeps: "(\<And>x s. P s \<Longrightarrow> P (f x s)) \<Longrightarrow> P s \<Longrightarrow> P (fold f xs s)"
  by (induction xs arbitrary: s) simp_all

lemma register_replicas_ok: "rep_ok (fst mw) \<Longrightarrow> rep_ok (fst (register_replicas exec now cfg mw))"
  unfolding register_replicas_def
  by (rule fold_keeps [where P = "\<lambda>mw. rep_ok (fst mw)"], unfold register_shard_def,
      rule fold_keeps [where P = "\<lambda>mw. rep_ok (fst mw)"]) (auto intro: register_keeps split: prod.split)

lemma startup_parts:
  assumes st: "startup exec now now' listen load register fl reg (Returns (Inr cfg)) w = Returns (se, w')"
  shows "\<exists>sm w1 rm. NewShardManager exec now (shard_config_of cfg) w = Returns (sm, w1)
    \<and> NewManager (replication_config_of cfg) = Returns rm
    \<and> seService se = NewVectorService sm (fst (register_replicas exec now' cfg (rm, w1)))
    \<and> w' = snd (register_replicas exec now' cfg (rm, w1)) \<and> (\<exists>reg'. NewCollector register reg = Returns reg')"
proof -
  obtain reg' where c: "NewCollector register reg = Returns reg'"
    using st by (cases "NewCollector register reg") (simp_all add: startup_def)
  obtain smw where n: "NewShardManager exec now (shard_config_of cfg) w = Returns smw"
    using st c by (cases "NewShardManager exec now (shard_config_of cfg) w") (simp_all add: startup_def)
  obtain sm w1 where smw: "smw = (sm, w1)" by (cases smw)
  obtain rm where m: "NewManager (replication_config_of cfg) = Returns rm"
    using st c n smw by (cases "NewManager (replication_config_of cfg)") (simp_all add: startup_def)
  obtain rm' w2 where r: "register_replicas exec now' cfg (rm, w1) = (rm', w2)" by (cases "register_replicas exec now' cfg (rm, w1)")
  have l: "listen (flPort fl) = None"
    using st c n smw m r by (cases "listen (flPort fl)") (simp_all add: startup_def)
  obtain creds where t: "tls_creds load (cgServer cfg) = Inr creds"
    using st c n smw m r l by (cases "tls_creds load (cgServer cfg)") (simp_all add: startup_def)
  have "seService se = NewVectorService sm rm'" "w' = w2"
    using st by (auto simp: startup_def c n smw m r l t)
  then show ?thesis using n smw m r c by simp
qed

lemma startup_ok:
  assumes st: "startup exec now now' listen load register fl reg (Returns (Inr cfg)) w = Returns (se, w')"
    and cfg: "0 < shcShardCount (cgSharding cfg)" "shcShardCount (cgSharding cfg) < 2 ^ 31" "0 < shcVirtualNodes (cgSharding cfg)"
  shows "service_ok (seService se)"
proof -
  obtain sm w1 rm where sm: "NewShardManager exec now (shard_config_of cfg) w = Returns (sm, w1)"
    and rm: "NewManager (replication_config_of cfg) = Returns rm"
    and se: "seService se = NewVectorService sm (fst (register_replicas exec now' cfg (rm, w1)))"
    using startup_parts [OF st] by blast
  have "manager_ok sm" by (rule NewShardManager_ok [OF sm]) (use cfg in \<open>simp_all add: shard_config_of_def\<close>)
  moreover have "rep_ok (fst (register_replicas exec now' cfg (rm, w1)))"
    by (rule register_replicas_ok) (simp add: NewManager_ok [OF rm])
  ultimately show ?thesis by (simp add: se NewVectorService_def service_ok_def indexes_ok_def metrics_ok_def)
qed

text \<open>A process that ends in order has stopped both managers and closed the connection of every adapter.\<close>

lemma await_signal_closes:
  "await_signal sv es = Some (Returns (sv', cs)) \<Longrightarrow>
   \<not> smRunning (svShards sv') \<and> \<not> rmRunning (svReplication sv')
   \<and> set cs = snd ` set (smAdapters (svShards sv')) \<union> snd ` set (rmAdapters (svReplication sv'))"
  by (induction sv es rule: await_signal.induct) (clarsimp simp: shutdown_def Close_def CloseManager_def)+

lemma await_signal_first:
  "await_signal sv es = None \<longleftrightarrow> (\<forall>e \<in> set es. e \<noteq> Interrupted \<and> (\<forall>m. e \<noteq> ServeFailed m))"
  by (induction sv es rule: await_signal.induct) auto

end
