(* ===== verification/System_Laws.thy ===== *)
theory System_Laws
  imports Service_Refinement Server_Main
begin

text \<open>
  What the server built by \<open>main\<close> keeps over a run: the replication manager's adapters, listed
  addresses, failed replicas and lags; the databases of the adapters that start-up registers;
  what the health report counts; and when start-up returns at all.
\<close>

section \<open>Replicas over a run\<close>

text \<open>
  What every step keeps of the replication manager: its adapters, the addresses each shard lists,
  the replicas that have failed and, since nothing ever measures a lag, that all lags are zero.
\<close>

definition lags_zero :: "replication_manager \<Rightarrow> bool" where
  "lags_zero m \<longleftrightarrow> (\<forall>s. \<forall>r \<in> set (group_of (rmReplicas m) s). rnLag r = 0)"

definition rep_keeps :: "replication_manager \<Rightarrow> replication_manager \<Rightarrow> bool" where
  "rep_keeps m m' \<longleftrightarrow> rmAdapters m' = rmAdapters m
     \<and> (\<forall>s. map rnAddress (group_of (rmReplicas m') s) = map rnAddress (group_of (rmReplicas m) s))
     \<and> (lags_zero m \<longrightarrow> lags_zero m') \<and> (\<forall>s a. failed s a m \<longrightarrow> failed s a m')"

lemma rep_keeps_refl [simp]: "rep_keeps m m"
  by (simp add: rep_keeps_def)

lemma rep_keeps_trans: "rep_keeps a b \<Longrightarrow> rep_keeps b c \<Longrightarrow> rep_keeps a c"
  by (simp add: rep_keeps_def)

lemma ages_lags: "list_all2 ages rs rs' \<Longrightarrow> \<forall>r \<in> set rs. rnLag r = 0 \<Longrightarrow> \<forall>r \<in> set rs'. rnLag r = 0"
  by (induction rule: list_all2_induct) (auto simp: ages_def)

lemma evolves_keeps: "evolves m m' \<Longrightarrow> rep_keeps m m'"
  using evolves_addresses evolves_failed ages_lags unfolding rep_keeps_def lags_zero_def evolves_def by metis

lemma Promote_keeps:
  assumes "PromoteReplica n a m = (e, m')" shows "rep_keeps m m'"
proof (cases "m' = m")
  case False
  then obtain replicas swap where r: "gm_get (rmReplicas m) n = Some replicas"
    and m': "rmReplicas m' = gm_put n (map swap replicas) (rmReplicas m)" "rmAdapters m' = rmAdapters m"
    and swap: "\<And>r. rnAddress (swap r) = rnAddress r \<and> rnLag (swap r) = rnLag r"
    using assms by (auto simp: PromoteReplica_def Let_def split: option.splits if_splits)
  have g: "group_of (rmReplicas m') s = (if s = n then map swap (group_of (rmReplicas m) n) else group_of (rmReplicas m) s)" for s
    unfolding m' group_of_put using r by (simp add: group_of_def)
  show ?thesis unfolding rep_keeps_def lags_zero_def g m'(2)
    using swap PromoteReplica_failed [OF assms] by (auto simp: comp_def)
qed simp

context redis_service
begin

lemma handles_rep:
  assumes "handles store K s s'" "service_ok (fst s)"
  shows "rep_keeps (svReplication (fst s)) (svReplication (fst s'))"
  using assms evolves_keeps by (auto simp: handles_def kept_by_def steady_def service_ok_def)

lemma service_step_rep:
  "service_step exec (vector_key j b) s s' \<Longrightarrow> service_ok (fst s) \<Longrightarrow>
   rep_keeps (svReplication (fst s)) (svReplication (fst s'))"
proof (induction rule: service_step.induct)
  case (insert rt req s resp s')
  then show ?case using handles_rep Insert_handles [of req j b s rt] by simp
next
  case (batch rt req s bresp s')
  then show ?case using handles_rep BatchInsert_handles [of rt req j b s] by (simp add: rt_ok_def)
next
  case (search rt req s sresp s')
  then show ?case using handles_rep Search_handles [of "vector_key j b" s rt req] by simp
next
  case (get req s gresp s')
  then show ?case using handles_rep Get_handles [of "vector_key j b" s req] by simp
next
  case (update rt req s uresp s')
  then show ?case using handles_rep Update_handles [of req j b rt s uresp s'] by simp
next
  case (delete rt req s dresp s')
  then show ?case using handles_rep Delete_handles [of req j b s rt] by simp
next
  case (batch_delete rt req s xresp s')
  then show ?case using handles_rep BatchDelete_handles [of rt req j b s] by (simp add: rt_ok_def)
next
  case (create rt req s cresp s')
  then show ?case using handles_rep CreateIndex_handles [of j b s rt req] by simp
next
  case (drop rt req s iresp s')
  then show ?case using handles_rep DropIndex_handles [of j b s rt req] by simp
next
  case (stats rt req s tresp s')
  then show ?case using handles_rep GetStats_handles [of "vector_key j b" s rt req] by simp
next
  case (replica_health sv w iorder age)
  then show ?case using steady_checkReplicaHealth [of "svReplication sv" iorder age] evolves_keeps
    by (auto simp: steady_def service_ok_def)
next
  case (promote n a sv e rm' w)
  then show ?case using Promote_keeps by simp
qed simp

lemma service_runs_rep:
  "(service_run exec)\<^sup>*\<^sup>* s s' \<Longrightarrow> service_ok (fst s) \<Longrightarrow> rep_keeps (svReplication (fst s)) (svReplication (fst s'))"
proof (induction rule: rtranclp_induct)
  case (step y z)
  then obtain K where "service_step exec K y z" by (auto simp: service_run_def)
  then obtain j b where st: "service_step exec (vector_key j b) y z" using service_step_fresh by meson
  have "service_ok (fst y)" using service_runs_ok step.hyps(1) step.prems by blast
  from service_step_rep [OF st this] step.IH [OF step.prems] show ?case by (meson rep_keeps_trans)
qed simp

end

section \<open>Registration at start-up\<close>

text \<open>
  An address serves every shard that lists it through one adapter, to the database of the last of
  them. Up to shard \<open>n\<close> of a start-up:
\<close>

definition databases_grow :: "redis_config \<Rightarrow> nat \<Rightarrow> replication_manager \<Rightarrow> bool" where
  "databases_grow rd n m \<longleftrightarrow> rcRedisDB (rmConfig m) = rdDB rd \<and> rcRedisPassword (rmConfig m) = rdPassword rd \<and> lags_zero m
     \<and> (\<forall>s. \<forall>r \<in> set (group_of (rmReplicas m) s). s \<le> int n)
     \<and> (\<forall>a c. gm_get (rmAdapters m) a = Some c \<longrightarrow>
          (\<exists>j. c = \<lparr>cAddr = a, cPassword = rdPassword rd, cDB = rdDB rd + j\<rparr>
             \<and> a \<in> rnAddress ` set (group_of (rmReplicas m) j)
             \<and> (\<forall>s. a \<in> rnAddress ` set (group_of (rmReplicas m) s) \<longrightarrow> s \<le> j)))"

lemma register_grows:
  assumes "databases_grow rd n m" "rnLag node = 0"
  shows "databases_grow rd n (fst (snd (RegisterReplica exec (int n) node (m, w))))"
proof -
  obtain e m' w' where r: "RegisterReplica exec (int n) node (m, w) = (e, m', w')" by (rule prod_cases3)
  show ?thesis
  proof (cases e)
    case (Some x)
    have "rmConfig m' = rmConfig m \<and> rmAdapters m' = rmAdapters m \<and> (\<forall>s. group_of (rmReplicas m') s = group_of (rmReplicas m) s)"
      using r [unfolded Some] by (rule RegisterReplica_Some) simp
    with assms(1) show ?thesis by (simp add: r databases_grow_def lags_zero_def)
  next
    case None
    note reg = RegisterReplica_None [OF r [unfolded None]]
    have g: "group_of (rmReplicas m') s = (if s = int n then group_of (rmReplicas m) (int n) @ [node] else group_of (rmReplicas m) s)" for s
      by (rule reg(2))
    have old: "rcRedisDB (rmConfig m) = rdDB rd" "rcRedisPassword (rmConfig m) = rdPassword rd" "lags_zero m"
      "\<forall>s. \<forall>r \<in> set (group_of (rmReplicas m) s). s \<le> int n"
      using assms(1) by (simp_all add: databases_grow_def)
    have late: "\<forall>s. \<forall>r \<in> set (group_of (rmReplicas m') s). s \<le> int n" and lags: "lags_zero m'"
      using old(3,4) assms(2) by (auto simp: g lags_zero_def)
    have listed': "a \<in> rnAddress ` set (group_of (rmReplicas m') s) \<longleftrightarrow>
        a \<in> rnAddress ` set (group_of (rmReplicas m) s) \<or> s = int n \<and> a = rnAddress node" for a s
      by (auto simp: g)
    have "\<exists>j. c = \<lparr>cAddr = a, cPassword = rdPassword rd, cDB = rdDB rd + j\<rparr>
             \<and> a \<in> rnAddress ` set (group_of (rmReplicas m') j)
             \<and> (\<forall>s. a \<in> rnAddress ` set (group_of (rmReplicas m') s) \<longrightarrow> s \<le> j)"
      if c: "gm_get (rmAdapters m') a = Some c" for a c
    proof (cases "a = rnAddress node")
      case True
      then have "c = \<lparr>cAddr = a, cPassword = rdPassword rd, cDB = rdDB rd + int n\<rparr>"
        using c old(1,2) by (simp add: reg(3) gomap_simps)
      moreover have "s \<le> int n" if "a \<in> rnAddress ` set (group_of (rmReplicas m') s)" for s using late that by blast
      ultimately show ?thesis using True listed' by blast
    next
      case False
      then have "gm_get (rmAdapters m) a = Some c" using c by (simp add: reg(3) gomap_simps)
      with assms(1) show ?thesis unfolding listed' databases_grow_def using False by blast
    qed
    then show ?thesis using old(1,2) late lags by (simp add: r databases_grow_def reg(5))
  qed
qed

lemma databases_grow_mono: "databases_grow rd n m \<Longrightarrow> n \<le> k \<Longrightarrow> databases_grow rd k m"
  unfolding databases_grow_def by (meson of_nat_le_iff order_trans)

lemma register_shard_grows:
  "databases_grow rd n (fst mw) \<Longrightarrow> databases_grow rd n (fst (register_shard exec now addrs n mw))"
  unfolding register_shard_def
  by (rule fold_keeps [where P = "\<lambda>mw. databases_grow rd n (fst mw)"])
    (auto simp: replica_for_def split: prod.split intro!: register_grows)

lemma register_shards_grow:
  "databases_grow rd 0 (fst mw) \<Longrightarrow> databases_grow rd n (fst (fold (register_shard exec now addrs) [0..<n] mw))"
proof (induction n)
  case (Suc n)
  then have "databases_grow rd n (fst (fold (register_shard exec now addrs) [0..<n] mw))" by simp
  from databases_grow_mono [OF register_shard_grows [OF this], of "Suc n"] show ?case by simp
qed simp

lemma startup_grows:
  assumes "startup exec now now' listen load register fl reg (Returns (Inr cfg)) w = Returns (se, w')"
  shows "\<exists>n. databases_grow (cgRedis cfg) n (svReplication (seService se))"
proof -
  obtain sm w1 rm where rm: "NewManager (replication_config_of cfg) = Returns rm"
    and se: "seService se = NewVectorService sm (fst (register_replicas exec now' cfg (rm, w1)))"
    using startup_parts [OF assms] by blast
  have "databases_grow (cgRedis cfg) 0 rm"
    using rm by (auto simp: NewManager_def databases_grow_def lags_zero_def replication_config_of_def group_of_def split: if_splits)
  from register_shards_grow [where mw = "(rm, w1)", simplified, OF this] show ?thesis
    unfolding se NewVectorService_def register_replicas_def by (intro exI) simp
qed


section \<open>The health report\<close>

lemma zero_average: "0 < n \<Longrightarrow> f64_div (f64_of_int 0) (f64_of_int n) = f64_zero"
proof -
  assume n: "0 < n"
  define M where "M = fp_round f64fmt n 1 0"
  have z: "fp_round f64fmt 0 D k = 0" for D k by (simp add: fp_round_def)
  have m: "0 < M" "M \<le> fp_inf f64fmt" "M < fp_signbit f64fmt"
    using fp_round_pos [OF n] fp_round_range [OF wf_f64fmt, of n 1 0] fp_qnan_range [OF wf_f64fmt] n by (simp_all add: M_def)
  have b: "f64_int (f64_of_int n) = M"
    using n m by (simp add: f64_of_int_def fp_of_int_def fp_sgn_def f64_int_lift flip: M_def)
  have a: "f64_int (f64_of_int 0) = 0"
    by (simp add: f64_of_int_def fp_of_int_def fp_sgn_def z f64_int_lift fp_signbit_def)
  have mag: "fp_mag f64fmt M = M" "fp_mag f64fmt 0 = 0" using m by (simp_all add: fp_mag_def)
  have pos: "0 < fp_inf f64fmt" "\<not> fp_neg f64fmt M" "\<not> fp_neg f64fmt 0" using m by (simp_all add: fp_neg_def)
  have "fp_man f64fmt 0 = 0" by (simp add: fp_man_def mag)
  then have "fp_div f64fmt 0 M = 0"
    using m pos by (simp add: fp_div_def Let_def fp_is_nan_def fp_is_inf_def fp_is_zero_def mag fp_sgn_def z)
  moreover have "f64_lift 0 = f64_zero" by (simp add: f64_zero_def f64_of_int_def fp_of_int_def z fp_sgn_def)
  ultimately show ?thesis unfolding f64_div_def a b by simp
qed

lemma count_replica_lag: "rnLag r = 0 \<Longrightarrow> snd (snd (snd c)) = 0 \<Longrightarrow> snd (snd (snd (count_replica r c))) = 0"
  by (cases c) (simp add: count_replica_def quot_trunc_def int64_of_def)

lemma count_replica_failed: "fst (snd (snd (count_replica r c))) = fst (snd (snd c)) + (if rnStatus r = ''active'' then 0 else 1)"
  by (simp add: count_replica_def split: prod.split)

definition replicas_of :: "(int \<Rightarrow> replica_node list res) \<Rightarrow> shard_info list \<Rightarrow> replica_node list" where
  "replicas_of status shards = concat (map (\<lambda>s. case status (siID s) of Inl _ \<Rightarrow> [] | Inr rs \<Rightarrow> rs) shards)"

lemma count_replicas_fold: "count_replicas status shards = fold count_replica (replicas_of status shards) (0, 0, 0, 0)"
proof -
  have "fold (\<lambda>s c. case status (siID s) of Inl _ \<Rightarrow> c | Inr rs \<Rightarrow> fold count_replica rs c) shards c
    = fold count_replica (replicas_of status shards) c" for c
    by (induction shards arbitrary: c) (simp_all add: replicas_of_def split: sum.split)
  then show ?thesis by (simp add: count_replicas_def)
qed

lemma fold_count:
  "fst (fold count_replica rs c) = fst c + length rs"
  "fst (snd (snd (fold count_replica rs c))) = fst (snd (snd c)) + length (filter (\<lambda>r. rnStatus r \<noteq> ''active'') rs)"
  "\<forall>r \<in> set rs. rnLag r = 0 \<Longrightarrow> snd (snd (snd c)) = 0 \<Longrightarrow> snd (snd (snd (fold count_replica rs c))) = 0"
  by (induction rs arbitrary: c) (auto simp: count_replica_lag count_replica_failed, auto simp: count_replica_def split: prod.split)

lemma report_counts:
  assumes "counted (count_replicas status shards)"
  shows "rhTotalReplicas (replication_report status shards) = length (replicas_of status shards)"
    "rhFailedReplicas (replication_report status shards) = length (filter (\<lambda>r. rnStatus r \<noteq> ''active'') (replicas_of status shards))"
    "rhActiveReplicas (replication_report status shards) + rhFailedReplicas (replication_report status shards)
       = length (replicas_of status shards)"
  using assms fold_count [of "replicas_of status shards" "(0, 0, 0, 0)"]
  by (auto simp: replication_report_def count_replicas_fold counted_def Let_def split: prod.splits)

lemma report_no_lag:
  assumes "\<forall>r \<in> set (replicas_of status shards). rnLag r = 0"
  shows "rhAverageLag (replication_report status shards) = f64_zero"
    "rhHealthy (replication_report status shards) \<longleftrightarrow> rhFailedReplicas (replication_report status shards) = 0"
proof -
  obtain n active bad lag where c: "count_replicas status shards = (n, active, bad, lag)" by (rule prod_cases4)
  have "lag = 0" using fold_count(3) [OF assms, of "(0, 0, 0, 0)"] c by (simp add: count_replicas_fold)
  moreover have "f64_lt f64_zero (f64_of_int 1000)" by code_simp
  ultimately show "rhAverageLag (replication_report status shards) = f64_zero"
    "rhHealthy (replication_report status shards) \<longleftrightarrow> rhFailedReplicas (replication_report status shards) = 0"
    by (simp_all add: replication_report_def c Let_def zero_average)
qed


lemma verdict_healthy: "verdict p r = (h, st, msg) \<Longrightarrow> \<not> r \<Longrightarrow> st = ''unhealthy'' \<and> \<not> h"
  by (auto simp: verdict_def Let_def split: if_splits)

lemma unhealthy_status:
  assumes "\<not> rhHealthy (replication_report status xs)"
  shows "HTTPHandler (Check xs ys status now) = 503" "fst (ReadinessHandler (Check xs ys status now)) = 503"
proof -
  obtain h st msg where "verdict (health_percentage (length ys) (length xs)) (rhHealthy (replication_report status xs)) = (h, st, msg)"
    by (rule prod_cases3)
  with verdict_healthy [OF this assms] show "HTTPHandler (Check xs ys status now) = 503"
    by (simp add: Check_def Let_def HTTPHandler_def)
  then show "fst (ReadinessHandler (Check xs ys status now)) = 503" by (simp add: handlers_agree)
qed

text \<open>The replicas of every shard that is listed are counted.\<close>

lemma replicas_of_Cons: "replicas_of status (x # xs) = (case status (siID x) of Inl _ \<Rightarrow> [] | Inr rs \<Rightarrow> rs) @ replicas_of status xs"
  by (simp add: replicas_of_def)

lemma status_group: "GetReplicaStatus i rm = Inr rs \<Longrightarrow> rs = group_of (rmReplicas rm) i"
  by (auto simp: GetReplicaStatus_def group_of_def split: option.splits)

lemma counted_listed: "r \<in> set (replicas_of (\<lambda>i. GetReplicaStatus i rm) xs) \<Longrightarrow> \<exists>i. r \<in> set (group_of (rmReplicas rm) i)"
proof (induction xs)
  case (Cons x xs)
  then show ?case
    by (cases "GetReplicaStatus (siID x) rm") (auto simp: replicas_of_Cons dest: status_group)
qed (simp add: replicas_of_def)

lemma counted_replica:
  assumes "manager_ok sm" "is_order order" "r \<in> set (group_of (rmReplicas rm) sh)" "0 \<le> sh" "sh < cfShardCount (smConfig sm)"
  shows "r \<in> set (replicas_of (\<lambda>i. GetReplicaStatus i rm) (GetAllShards order sm))"
proof -
  have "sh \<in> int ` {..<nat (cfShardCount (smConfig sm))}"
    using assms(4,5) by (auto simp: image_iff intro!: bexI [of _ "nat sh"])
  then have "sh \<in> dom (gm_get (smShards sm))" using assms(1) by (simp add: manager_ok_def shards_ok_def)
  then obtain shard where g1: "gm_get (smShards sm) sh = Some shard" by blast
  with assms(1) have g: "gm_get (smShards sm) sh = Some shard" "siID shard = sh"
    by (simp_all add: manager_ok_def shards_ok_def)
  have "shard \<in> set (map snd (smShards sm))" using g(1) by (force dest: map_of_SomeD)
  then have "shard \<in> set (GetAllShards order sm)" by (simp only: GetAllShards_def is_order_set [OF assms(2)])
  moreover have "GetReplicaStatus sh rm = Inr (group_of (rmReplicas rm) sh)"
    using assms(3) by (cases "gm_get (rmReplicas rm) sh") (simp_all add: GetReplicaStatus_def group_of_def)
  ultimately show ?thesis using assms(3) g(2) by (auto simp: replicas_of_def intro!: bexI [of _ shard])
qed

section \<open>Starting\<close>

lemma NewShardManager_starts: "cfRedisAddresses config \<noteq> [] \<Longrightarrow>
    (\<exists>smw. NewShardManager exec now config w = Returns smw) \<longleftrightarrow> 0 < cfHealthCheckInterval config"
  by (simp add: NewShardManager_def not_less split: prod.split)

text \<open>From the two managers to the server.\<close>

lemma startup_rest:
  assumes "NewShardManager exec now (shard_config_of cfg) w = Returns smw" "NewManager (replication_config_of cfg) = Returns rm"
    "listen (flPort fl) = None" "\<not> scTLSEnabled (cgServer cfg)" "NewCollector register reg = Returns reg'"
  shows "startup exec now now' listen load register fl reg (Returns (Inr cfg)) w
    = (case register_replicas exec now' cfg (rm, snd smw) of (rm', w2) \<Rightarrow>
        Returns (\<lparr>seService = NewVectorService (fst smw) rm', sePort = flPort fl, seOptions = serverOpts None,
          seMetricsPort = flMetricsPort fl\<rparr>, w2))"
  using assms by (cases smw) (simp add: startup_def tls_creds_def)

lemma startup_returns:
  assumes "rdAddresses (cgRedis cfg) \<noteq> []" "\<not> scTLSEnabled (cgServer cfg)" "listen (flPort fl) = None"
    "prometheus register names"
  shows "(\<exists>se w'. startup exec now now' listen load register fl reg (Returns (Inr cfg)) w = Returns (se, w'))
    \<longleftrightarrow> 0 < int64_of (shcHealthCheckIntervalSeconds (cgSharding cfg) * 1000000000)
       \<and> 0 < int64_of (rsSyncIntervalSeconds (cgReplication cfg) * 1000000000)
       \<and> full_name ` set collector_metrics \<inter> names reg = {}"
    (is "?starts \<longleftrightarrow> ?hc \<and> ?sync \<and> ?free")
proof
  assume ?starts
  then obtain se w' where "startup exec now now' listen load register fl reg (Returns (Inr cfg)) w = Returns (se, w')" by blast
  from startup_parts [OF this] obtain sm w1 rm where
    sm: "NewShardManager exec now (shard_config_of cfg) w = Returns (sm, w1)" and
    rm: "NewManager (replication_config_of cfg) = Returns rm" and
    c: "\<exists>reg'. NewCollector register reg = Returns reg'" by blast
  then have ?free using prometheus.NewCollector_Returns(1) [OF assms(4)] by blast
  moreover have "0 < cfHealthCheckInterval (shard_config_of cfg)"
    using sm NewShardManager_starts [of "shard_config_of cfg" exec now w] assms(1) by (simp add: shard_config_of_def)
  moreover have "0 < rcSyncInterval (replication_config_of cfg)" using rm by (simp add: NewManager_def split: if_splits)
  ultimately show "?hc \<and> ?sync \<and> ?free" by (simp add: shard_config_of_def replication_config_of_def)
next
  assume i: "?hc \<and> ?sync \<and> ?free"
  then obtain smw where sm: "NewShardManager exec now (shard_config_of cfg) w = Returns smw"
    using NewShardManager_starts [of "shard_config_of cfg" exec now w] assms(1) by (auto simp: shard_config_of_def)
  obtain rm where rm: "NewManager (replication_config_of cfg) = Returns rm"
    using i by (simp add: NewManager_def replication_config_of_def)
  obtain rm' w2 where reg: "register_replicas exec now' cfg (rm, snd smw) = (rm', w2)" by fastforce
  obtain reg' where c: "NewCollector register reg = Returns reg'"
    using i prometheus.NewCollector_result [OF assms(4), of reg] by auto
  note r = startup_rest [where listen = listen and fl = fl and now' = now' and load = load, OF sm rm assms(3,2) c]
  show ?starts by (simp add: r reg)
qed

section \<open>What is registered when the replicas answer\<close>

definition listed :: "string \<Rightarrow> int \<Rightarrow> replication_manager \<Rightarrow> bool" where
  "listed a s m \<longleftrightarrow> a \<in> rnAddress ` set (group_of (rmReplicas m) s)"

lemma RegisterReplica_keeps_listed:
  assumes "listed a s (fst mw)" shows "listed a s (fst (snd (RegisterReplica exec k node mw)))"
proof -
  obtain m w where mw: "mw = (m, w)" by (cases mw)
  obtain e m' w' where r: "RegisterReplica exec k node (m, w) = (e, m', w')" by (rule prod_cases3)
  show ?thesis
  proof (cases e)
    case None
    from RegisterReplica_None(2) [OF r [unfolded None], of s] assms show ?thesis by (auto simp: mw r listed_def)
  next
    case (Some x)
    have "\<forall>s. group_of (rmReplicas m') s = group_of (rmReplicas m) s"
      using r [unfolded Some] by (rule RegisterReplica_Some) simp
    then show ?thesis using assms by (simp add: mw r listed_def)
  qed
qed

lemma register_keeps_listed: "listed a s (fst mw) \<Longrightarrow> listed a s (fst (fold (\<lambda>x mw. snd (RegisterReplica exec (k x) (n x) mw)) xs mw))"
  by (rule fold_keeps [where P = "\<lambda>mw. listed a s (fst mw)"]) (rule RegisterReplica_keeps_listed)

text \<open>Servers that answer, and go on answering.\<close>

definition answers :: "'w redis \<Rightarrow> ('w \<Rightarrow> bool) \<Rightarrow> bool" where
  "answers exec U \<longleftrightarrow> (\<forall>a p d w. U w \<longrightarrow> (\<exists>c w'. NewRedisAdapter exec a p d w = (Inr c, w') \<and> U w'))"

lemma RegisterReplica_lists:
  assumes "answers exec U" "U (snd mw)"
  shows "listed (rnAddress node) s (fst (snd (RegisterReplica exec s node mw)))" "U (snd (snd (RegisterReplica exec s node mw)))"
proof -
  obtain m w where mw: "mw = (m, w)" by (cases mw)
  obtain c w' where "NewRedisAdapter exec (rnAddress node) (rcRedisPassword (rmConfig m)) (rcRedisDB (rmConfig m) + s) w = (Inr c, w')" "U w'"
    using assms mw unfolding answers_def by fastforce
  then show "listed (rnAddress node) s (fst (snd (RegisterReplica exec s node mw)))" "U (snd (snd (RegisterReplica exec s node mw)))"
    using assms(2) by (auto simp: mw RegisterReplica_def Let_def listed_def image_iff) metis+
qed

lemma register_fold_lists:
  assumes "answers exec U" "U (snd mw)"
  shows "(\<forall>x \<in> set xs. listed (rnAddress (n x)) s (fst (fold (\<lambda>x mw. snd (RegisterReplica exec s (n x) mw)) xs mw)))
    \<and> U (snd (fold (\<lambda>x mw. snd (RegisterReplica exec s (n x) mw)) xs mw))"
  using assms(2)
proof (induction xs arbitrary: mw)
  case (Cons x xs)
  note first = RegisterReplica_lists [where node = "n x" and s = s, OF assms(1) Cons.prems]
  show ?case using Cons.IH [OF first(2)] register_keeps_listed [where k = "\<lambda>_. s" and n = n, OF first(1)] by simp
qed simp

lemma register_shard_lists:
  assumes "answers exec U" "U (snd mw)" "a \<in> set addrs"
  shows "listed a (int i) (fst (register_shard exec now addrs i mw))"
proof -
  obtain j where j: "j < length addrs" "addrs ! j = a" using assms(3) unfolding in_set_conv_nth by blast
  then have "(j, a) \<in> set (enumerate 0 addrs)" by (auto simp: in_set_enumerate_eq)
  moreover have "(\<lambda>(j, addr) mw. snd (RegisterReplica exec (int i) (replica_for now i j addr) mw))
      = (\<lambda>x mw. snd (RegisterReplica exec (int i) (replica_for now i (fst x) (snd x)) mw))"
    by (simp add: fun_eq_iff split: prod.split)
  ultimately show ?thesis
    using register_fold_lists [OF assms(1,2), of "enumerate 0 addrs" "\<lambda>x. replica_for now i (fst x) (snd x)" "int i"]
    by (fastforce simp: register_shard_def replica_for_def)
qed

lemma register_shard_keeps:
  "listed a s (fst mw) \<Longrightarrow> listed a s (fst (register_shard exec now addrs i mw))"
  unfolding register_shard_def
  by (rule fold_keeps [where P = "\<lambda>mw. listed a s (fst mw)"]) (auto split: prod.split intro: RegisterReplica_keeps_listed)

lemma register_shard_answers: "answers exec U \<Longrightarrow> U (snd mw) \<Longrightarrow> U (snd (register_shard exec now addrs i mw))"
  unfolding register_shard_def
  by (rule fold_keeps [where P = "\<lambda>mw. U (snd mw)"]) (auto split: prod.split intro: RegisterReplica_lists(2))

lemma register_shards_lists:
  assumes "answers exec U" "U (snd mw)" "a \<in> set addrs"
  shows "\<forall>i < n. listed a (int i) (fst (fold (register_shard exec now addrs) [0..<n] mw))"
proof (induction n)
  case (Suc n)
  have "U (snd (fold (register_shard exec now addrs) [0..<n] mw))"
    by (rule fold_keeps [where P = "\<lambda>mw. U (snd mw)"]) (use register_shard_answers assms in auto)
  from register_shard_lists [OF assms(1) this assms(3)] Suc show ?case
    by (auto simp: less_Suc_eq register_shard_keeps)
qed simp

lemma init_shard_answers: "answers exec U \<Longrightarrow> U (snd smw) \<Longrightarrow> U (snd (init_shard exec now i smw))"
proof -
  assume a: "answers exec U" "U (snd smw)"
  let ?c = "smConfig (fst smw)"
  obtain c w' where "NewRedisAdapter exec (shard_addr ?c i) (cfRedisPassword ?c) (cfRedisDB ?c + int i) (snd smw) = (Inr c, w')" "U w'"
    using a unfolding answers_def by meson
  then show ?thesis by (simp add: init_shard_def Let_def)
qed

lemma startup_lists:
  assumes "startup exec now now' listen load register fl reg (Returns (Inr cfg)) w = Returns (se, w')"
    "answers exec U" "U w" "a \<in> set (rsReplicaAddresses (cgReplication cfg))" "0 \<le> i" "i < shcShardCount (cgSharding cfg)"
  shows "listed a i (svReplication (seService se))"
proof -
  from startup_parts [OF assms(1)] obtain sm w1 rm where
    sm: "NewShardManager exec now (shard_config_of cfg) w = Returns (sm, w1)"
    and se: "seService se = NewVectorService sm (fst (register_replicas exec now' cfg (rm, w1)))" by blast
  have "w1 = snd (fold (init_shard exec now) [0..<nat (cfShardCount (shard_config_of cfg))] (empty_manager (shard_config_of cfg), w))"
    using sm by (auto simp: NewShardManager_def split: if_splits prod.splits)
  moreover have "U (snd (fold (init_shard exec now) [0..<nat (cfShardCount (shard_config_of cfg))] (empty_manager (shard_config_of cfg), w)))"
    by (rule fold_keeps [where P = "\<lambda>smw. U (snd smw)"]) (use init_shard_answers assms(2,3) in auto)
  ultimately have U: "U (snd (rm, w1))" by simp
  have "listed a (int (nat i)) (fst (register_replicas exec now' cfg (rm, w1)))"
    unfolding register_replicas_def
    by (rule register_shards_lists [rule_format, OF assms(2) U assms(4)]) (use assms(5,6) in simp)
  then show ?thesis using assms(5) by (simp add: se NewVectorService_def)
qed

lemma mem_answers: "answers mem_exec (\<lambda>w. mwDown w = [])"
  by (auto simp: answers_def NewRedisAdapter_def GetClient_def Let_def mem_exec_def split: prod.splits)

end
