(* ===== verification/System_Properties.thy ===== *)
theory System_Properties
  imports Service_Properties System_Laws
begin

text \<open>
  Properties of the whole server: loading its configuration, starting it, what holds from then
  on along every run, what its probes answer, and what it asks of Prometheus. The default
  configuration over servers in memory serves the witnesses.
\<close>

definition demo_viper :: "settings \<Rightarrow> settings viper" where
  "demo_viper file = \<lparr>vpMerge = \<lambda>_ v. Inr v, vpAutomaticEnv = \<lambda>_ v. v, vpSetDefault = \<lambda>key x v. v(key \<mapsto> x),
     vpRead = \<lambda>_ v. (None, v ++ file), vpUnmarshal = \<lambda>v. Returns (Inr (decode_config v))\<rparr>"

text \<open>The server of the default configuration, over servers in memory.\<close>

abbreviation demo_startup :: "(unit server \<times> mem_world) outcome" where
  "demo_startup \<equiv> startup mem_exec (\<lambda>_. 0) (\<lambda>_ _. 0) (\<lambda>_. None) (\<lambda>_ _. Inl []) list_register default_flags []
     (Returns (Inr defaultConfig)) (mem_empty [])"

lemma demo_valid: "ValidateConfig defaultConfig = None" "\<not> scTLSEnabled (cgServer defaultConfig)"
    "shcShardCount (cgSharding defaultConfig) < 2 ^ 31" "rdAddresses (cgRedis defaultConfig) \<noteq> []"
  by (simp_all add: ValidateConfig_None defaultConfig_def)

lemma demo_starts: "\<exists>se w'. demo_startup = Returns (se, w')"
proof -
  have "int64_of 10000000000 = 10000000000" "int64_of 5000000000 = 5000000000" by code_simp+
  then show ?thesis
    by (subst startup_returns [OF _ _ _ list_prometheus.prometheus_axioms]) (simp_all add: demo_valid defaultConfig_def)
qed

section \<open>Properties of the whole\<close>

text \<open>C13: A valid configuration without TLS starts, on a free port, exactly when both intervals are
  positive (as nanoseconds in an \<open>int64\<close>) and no name of the collector's metrics is taken in the
  process's registry, whichever servers answer; in a fresh process none is. What
  starts is in order; it serves on the ports of the flags and with fixed limits, whatever the
  configuration says about ports and limits.\<close>

theorem startup_serves:
  assumes "ValidateConfig cfg = None" "\<not> scTLSEnabled (cgServer cfg)" "listen (flPort fl) = None"
    "prometheus register names"
  shows "((\<exists>se w'. startup exec now now' listen load register fl reg (Returns (Inr cfg)) w = Returns (se, w'))
      \<longleftrightarrow> 0 < int64_of (shcHealthCheckIntervalSeconds (cgSharding cfg) * 1000000000)
         \<and> 0 < int64_of (rsSyncIntervalSeconds (cgReplication cfg) * 1000000000)
         \<and> full_name ` set collector_metrics \<inter> names reg = {})
    \<and> (\<forall>se w'. startup exec now now' listen load register fl reg (Returns (Inr cfg)) w = Returns (se, w') \<longrightarrow>
        sePort se = flPort fl \<and> seMetricsPort se = flMetricsPort fl \<and> seOptions se = serverOpts None
        \<and> (shcShardCount (cgSharding cfg) < 2 ^ 31 \<longrightarrow> service_ok (seService se)))"
proof (intro conjI allI impI)
  have cfg: "rdAddresses (cgRedis cfg) \<noteq> []" "0 < shcShardCount (cgSharding cfg)" "0 < shcVirtualNodes (cgSharding cfg)"
    using assms(1) by (simp_all add: ValidateConfig_None)
  show "(\<exists>se w'. startup exec now now' listen load register fl reg (Returns (Inr cfg)) w = Returns (se, w'))
      \<longleftrightarrow> 0 < int64_of (shcHealthCheckIntervalSeconds (cgSharding cfg) * 1000000000)
         \<and> 0 < int64_of (rsSyncIntervalSeconds (cgReplication cfg) * 1000000000)
         \<and> full_name ` set collector_metrics \<inter> names reg = {}"
    by (rule startup_returns) (use cfg assms in simp_all)
  fix se w'
  assume st: "startup exec now now' listen load register fl reg (Returns (Inr cfg)) w = Returns (se, w')"
  from startup_parts [OF st] obtain sm w1 rm reg' where
    "NewShardManager exec now (shard_config_of cfg) w = Returns (sm, w1)" "NewManager (replication_config_of cfg) = Returns rm"
    "NewCollector register reg = Returns reg'" by blast
  from startup_rest [where now' = now' and load = load and listen = listen and fl = fl, OF this(1,2) assms(3,2) this(3)] st
  show "sePort se = flPort fl" "seMetricsPort se = flMetricsPort fl" "seOptions se = serverOpts None"
    by (auto split: prod.splits)
  show "service_ok (seService se)" if "shcShardCount (cgSharding cfg) < 2 ^ 31"
    by (rule startup_ok [OF st cfg(2) that cfg(3)])
qed

theorem startup_serves_witness:
  "\<exists>se w'. demo_startup = Returns (se, w') \<and> sePort se = 50051 \<and> service_ok (seService se)"
proof -
  note serves = startup_serves [OF demo_valid(1,2) _ list_prometheus.prometheus_axioms, where listen = "\<lambda>_. None" and
      fl = default_flags and exec = mem_exec and now = "\<lambda>_. 0" and now' = "\<lambda>_ _. 0" and load = "\<lambda>_ _. Inl []" and
      w = "mem_empty []" and reg = "[]", OF refl]
  have p: "flPort default_flags = 50051" by (simp add: default_flags_def)
  obtain se w' where s: "demo_startup = Returns (se, w')" using demo_starts by blast
  have "sePort se = flPort default_flags \<and> service_ok (seService se)"
    using serves [THEN conjunct2, rule_format, OF s] demo_valid(3) by simp
  then show ?thesis using s p by (intro exI [of _ se] exI [of _ w']) simp
qed

text \<open>C7: From start-up on, whatever requests, health checks, failures of servers and promotions come
  in whatever order, the service keeps its invariants: no metric call ever panics, every index has
  a valid description under its own name, the shard manager and the replication manager stay in
  order, and every key is routed to a configured shard.\<close>

theorem service_invariant:
  assumes "redis_service exec store"
    "startup exec now now' listen load register fl reg (Returns (Inr cfg)) w = Returns (se, w')"
    "ValidateConfig cfg = None" "shcShardCount (cgSharding cfg) < 2 ^ 31"
    "(service_run exec)\<^sup>*\<^sup>* (seService se, w') s"
  shows "list_all (\<lambda>call. \<not> call_panics call) (svMetrics (fst s))
    \<and> (\<forall>name index. gm_get (svIndexes (fst s)) name = Some index \<longrightarrow> index_ok index \<and> xName index = name)
    \<and> manager_ok (svShards (fst s)) \<and> rep_ok (svReplication (fst s))
    \<and> (\<exists>i. GetShardForKey (svShards (fst s)) key = Inr i \<and> 0 \<le> i \<and> i < cfShardCount (smConfig (svShards (fst s))))"
proof -
  have "0 < shcShardCount (cgSharding cfg)" "0 < shcVirtualNodes (cgSharding cfg)"
    using assms(3) by (simp_all add: ValidateConfig_None)
  then have "service_ok (fst s)"
    using redis_service.service_runs_ok [OF assms(1,5)] startup_ok [OF assms(2) _ assms(4)] by simp
  then have ok: "manager_ok (svShards (fst s))" "rep_ok (svReplication (fst s))" "indexes_ok (fst s)" "metrics_ok (fst s)"
    by (simp_all add: service_ok_def)
  obtain i where "GetShardForKey (svShards (fst s)) key = Inr i" "0 \<le> i" "i < cfShardCount (smConfig (svShards (fst s)))"
    using GetShardForKey_valid [OF ok(1)] by metis
  then show ?thesis using ok by (auto simp: indexes_ok_def metrics_ok_def list_all_iff)
qed

theorem service_invariant_witness:
  "\<exists>se w' i. demo_startup = Returns (se, w') \<and> GetShardForKey (svShards (seService se)) ''c'' = Inr i"
proof -
  obtain se w' where s: "demo_startup = Returns (se, w')" using demo_starts by blast
  from service_invariant [OF mem.redis_service_axioms s demo_valid(1,3) rtranclp.rtrancl_refl, of "''c''"] s
  show ?thesis by auto
qed



text \<open>C15: From start-up on the health report counts every replica of the listed shards once, active
  or failed, and finds no lag, ever: replication is healthy exactly when no replica has failed. The
  two probes agree.\<close>

theorem health_report:
  assumes "redis_service exec store"
    "startup exec now now' listen load register fl reg (Returns (Inr cfg)) w = Returns (se, w')"
    "ValidateConfig cfg = None" "shcShardCount (cgSharding cfg) < 2 ^ 31"
    "(service_run exec)\<^sup>*\<^sup>* (seService se, w') s"
  shows "let sm = svShards (fst s); rm = svReplication (fst s); report = CheckManagers order order' sm rm t; rep = hrReplication report;
      replicas = replicas_of (\<lambda>i. GetReplicaStatus i rm) (GetAllShards order sm)
    in rhTotalReplicas rep = length replicas
       \<and> rhFailedReplicas rep = length (filter (\<lambda>r. rnStatus r \<noteq> ''active'') replicas)
       \<and> rhActiveReplicas rep + rhFailedReplicas rep = rhTotalReplicas rep
       \<and> rhAverageLag rep = f64_zero \<and> (rhHealthy rep \<longleftrightarrow> rhFailedReplicas rep = 0)
       \<and> fst (ReadinessHandler report) = HTTPHandler report"
proof -
  have "0 < shcShardCount (cgSharding cfg)" "0 < shcVirtualNodes (cgSharding cfg)"
    using assms(3) by (simp_all add: ValidateConfig_None)
  then have ok0: "service_ok (fst (seService se, w'))" using startup_ok [OF assms(2) _ assms(4)] by simp
  obtain n where "databases_grow (cgRedis cfg) n (svReplication (seService se))" using startup_grows [OF assms(2)] by blast
  then have zero: "lags_zero (svReplication (fst s))"
    using redis_service.service_runs_rep [OF assms(1,5) ok0] by (simp add: rep_keeps_def databases_grow_def)
  let ?status = "\<lambda>i. GetReplicaStatus i (svReplication (fst s))" and ?shards = "GetAllShards order (svShards (fst s))"
  have no_lag: "\<forall>r \<in> set (replicas_of ?status ?shards). rnLag r = 0"
    using zero counted_listed unfolding lags_zero_def by blast
  have rep: "hrReplication (Check xs ys st t) = replication_report st xs" for xs ys st
    by (simp add: Check_def Let_def split: prod.split)
  show ?thesis
    unfolding CheckManagers_def Let_def rep
    using report_counts [OF count_replicas_counted, of ?status ?shards] report_no_lag [OF no_lag] handlers_agree by simp
qed

theorem health_report_witness:
  "\<exists>se w'. demo_startup = Returns (se, w')
    \<and> rhAverageLag (hrReplication (CheckManagers id id (svShards (seService se)) (svReplication (seService se)) 5)) = f64_zero"
proof -
  obtain se w' where s: "demo_startup = Returns (se, w')" using demo_starts by blast
  from health_report [OF mem.redis_service_axioms s demo_valid(1,3) rtranclp.rtrancl_refl, of id id 5] s
  show ?thesis by (auto simp: Let_def)
qed

text \<open>C16: A replica that has failed, of a shard that is configured, makes the server not ready: both
  probes answer 503, and go on doing so whatever happens afterwards, since no replica recovers.\<close>

theorem unready_for_good:
  assumes "redis_service exec store" "service_ok (fst s)" "failed sh a (svReplication (fst s))"
    "(service_run exec)\<^sup>*\<^sup>* s s'" "is_order order" "0 \<le> sh" "sh < cfShardCount (smConfig (svShards (fst s')))"
  shows "let report = CheckManagers order order' (svShards (fst s')) (svReplication (fst s')) t
    in fst (ReadinessHandler report) = 503 \<and> HTTPHandler report = 503"
proof -
  let ?sm = "svShards (fst s')" and ?rm = "svReplication (fst s')"
  have "failed sh a ?rm"
    using redis_service.service_runs_rep [OF assms(1,4,2)] assms(3) by (simp add: rep_keeps_def)
  then obtain r where r: "r \<in> set (group_of (rmReplicas ?rm) sh)" "rnStatus r = ''failed''" by (auto simp: failed_def)
  have "manager_ok ?sm" using redis_service.service_runs_ok [OF assms(1,4,2)] by (simp add: service_ok_def)
  then have "r \<in> set (replicas_of (\<lambda>i. GetReplicaStatus i ?rm) (GetAllShards order ?sm))"
    using counted_replica [OF _ assms(5) r(1) assms(6,7)] by blast
  then have "filter (\<lambda>r. rnStatus r \<noteq> ''active'') (replicas_of (\<lambda>i. GetReplicaStatus i ?rm) (GetAllShards order ?sm)) \<noteq> []"
    using r(2) by (auto simp: filter_empty_conv intro!: bexI [of _ r])
  then have "0 < rhFailedReplicas (replication_report (\<lambda>i. GetReplicaStatus i ?rm) (GetAllShards order ?sm))"
    using report_counts(2) [OF count_replicas_counted] by simp
  then have "\<not> rhHealthy (replication_report (\<lambda>i. GetReplicaStatus i ?rm) (GetAllShards order ?sm))"
    by (simp add: replication_report_def Let_def split: prod.splits)
  from unhealthy_status [OF this] show ?thesis by (simp add: CheckManagers_def Let_def)
qed

theorem unready_for_good_witness:
  "fst (ReadinessHandler (CheckManagers id id demo_sm (checkReplicaHealth id (\<lambda>_ _ _. 0) (markReplicaFailed 1 ''p2'' demo_rm)) 5)) = 503"
proof -
  let ?sv = "demo_service\<lparr>svReplication := markReplicaFailed 1 ''p2'' demo_rm\<rparr>"
  let ?sv' = "?sv\<lparr>svReplication := checkReplicaHealth id (\<lambda>_ _ _. 0) (svReplication ?sv)\<rparr>"
  have ok: "service_ok (fst (?sv, mem_empty []))"
    using service_ok_replication [OF demo_service_ok] steady_mark demo_rm_ok by (simp add: steady_def)
  have bad: "failed 1 ''p2'' (svReplication (fst (?sv, mem_empty [])))" by (simp add: failed_mark)
  have "service_run mem_exec (?sv, mem_empty []) (?sv', mem_empty [])"
    unfolding service_run_def by (intro exI [of _ "[]"] service_step.replica_health)
  then have run: "(service_run mem_exec)\<^sup>*\<^sup>* (?sv, mem_empty []) (?sv', mem_empty [])" by (rule r_into_rtranclp)
  from unready_for_good [OF mem.redis_service_axioms ok bad run is_order_id(1), of id 5]
  show ?thesis by (simp add: demo_config_def Let_def)
qed

section \<open>Configuration\<close>

text \<open>C40: With a file, the server runs on what the sources set and on the registered defaults for the
  rest; if they set nothing, that is \<open>defaultConfig\<close> but for the addresses of the replicas: there are
  none, so that nothing would be replicated. Without its file the server runs on \<open>defaultConfig\<close>.
  Both are valid.\<close>

theorem load_defaults:
  assumes "viper_reads vp defs file" "defs v = Map.empty"
  shows "let path = (if configPath = [] then ''configs/config.yaml'' else configPath);
             silent = defaultConfig\<lparr>cgReplication := (cgReplication defaultConfig)\<lparr>rsReplicaAddresses := []\<rparr>\<rparr>
    in Load stat vp configPath v = Returns (Inr (if stat path = NotExist then defaultConfig
         else decode_config (map_of default_settings ++ file)))
       \<and> decode_config (map_of default_settings ++ Map.empty) = silent
       \<and> ValidateConfig defaultConfig = None \<and> ValidateConfig silent = None"
proof -
  have "Load stat vp configPath v = Returns (Inr defaultConfig)"
    if "stat (if configPath = [] then ''configs/config.yaml'' else configPath) = NotExist"
    using that by (simp add: Load_def Let_def)
  moreover have "ValidateConfig defaultConfig = None"
    "ValidateConfig (defaultConfig\<lparr>cgReplication := (cgReplication defaultConfig)\<lparr>rsReplicaAddresses := []\<rparr>\<rparr>) = None"
    by (simp_all add: ValidateConfig_None defaultConfig_def)
  ultimately show ?thesis
    unfolding Let_def using Load_read [OF assms(1), of stat configPath v] default_config_decoded by (simp add: assms(2))
qed

theorem load_defaults_witness:
  "Load (\<lambda>_. Found) (demo_viper [''redis.db'' \<mapsto> SInt 3]) [] Map.empty
   = Returns (Inr (decode_config (map_of default_settings ++ [''redis.db'' \<mapsto> SInt 3])))"
proof -
  have "viper_reads (demo_viper [''redis.db'' \<mapsto> SInt 3]) id [''redis.db'' \<mapsto> SInt 3]"
    by (simp add: viper_reads_def demo_viper_def)
  from load_defaults [OF this, of Map.empty "[]" "\<lambda>_. Found"] show ?thesis by (simp add: Let_def)
qed

section \<open>Metrics\<close>

text \<open>C39: Every call that a running server makes on its collector goes to a metric that the collector has,
  of that kind and with a value for each of its labels, as Prometheus requires. The collector that start-up
  makes takes the names of all its metrics in the registry, none of which was taken, and a
  second collector in the same process panics.\<close>

theorem metric_calls_declared:
  assumes "prometheus register names" "redis_service exec store"
    "startup exec now now' listen load register fl reg (Returns (Inr cfg)) w = Returns (se, w')"
    "ValidateConfig cfg = None" "shcShardCount (cgSharding cfg) < 2 ^ 31"
    "(service_run exec)\<^sup>*\<^sup>* (seService se, w') s"
  shows "list_all declared (svMetrics (fst s))
    \<and> (\<exists>reg'. NewCollector register reg = Returns reg' \<and> full_name ` set collector_metrics \<inter> names reg = {}
         \<and> names reg' = names reg \<union> full_name ` set collector_metrics \<and> (\<exists>e. NewCollector register reg' = Crashes e))"
proof
  have "0 < shcShardCount (cgSharding cfg)" "0 < shcVirtualNodes (cgSharding cfg)"
    using assms(4) by (simp_all add: ValidateConfig_None)
  then have "service_ok (fst s)"
    using redis_service.service_runs_ok [OF assms(2,6)] startup_ok [OF assms(3) _ assms(5)] by simp
  then show "list_all declared (svMetrics (fst s))" by (auto simp: service_ok_def metrics_ok_def list_all_iff)
  obtain reg' where c: "NewCollector register reg = Returns reg'" using startup_parts [OF assms(3)] by blast
  show "\<exists>reg'. NewCollector register reg = Returns reg' \<and> full_name ` set collector_metrics \<inter> names reg = {}
         \<and> names reg' = names reg \<union> full_name ` set collector_metrics \<and> (\<exists>e. NewCollector register reg' = Crashes e)"
    by (intro exI [of _ reg'] conjI c prometheus.NewCollector_Returns [OF assms(1) c] prometheus.NewCollector_twice [OF assms(1) c])
qed

theorem metric_calls_declared_witness:
  "\<exists>se w' reg'. demo_startup = Returns (se, w') \<and> NewCollector list_register [] = Returns reg'
     \<and> set reg' = full_name ` set collector_metrics \<and> (\<exists>e. NewCollector list_register reg' = Crashes e)"
proof -
  obtain se w' where s: "demo_startup = Returns (se, w')" using demo_starts by blast
  note m = metric_calls_declared [OF list_prometheus.prometheus_axioms mem.redis_service_axioms s demo_valid(1,3) rtranclp.rtrancl_refl]
  from m [THEN conjunct2] obtain reg' where "NewCollector list_register [] = Returns reg' \<and> full_name ` set collector_metrics \<inter> set [] = {}
    \<and> set reg' = set [] \<union> full_name ` set collector_metrics \<and> (\<exists>e. NewCollector list_register reg' = Crashes e)" by (rule exE)
  with s show ?thesis by (intro exI [of _ se] exI [of _ w'] exI [of _ reg']) simp
qed

end
