(* ===== verification/Example_Client.thy ===== *)
theory Example_Client
  imports Client Softfloat
begin

text \<open>
  \<open>examples/simple_client.go\<close>: a program that makes a client, prints what one would do with it and
  closes it. It calls no handler. What it prints, to both outputs, is a list of lines; a dial is
  the client library's parameter, and the connection it closes is the second result.
\<close>

section \<open>Printing\<close>

text \<open>\<open>fmt.Sprintf("%.3f", x)\<close>: the exact value rounded to thousandths, ties to even.\<close>

definition fmt_f3 :: "float32 \<Rightarrow> string" where
  "fmt_f3 x =
     (let b = f32_int x; e = fp_exp f32fmt b;
          q = nat (if 0 \<le> e then 1000 * fp_man f32fmt b * 2 ^ nat e else rne (1000 * fp_man f32fmt b) (2 ^ nat (- e)))
      in if fp_is_nan f32fmt b then ''NaN''
         else if fp_is_inf f32fmt b then (if fp_neg f32fmt b then ''-Inf'' else ''+Inf'')
         else (if fp_neg f32fmt b then ''-'' else []) @ fmt_nat (q div 1000) @ ''.''
           @ [digit (q div 100 mod 10), digit (q div 10 mod 10), digit (q mod 10)])"

section \<open>The program\<close>

definition clientConfig :: client_config where
  "clientConfig = \<lparr>ccAddress = ''localhost:50051'', ccMaxRetries = 3, ccTimeout = 30 * 1000000000,
     ccKeepAlive = 0, ccMaxMessageSize = 0, ccBackoffMaxDelay = 0\<rparr>"

definition exampleVector :: "float32 list" where
  "exampleVector = map (\<lambda>i. f32_div (f32_of_int (int i)) (f32_of_int 128)) [0..<128]"

definition example_main :: "(client_config \<Rightarrow> 'c res) \<Rightarrow> string list \<times> 'c option" where
  "example_main dial =
     (let start = [''VectorHub Client Example'', ''========================'',
                   ''Connecting to VectorHub server at '' @ ccAddress clientConfig @ ''...'']
      in case NewClient dial clientConfig of
           Inl e \<Rightarrow> (start @ [''Failed to create client: '' @ e,
             ''Note: This example requires VectorHub server to be running''], None)
         | Inr (c, _) \<Rightarrow> (start @ [''Client created successfully!'', ''To use this client:'',
             ''1. Start VectorHub server: ./bin/vectorhub'', ''2. Create an index with proper dimensions'',
             ''3. Insert vectors and perform searches'', [],
             ''Example 128-dimensional vector: ['' @ fmt_f3 (exampleVector ! 0) @ '', '' @ fmt_f3 (exampleVector ! 1)
               @ '', ..., '' @ fmt_f3 (exampleVector ! 127) @ '']'',
             ''Example metadata: map[string]string{\"category\": \"example\", \"source\": \"demo\"}''], Some c))"

section \<open>Facts\<close>

text \<open>The numbers it shows are rounded: 1/128 is 0.0078125, 127/128 is 0.9921875.\<close>

lemma exampleVector_nth: "i < 128 \<Longrightarrow> exampleVector ! i = f32_div (f32_of_int (int i)) (f32_of_int 128)"
  by (simp add: exampleVector_def)

lemma fmt_f3_quotients:
  "fmt_f3 (f32_div (f32_of_int 0) (f32_of_int 128)) = ''0.000''"
  "fmt_f3 (f32_div (f32_of_int 1) (f32_of_int 128)) = ''0.008''"
  "fmt_f3 (f32_div (f32_of_int 127) (f32_of_int 128)) = ''0.992''"
  by code_simp+

lemma example_numbers:
  "length exampleVector = 128"
  "map fmt_f3 [exampleVector ! 0, exampleVector ! 1, exampleVector ! 127] = [''0.000'', ''0.008'', ''0.992'']"
  by (simp add: exampleVector_def) (simp add: exampleVector_nth fmt_f3_quotients)

lemma fmt_f3_negative: "fmt_f3 (F32 0xC0200000) = ''-2.500''"
  by code_simp

text \<open>The client of the example has the configuration's time-out and the defaults elsewhere.\<close>

lemma example_client_config:
  "NewClient dial clientConfig = Inr (c, config) \<Longrightarrow>
   ccTimeout config = 30 * 1000000000 \<and> ccKeepAlive config = 10 * 1000000000 \<and> ccMaxMessageSize config = 104857600
   \<and> ccMaxRetries config = 3"
  by (auto simp: NewClient_def with_defaults_def clientConfig_def Let_def split: sum.splits)

text \<open>It closes the connection exactly when it got one.\<close>

lemma example_closes: "snd (example_main dial) = Some c \<longleftrightarrow> dial (with_defaults clientConfig) = Inr c"
  by (auto simp: example_main_def NewClient_def Let_def split: sum.split)

end
