(* ===== verification/Spec2Isabelle.thy ===== *)
theory Spec2Isabelle
  imports Storage_Properties Cluster_Properties Service_Properties System_Properties Example_Client
begin

text \<open>
  VectorHub: a vector database that keeps vectors as JSON documents on Redis servers, routes them
  to shards by a consistent hash ring, copies writes to replicas and serves them over gRPC.

  \<^bold>\<open>The parts and how they interact.\<close> A request enters a handler of the vector service
  (\<open>internal/server/vector_service.go\<close>), which looks up the index in its table, asks the shard
  manager (\<open>internal/shard/manager.go\<close>, over the ring of \<open>consistent_hash.go\<close>) for the shard of
  the id and for that shard's adapter, stores or reads through the adapter
  (\<open>internal/storage/redis_adapter.go\<close>, over \<open>vector.go\<close>) and hands the write to the replication
  manager (\<open>internal/replication/manager.go\<close>), which copies it to the secondaries. A search asks
  every active shard and ranks what comes back (\<open>internal/storage/helpers.go\<close>). Metrics
  (\<open>internal/metrics\<close>), health (\<open>internal/server/health.go\<close>), configuration (\<open>internal/config\<close>), start-up
  (\<open>cmd/vectorhub/main.go\<close>) and the client library (\<open>pkg/client\<close>) surround it.

  \<^bold>\<open>Theories and code.\<close>
  \<^item> \<open>Prelude\<close>: results (an error message or a value), crashes, Go maps as association lists
    whose iteration order is a parameter (\<open>is_order\<close>), \<open>fmt\<close> of integers, 32- and 64-bit wrap-around.
  \<^item> \<open>Softfloat\<close>: \<open>float32\<close> and \<open>float64\<close> as bit patterns, with the rounded operations the
    program uses (round to nearest even, infinities, subnormals, one NaN for those that operations produce).
    \<open>Exact_Floats\<close>: operations and distances of whole numbers, which are exact.
  \<^item> \<open>Json\<close>, \<open>Vectors\<close>: JSON trees as \<open>encoding/json\<close> fills structs from them; the stored
    vector, its encodings, the distances and index descriptors of \<open>vector.go\<close>.
  \<^item> \<open>Ranking\<close>: quickselect and exchange sort of \<open>helpers.go\<close>, generic in the order of scores.
  \<^item> \<open>Redis\<close>: the servers, a parameter \<open>exec\<close> under the contract \<open>redis_service\<close> (and
    \<open>redis_up\<close> where a server is known to answer), with an in-memory instance.
    \<open>Redis_Adapter\<close>, \<open>Adapter_Laws\<close>: every operation of the adapter, and what it does to a database.
  \<^item> \<open>Hash_Ring\<close>, \<open>Shard_Manager\<close>, \<open>Replication\<close>: the three managers, their operations,
    invariants (\<open>ring_ok\<close>, \<open>manager_ok\<close>, \<open>rep_ok\<close>) and steps.
  \<^item> \<open>Messages\<close>, \<open>Metrics\<close>, \<open>Vector_Service\<close>: the protocol messages, the calls on Prometheus
    and the metrics registered, and every RPC handler as a function on the service and the world.
    What a handler takes from outside (time, iteration orders, goroutine orders) is the record \<open>rt\<close>.
  \<^item> \<open>Service_Laws\<close>, \<open>Service_Store\<close>, \<open>Service_Refinement\<close>, \<open>Service_Availability\<close>: the handlers' effects, the step
    relation \<open>service_step\<close> of the whole service, and its specification as a map.
    \<open>Service_Deletion\<close>: batch deletions from the pipeline to the handler. \<open>Concurrent_Writes\<close>: writes
    as threads whose pipelines, replication loops and goroutines take turns in any order.
  \<^item> \<open>Health\<close>, \<open>Config\<close>, \<open>Client\<close>, \<open>Server_Main\<close>: the report and probes; the configuration, its
    struct tags and loading; the client's calls; flags, options, start-up and the wait for a signal. \<open>System_Laws\<close>: what the
    started server keeps over a run. \<open>Example_Client\<close>: the program of \<open>examples/\<close>.

  \<^bold>\<open>The properties\<close> are in four theories. \<open>Storage_Properties\<close>: encodings round trip, distances
  of whole vectors are the textbook ones, ranking agrees with a full sort, what stores, batches, deletions and searches do to a
  database, which keys collide, and what an adapter over a shard manager does. \<open>Cluster_Properties\<close>: the ring answers with clockwise successors
  and moves few keys, routing is stable and keeps shards apart, the replication manager keeps its tables
  in order and reaches its secondaries. \<open>Service_Properties\<close>: the handlers refine a map, what is
  acknowledged stays readable, writes that overlap end on what one of them wrote but may part the replicas
  from the shard, a search over all shards is a search of all vectors, what is refused and
  reported, and the round trip through the client. \<open>System_Properties\<close>: loading, starting, the
  invariants from start-up on, the probes and the metrics. Where the code does not do what it seems to
  intend, the property states what it does.

  \<^bold>\<open>Interfaces.\<close> The laws a component relies on are locales, interpreted on the definitions that
  provide them: the order of scores (\<open>Ranking\<close>), the Redis service (\<open>Redis\<close>), the router of keys to
  shards (\<open>Shard_Manager\<close>), the store of vectors behind the service (\<open>Service_Store\<close>) and the
  registry of metrics (\<open>Metrics\<close>).

  \<^bold>\<open>Bounds and termination.\<close> Loops are structural recursion or come with a measure; the one
  call that never returns is a \<open>partial_function\<close>, so that not returning is a value. Go's \<open>int\<close> is an
  integer where the program cannot reach its limits (lengths, counts) and wrapped by \<open>int64_of\<close> or
  \<open>int32_of\<close> where it can. Overlapping writes end: each handler has a measure of steps left,
  twice its replicas and three at most. Properties that need less than \<open>2 ^ 31\<close> shards or vectors say so.

  \<^bold>\<open>Assumptions.\<close> Handlers run one after another, with their goroutines in an arbitrary order,
  but for \<open>Concurrent_Writes\<close>, where the steps of different handlers take turns: a pipeline, a turn of the
  loop over the replicas, or a goroutine with its notes in the manager's tables;
  finer interleavings, locks and data races are not modelled. A pipeline is executed in order, and one
  that fails may have executed any part of it. Floating point is that of amd64, without fused operations;
  which NaN an operation produces is left open by Go, and no property depends on it. Prometheus is a
  function that registers a metric or panics, under the contract \<open>prometheus\<close>, where a property needs one.
  Contexts do not expire.

  \<^bold>\<open>Not modelled.\<close> Logging; the generated getters and gRPC stubs, the transport and its
  options' effects, HTTP serving beyond routes and status codes, the ten seconds a shutdown waits; Viper, Prometheus, TLS and the
  Redis client, which are parameters; closing connections, beyond which of them are closed.
\<close>

end
